(* ===== verification/Tdx_Prelude.thy ===== *)
theory Tdx_Prelude
  imports Main "HOL-Library.Word"
begin

text \<open>
  Shared vocabulary of the development: the fixed-width integers of the C++ code, byte
  buffers, the big-endian encoders and decoders that \<^verbatim>\<open>src/src/protocol/protocol.cpp\<close>,
  \<^verbatim>\<open>src/src/crypto/session.cpp\<close> and \<^verbatim>\<open>src/src/transfer/transfer.cpp\<close> each keep a copy of,
  and the facts on lists and words the components share.

  A byte buffer (\<open>std::vector<std::uint8_t>\<close>, \<open>std::span\<close>, \<open>std::array\<close>) is a list of
  \<open>8 word\<close>. Buffer sizes (\<open>std::size_t\<close>) are \<open>nat\<close>; the \<open>int\<close> and \<open>std::int64_t\<close>
  variables of the code are \<open>int\<close>, with the conversions at their width written out where the
  code performs one.
\<close>

unbundle bit_operations_syntax

section \<open>Types\<close>

type_synonym u8 = "8 word"
type_synonym u16 = "16 word"
type_synonym u32 = "32 word"
type_synonym u64 = "64 word"
type_synonym bytes = "u8 list"

named_theorems wire_simps \<open>layout and length facts of encoded buffers\<close>
named_theorems ec_simps \<open>facts on error codes\<close>

section \<open>Conversions of the language\<close>

text \<open>\<open>static_cast<int>(n)\<close> of a \<open>std::size_t\<close>: the value modulo 2^32, read as two's complement.\<close>

definition int_of_size :: "nat \<Rightarrow> int" where
  "int_of_size n = sint (word_of_nat n :: 32 word)"

text \<open>\<open>static_cast<std::int64_t>(v)\<close> and back.\<close>

definition i64_of_u64 :: "u64 \<Rightarrow> int" where
  "i64_of_u64 v = sint v"

definition u64_of_i64 :: "int \<Rightarrow> u64" where
  "u64_of_i64 i = word_of_int i"

definition in_i64 :: "int \<Rightarrow> bool" where
  "in_i64 i \<longleftrightarrow> - (2 ^ 63) \<le> i \<and> i < 2 ^ 63"

text \<open>\<open>std::string\<close> contents as bytes and back (\<open>reinterpret_cast<const char*>\<close>).\<close>

definition bytes_of_string :: "string \<Rightarrow> bytes" where
  "bytes_of_string s = map (\<lambda>c. word_of_nat (of_char c)) s"

definition string_of_bytes :: "bytes \<Rightarrow> string" where
  "string_of_bytes b = map (\<lambda>x. char_of (unat x)) b"

section \<open>Big-endian encoders and decoders\<close>

definition put_be16 :: "u16 \<Rightarrow> bytes" where
  "put_be16 v = [ucast (drop_bit 8 v AND 0xff), ucast (v AND 0xff)]"

definition put_be32 :: "u32 \<Rightarrow> bytes" where
  "put_be32 v = [ucast (drop_bit 24 v AND 0xff), ucast (drop_bit 16 v AND 0xff),
                 ucast (drop_bit 8 v AND 0xff), ucast (v AND 0xff)]"

text \<open>The operands \<open>p[0]\<close>, \<open>p[1]\<close> are promoted to \<open>int\<close> before the shift.\<close>

definition get_be16 :: "bytes \<Rightarrow> u16" where
  "get_be16 p = ucast (push_bit 8 (ucast (p ! 0) :: u32) OR ucast (p ! 1))"

definition get_be32 :: "bytes \<Rightarrow> u32" where
  "get_be32 p = push_bit 24 (ucast (p ! 0)) OR push_bit 16 (ucast (p ! 1)) OR
                push_bit 8 (ucast (p ! 2)) OR ucast (p ! 3)"

text \<open>\<open>put_be64\<close> fills \<open>p[7]\<close> down to \<open>p[0]\<close>; the list grows at the front in the same order.\<close>

fun put_be64_loop :: "nat \<Rightarrow> u64 \<Rightarrow> bytes \<Rightarrow> bytes" where
  "put_be64_loop 0 v acc = acc"
| "put_be64_loop (Suc i) v acc = put_be64_loop i (drop_bit 8 v) (ucast (v AND 0xff) # acc)"

definition put_be64 :: "u64 \<Rightarrow> bytes" where
  "put_be64 v = put_be64_loop 8 v []"

fun get_be64_loop :: "bytes \<Rightarrow> u64 \<Rightarrow> u64" where
  "get_be64_loop [] v = v"
| "get_be64_loop (b # bs) v = get_be64_loop bs (push_bit 8 v OR ucast b)"

definition get_be64 :: "bytes \<Rightarrow> u64" where
  "get_be64 p = get_be64_loop (take 8 p) 0"

section \<open>Lists\<close>

lemma list_length_2: "length xs = 2 \<longleftrightarrow> (\<exists>a b. xs = [a, b])"
  by (auto simp: numeral_2_eq_2 length_Suc_conv)

lemma list_length_4: "length xs = 4 \<longleftrightarrow> (\<exists>a b c d. xs = [a, b, c, d])"
  by (auto simp: eval_nat_numeral length_Suc_conv)

lemma list_length_8:
  "length xs = 8 \<longleftrightarrow> (\<exists>a b c d e f g h. xs = [a, b, c, d, e, f, g, h])"
  by (auto simp: eval_nat_numeral length_Suc_conv)

text \<open>Reading one field out of a buffer that is laid out as a concatenation.\<close>

lemma take_drop_field:
  assumes "length p = i" and "length f = n"
  shows "take n (drop i (p @ f @ r)) = f"
  using assms by simp

lemma append_eq_split: "xs @ ys = xs' @ ys' \<Longrightarrow> length xs = length xs' \<Longrightarrow> xs = xs' \<and> ys = ys'"
  by simp

section \<open>Round trips of the byte encodings\<close>

lemma length_put_be16 [simp, wire_simps]: "length (put_be16 v) = 2"
  by (simp add: put_be16_def)

lemma length_put_be32 [simp, wire_simps]: "length (put_be32 v) = 4"
  by (simp add: put_be32_def)

lemma length_put_be64 [simp, wire_simps]: "length (put_be64 v) = 8"
  by (simp add: put_be64_def eval_nat_numeral)

lemma ucast_and_ff: "(ucast (x AND 0xff :: 'a::len word) :: u8) = ucast x"
proof -
  have "(255 :: 'a word) = mask 8"
    by (simp add: mask_eq_exp_minus_1)
  moreover have "(ucast (x AND mask 8) :: u8) = ucast x"
    by (rule bit_word_eqI) (auto simp: bit_simps dest: bit_imp_le_length)
  ultimately show ?thesis by simp
qed

lemma bit_u8_high [simp]: "8 \<le> n \<Longrightarrow> \<not> bit (b :: u8) n"
  by (auto dest: bit_imp_le_length)

lemma bit_u8_lt: "bit (b :: u8) n \<Longrightarrow> n < 8"
  by (auto dest: bit_imp_le_length)

lemma get_put_be16 [simp]: "get_be16 (put_be16 v @ r) = v"
proof (rule bit_word_eqI)
  fix n assume "n < LENGTH(16)"
  then consider "n < 8" | "8 \<le> n" "n < 16" by fastforce
  then show "bit (get_be16 (put_be16 v @ r)) n = bit v n"
    by cases (auto simp add: get_be16_def put_be16_def ucast_and_ff bit_simps)
qed

lemma get_put_be32 [simp]: "get_be32 (put_be32 v @ r) = v"
proof (rule bit_word_eqI)
  fix n assume "n < LENGTH(32)"
  then consider "n < 8" | "8 \<le> n" "n < 16" | "16 \<le> n" "n < 24" | "24 \<le> n" "n < 32" by fastforce
  then show "bit (get_be32 (put_be32 v @ r)) n = bit v n"
    by cases (auto simp add: get_be32_def put_be32_def ucast_and_ff bit_simps)
qed

lemma put_get_be16: "length p = 2 \<Longrightarrow> put_be16 (get_be16 p) = p"
  unfolding list_length_2 put_be16_def get_be16_def
  by (auto simp: ucast_and_ff bit_simps intro!: bit_word_eqI dest: bit_imp_le_length)

lemma put_get_be32: "length p = 4 \<Longrightarrow> put_be32 (get_be32 p) = p"
  unfolding list_length_4 put_be32_def get_be32_def
  by (auto simp: ucast_and_ff bit_simps intro!: bit_word_eqI dest: bit_imp_le_length)

lemma put_be64_loop_acc: "put_be64_loop i v acc = put_be64_loop i v [] @ acc"
  by (induction i arbitrary: v acc) (simp, metis append.assoc append_Cons append_Nil put_be64_loop.simps(2))

lemma put_be64_loop_Suc:
  "put_be64_loop (Suc i) v [] = put_be64_loop i (drop_bit 8 v) [] @ [ucast v]"
  by (simp add: put_be64_loop_acc [of i _ "[_]"] ucast_and_ff)

lemma get_be64_loop_snoc:
  "get_be64_loop (bs @ [b]) v = push_bit 8 (get_be64_loop bs v) OR ucast b"
  by (induction bs arbitrary: v) simp_all

lemma length_put_be64_loop [simp]: "length (put_be64_loop i v acc) = i + length acc"
  by (induction i arbitrary: v acc) simp_all

lemma get_put_be64_loop: "get_be64_loop (put_be64_loop i v []) 0 = take_bit (8 * i) v"
proof (induction i arbitrary: v)
  case (Suc i)
  have "push_bit 8 (take_bit (8 * i) (drop_bit 8 v)) OR ucast (ucast v :: u8) = take_bit (8 * Suc i) v"
    by (rule bit_word_eqI) (auto simp: bit_simps dest: bit_imp_le_length)
  with Suc.IH show ?case
    by (simp only: put_be64_loop_Suc get_be64_loop_snoc)
qed simp

lemma get_be64_loop_small: "length bs \<le> 8 \<Longrightarrow> take_bit (8 * length bs) (get_be64_loop bs 0) = get_be64_loop bs 0"
proof (induction bs rule: rev_induct)
  case (snoc b bs)
  then have IH: "take_bit (8 * length bs) (get_be64_loop bs 0) = get_be64_loop bs 0" by simp
  have lt: "bit (get_be64_loop bs 0) n \<Longrightarrow> n < 8 * length bs" for n
    by (metis IH bit_take_bit_iff)
  have "bit (get_be64_loop (bs @ [b]) 0) n \<Longrightarrow> n < 8 * Suc (length bs)" for n
    by (auto simp: get_be64_loop_snoc bit_simps dest!: lt bit_u8_lt)
  then show ?case
    by (auto simp: bit_simps intro!: bit_word_eqI)
qed simp

lemma put_get_be64_loop: "length bs \<le> 8 \<Longrightarrow> put_be64_loop (length bs) (get_be64_loop bs 0) [] = bs"
proof (induction bs rule: rev_induct)
  case (snoc b bs)
  let ?w = "get_be64_loop bs 0"
  from snoc.prems have small: "take_bit (8 * length bs) ?w = ?w"
    by (simp add: get_be64_loop_small)
  have lt: "bit ?w n \<Longrightarrow> n < 8 * length bs" for n
    by (metis small bit_take_bit_iff)
  from snoc.prems have "8 * length bs \<le> 56" by simp
  with lt have lt56: "bit ?w n \<Longrightarrow> n < 56" for n by fastforce
  have "drop_bit 8 (push_bit 8 ?w OR ucast b) = ?w"
    by (rule bit_word_eqI) (use lt56 in \<open>fastforce simp: bit_simps dest: bit_imp_le_length\<close>)
  moreover have "ucast (push_bit 8 ?w OR ucast b) = b"
    by (rule bit_word_eqI) (auto simp: bit_simps dest: bit_imp_le_length)
  ultimately show ?case
    using snoc by (simp add: get_be64_loop_snoc put_be64_loop_Suc del: put_be64_loop.simps)
qed simp

lemma get_put_be64 [simp]: "get_be64 (put_be64 v @ r) = v"
proof -
  have "take_bit 64 v = v" by (rule bit_word_eqI) (auto simp: bit_simps)
  then show ?thesis
    using get_put_be64_loop [of 8 v] by (simp add: get_be64_def put_be64_def)
qed

lemma put_get_be64: "length p = 8 \<Longrightarrow> put_be64 (get_be64 p) = p"
  using put_get_be64_loop [of p] by (simp add: put_be64_def get_be64_def)

lemma get_put_be_nil [simp]:
  "get_be16 (put_be16 v2) = v2" "get_be32 (put_be32 v4) = v4" "get_be64 (put_be64 v8) = v8"
  using get_put_be16 [of v2 "[]"] get_put_be32 [of v4 "[]"] get_put_be64 [of v8 "[]"] by simp_all

section \<open>Signed conversions\<close>

lemma i64_of_u64_of_i64: "in_i64 i \<Longrightarrow> i64_of_u64 (u64_of_i64 i) = i"
  by (simp add: in_i64_def i64_of_u64_def u64_of_i64_def sint_sbintrunc' signed_take_bit_int_eq_self)

lemma u64_of_i64_of_u64 [simp]: "u64_of_i64 (i64_of_u64 v) = v"
  by (simp add: i64_of_u64_def u64_of_i64_def)

lemma in_i64_of_u64 [simp]: "in_i64 (i64_of_u64 v)"
  using sint_range_size [of v] by (simp add: in_i64_def i64_of_u64_def word_size)

lemma string_of_bytes_of_string [simp]: "string_of_bytes (bytes_of_string s) = s"
proof -
  have "unat (word_of_nat (of_char c) :: u8) = of_char c" for c
    using of_char_mod_256 [of c, where ?'a = nat] by (simp add: unsigned_of_nat take_bit_eq_mod)
  then show ?thesis by (simp add: string_of_bytes_def bytes_of_string_def comp_def)
qed

lemma bytes_of_string_of_bytes [simp]: "bytes_of_string (string_of_bytes b) = b"
proof -
  have "of_char (char_of (unat x) :: char) = unat x" for x :: u8
    using unsigned_less [of x, where ?'a = nat] by simp
  then show ?thesis by (simp add: string_of_bytes_def bytes_of_string_def comp_def)
qed

lemma length_string_of_bytes [simp]: "length (string_of_bytes b) = length b"
  by (simp add: string_of_bytes_def)

lemma length_bytes_of_string [simp]: "length (bytes_of_string s) = length s"
  by (simp add: bytes_of_string_def)

lemma int_of_size_small: "n < 2 ^ 31 \<Longrightarrow> int_of_size n = int n"
  using sint_sbintrunc' [where ?'a = 32, of "int n"]
  by (simp add: int_of_size_def signed_take_bit_int_eq_self)

text \<open>Division rounded up.\<close>

lemma le_div_iff: "0 < c \<Longrightarrow> a \<le> b div c \<longleftrightarrow> a * c \<le> b" for a b c :: int
  using pos_imp_zdiv_nonneg_iff [of c "b + (- a) * c"] div_mult_self1 [of c b "- a"] by simp

lemma ceil_div_less: "0 < c \<Longrightarrow> n < (x + c - 1) div c \<longleftrightarrow> n * c < x" for n x c :: int
  using le_div_iff [of c "n + 1" "x + c - 1"] by (auto simp: algebra_simps)

lemma ceil_div_eq:
  fixes n x c :: int
  assumes "0 < c" and "(n - 1) * c < x" and "x \<le> n * c"
  shows "(x + c - 1) div c = n"
  using ceil_div_less [OF assms(1), of "n - 1" x] ceil_div_less [OF assms(1), of n x] assms by linarith

end
