(* ===== verification/Tdx_Errors.thy ===== *)
theory Tdx_Errors
  imports Tdx_Prelude
begin

text \<open>
  The error values of the library: \<^verbatim>\<open>include/cpptcpduplex/errors.hpp\<close>,
  \<^verbatim>\<open>src/errors.cpp\<close> and the error category of \<^verbatim>\<open>include/cpptcpduplex/transfer/transfer.hpp\<close>.
  A \<open>std::error_code\<close> is a value in a category; two codes are equal when both agree, so the
  model has one constructor per category the program uses. \<open>NoError\<close> is the default-constructed
  code; \<open>ec_fails\<close> is its conversion to \<open>bool\<close>. The texts of the standard library's own
  categories are a parameter of \<open>ec_message\<close>.
\<close>

section \<open>Enumerations\<close>

datatype errc =
    errc_ok | errc_closed | errc_receive_disabled | errc_message_too_large
  | errc_inbound_dropped | errc_slow_consumer | errc_unsupported_protocol
  | errc_handshake_authentication | errc_peer_fingerprint_mismatch | errc_bad_handshake
  | errc_bad_frame | errc_canceled | errc_timed_out | errc_io_error | errc_other

datatype transfer_errc =
    terrc_ok | terrc_bad_frame | terrc_rejected | terrc_aborted | terrc_size_mismatch
  | terrc_hash_mismatch | terrc_resume_past_end | terrc_closed | terrc_too_many_retries
  | terrc_other

text \<open>\<open>static_cast<int>(e)\<close>.\<close>

fun errc_value :: "errc \<Rightarrow> int" where
  "errc_value errc_ok = 0"
| "errc_value errc_closed = 1"
| "errc_value errc_receive_disabled = 2"
| "errc_value errc_message_too_large = 3"
| "errc_value errc_inbound_dropped = 4"
| "errc_value errc_slow_consumer = 5"
| "errc_value errc_unsupported_protocol = 6"
| "errc_value errc_handshake_authentication = 7"
| "errc_value errc_peer_fingerprint_mismatch = 8"
| "errc_value errc_bad_handshake = 9"
| "errc_value errc_bad_frame = 10"
| "errc_value errc_canceled = 11"
| "errc_value errc_timed_out = 12"
| "errc_value errc_io_error = 13"
| "errc_value errc_other = 14"

fun transfer_errc_value :: "transfer_errc \<Rightarrow> int" where
  "transfer_errc_value terrc_ok = 0"
| "transfer_errc_value terrc_bad_frame = 1"
| "transfer_errc_value terrc_rejected = 2"
| "transfer_errc_value terrc_aborted = 3"
| "transfer_errc_value terrc_size_mismatch = 4"
| "transfer_errc_value terrc_hash_mismatch = 5"
| "transfer_errc_value terrc_resume_past_end = 6"
| "transfer_errc_value terrc_closed = 7"
| "transfer_errc_value terrc_too_many_retries = 8"
| "transfer_errc_value terrc_other = 9"

text \<open>The \<open>errno\<close> values the code tells apart; every other one is \<open>Errno n\<close>.\<close>

datatype errno = ETIMEDOUT | EAGAIN | EWOULDBLOCK | ECONNRESET | EPIPE | Errno nat

section \<open>Error codes\<close>

datatype error_code =
    NoError
  | DuplexEc errc
  | TransferEc transfer_errc
  | GenericEc errno

fun ec_fails :: "error_code \<Rightarrow> bool" where
  "ec_fails NoError = False"
| "ec_fails (DuplexEc e) = (errc_value e \<noteq> 0)"
| "ec_fails (TransferEc e) = (transfer_errc_value e \<noteq> 0)"
| "ec_fails (GenericEc (Errno n)) = (n \<noteq> 0)"
| "ec_fails (GenericEc e) = True"

text \<open>\<open>error_category::message\<close> of both categories.\<close>

definition error_category_message :: "int \<Rightarrow> string" where
  "error_category_message ev =
    (if ev = errc_value errc_ok then ''success''
     else if ev = errc_value errc_closed then ''connection closed''
     else if ev = errc_value errc_receive_disabled
       then ''Receive unavailable while OnMessage is configured''
     else if ev = errc_value errc_message_too_large then ''message exceeds MaxMessageBytes''
     else if ev = errc_value errc_inbound_dropped then ''inbound OnMessage buffer full''
     else if ev = errc_value errc_slow_consumer
       then ''disconnected due to slow OnMessage consumer''
     else if ev = errc_value errc_unsupported_protocol then ''unsupported protocol version''
     else if ev = errc_value errc_handshake_authentication
       then ''handshake authentication failed''
     else if ev = errc_value errc_peer_fingerprint_mismatch
       then ''peer public key fingerprint mismatch''
     else if ev = errc_value errc_bad_handshake then ''invalid handshake''
     else if ev = errc_value errc_bad_frame then ''invalid frame''
     else if ev = errc_value errc_canceled then ''operation canceled''
     else if ev = errc_value errc_timed_out then ''operation timed out''
     else if ev = errc_value errc_io_error then ''I/O error''
     else ''error'')"

definition transfer_category_message :: "int \<Rightarrow> string" where
  "transfer_category_message ev =
    (if ev = transfer_errc_value terrc_ok then ''success''
     else if ev = transfer_errc_value terrc_bad_frame then ''invalid frame''
     else if ev = transfer_errc_value terrc_rejected then ''offer rejected''
     else if ev = transfer_errc_value terrc_aborted then ''aborted by peer''
     else if ev = transfer_errc_value terrc_size_mismatch then ''size mismatch''
     else if ev = transfer_errc_value terrc_hash_mismatch then ''content hash mismatch''
     else if ev = transfer_errc_value terrc_resume_past_end then ''resume offset exceeds size''
     else if ev = transfer_errc_value terrc_closed then ''connection closed during transfer''
     else if ev = transfer_errc_value terrc_too_many_retries then ''exceeded MaxAttempts''
     else ''transfer error'')"

fun ec_message :: "(error_code \<Rightarrow> string) \<Rightarrow> error_code \<Rightarrow> string" where
  "ec_message std (DuplexEc e) = error_category_message (errc_value e)"
| "ec_message std (TransferEc e) = transfer_category_message (transfer_errc_value e)"
| "ec_message std e = std e"

section \<open>The exception type and the classifiers\<close>

record Error =
  error_what :: string
  error_op :: string
  error_code_of :: error_code

definition Error_of_code :: "(error_code \<Rightarrow> string) \<Rightarrow> string \<Rightarrow> error_code \<Rightarrow> Error" where
  "Error_of_code std op ec =
     \<lparr>error_what = ''cpptcpduplex '' @ op @ '': '' @ ec_message std ec, error_op = op, error_code_of = ec\<rparr>"

definition Error_of_message :: "string \<Rightarrow> string \<Rightarrow> errc \<Rightarrow> Error" where
  "Error_of_message op msg code =
     \<lparr>error_what = ''cpptcpduplex '' @ op @ '': '' @ msg, error_op = op, error_code_of = DuplexEc code\<rparr>"

text \<open>
  The comparison with \<open>std::errc::connection_reset\<close> and \<open>std::errc::broken_pipe\<close> is one with an
  error condition: a code of the generic category matches when its value is that \<open>errno\<close>, a code
  of the program's own categories never does.
\<close>

definition is_closed :: "error_code \<Rightarrow> bool" where
  "is_closed ec \<longleftrightarrow> ec = DuplexEc errc_closed \<or> ec = GenericEc ECONNRESET \<or> ec = GenericEc EPIPE"

definition is_eof :: "error_code \<Rightarrow> bool" where
  "is_eof ec \<longleftrightarrow> is_closed ec"

section \<open>Facts\<close>

lemma errc_value_inj: "errc_value a = errc_value b \<longleftrightarrow> a = b"
  by (cases a; cases b) simp_all

lemma transfer_errc_value_inj: "transfer_errc_value a = transfer_errc_value b \<longleftrightarrow> a = b"
  by (cases a; cases b) simp_all

lemma ec_fails_DuplexEc [ec_simps]: "ec_fails (DuplexEc e) \<longleftrightarrow> e \<noteq> errc_ok"
  using errc_value_inj [of e errc_ok] by simp

lemma ec_fails_TransferEc [ec_simps]: "ec_fails (TransferEc e) \<longleftrightarrow> e \<noteq> terrc_ok"
  using transfer_errc_value_inj [of e terrc_ok] by simp

lemma error_category_message_inj:
  assumes "error_category_message (errc_value a) = error_category_message (errc_value b)"
  shows "a = b"
  using assms by (cases a; cases b) (simp_all add: error_category_message_def)

lemma transfer_category_message_inj:
  assumes "transfer_category_message (transfer_errc_value a) =
           transfer_category_message (transfer_errc_value b)"
  shows "a = b"
  using assms by (cases a; cases b) (simp_all add: transfer_category_message_def)

lemma is_closed_fails: "is_closed ec \<Longrightarrow> ec_fails ec"
  by (auto simp: is_closed_def)

end
