(* ===== verification/Tdx_Protocol.thy ===== *)
theory Tdx_Protocol
  imports Tdx_Errors "HOL-Library.Sublist"
begin

text \<open>
  The wire protocol of \<^verbatim>\<open>src/protocol/protocol.cpp\<close>: the plaintext handshake message and the
  length-prefixed records, read and written through the virtual class \<open>ByteStream\<close>.
  The class is the record \<open>byte_stream\<close> of its two virtual functions over a stream state.
  The locales \<open>stream_writer\<close> and \<open>stream_reader\<close> state what a transport promises; the layout
  theorems are proved once inside them. The in-memory stream of the repository's unit test is
  the first provider; \<open>Tdx_Socket\<close> gives the TCP socket.
\<close>

section \<open>Constants and the stream interface\<close>

definition kMsgText :: u8 where "kMsgText = 1"

definition kMsgPing :: u8 where "kMsgPing = 2"

definition kMsgPong :: u8 where "kMsgPong = 3"

definition kMsgClose :: u8 where "kMsgClose = 4"

definition kCurrentProtocolVersion :: u16 where "kCurrentProtocolVersion = 1"

definition kX25519PubKeyLen :: nat where "kX25519PubKeyLen = 32"

definition kMaxRecordPayload :: u32 where "kMaxRecordPayload = push_bit 20 1"

text \<open>\<open>{'T', 'D', 'X', '1'}\<close>.\<close>

definition kMagic :: bytes where "kMagic = [0x54, 0x44, 0x58, 0x31]"

text \<open>
  \<open>read_exact(buf)\<close> with a buffer of \<open>n\<close> bytes returns the filled buffer or the error;
  \<open>write_all(buf)\<close> returns the error code.
\<close>

record 's byte_stream =
  read_exact :: "nat \<Rightarrow> 's \<Rightarrow> (error_code + bytes) \<times> 's"
  write_all :: "bytes \<Rightarrow> 's \<Rightarrow> error_code \<times> 's"

section \<open>Handshake message\<close>

definition supports_version :: "u16 \<Rightarrow> bool" where
  "supports_version v \<longleftrightarrow> v = 1"

definition write_handshake ::
  "'s byte_stream \<Rightarrow> u16 \<Rightarrow> bytes \<Rightarrow> 's \<Rightarrow> error_code \<times> 's" where
  "write_handshake rw negotiated_version pub_key s =
    (if \<not> supports_version negotiated_version then (DuplexEc errc_unsupported_protocol, s)
     else if length pub_key \<noteq> kX25519PubKeyLen then (DuplexEc errc_bad_handshake, s)
     else
       let hdr = kMagic @ put_be16 negotiated_version;
           (ec, s1) = write_all rw hdr s
       in if ec_fails ec then (ec, s1) else write_all rw pub_key s1)"

definition read_handshake ::
  "'s byte_stream \<Rightarrow> 's \<Rightarrow> (error_code + u16 \<times> bytes) \<times> 's" where
  "read_handshake rw s =
    (case read_exact rw 4 s of
       (Inl ec, s1) \<Rightarrow> (Inl ec, s1)
     | (Inr magic, s1) \<Rightarrow>
         if magic \<noteq> kMagic then (Inl (DuplexEc errc_bad_handshake), s1)
         else (case read_exact rw 2 s1 of
             (Inl ec, s2) \<Rightarrow> (Inl ec, s2)
           | (Inr ver, s2) \<Rightarrow>
               let protocol_version = get_be16 ver in
               if \<not> supports_version protocol_version
               then (Inl (DuplexEc errc_unsupported_protocol), s2)
               else (case read_exact rw kX25519PubKeyLen s2 of
                   (Inl ec, s3) \<Rightarrow> (Inl ec, s3)
                 | (Inr pub_key, s3) \<Rightarrow> (Inr (protocol_version, pub_key), s3))))"

section \<open>Records\<close>

definition read_record :: "'s byte_stream \<Rightarrow> 's \<Rightarrow> (error_code + u8 \<times> bytes) \<times> 's" where
  "read_record rw s =
    (case read_exact rw 4 s of
       (Inl ec, s1) \<Rightarrow> (Inl ec, s1)
     | (Inr len_buf, s1) \<Rightarrow>
         let n = get_be32 len_buf in
         if n = 0 \<or> n > kMaxRecordPayload then (Inl (DuplexEc errc_bad_frame), s1)
         else (case read_exact rw (unat n) s1 of
             (Inl ec, s2) \<Rightarrow> (Inl ec, s2)
           | (Inr payload, s2) \<Rightarrow> (Inr (payload ! 0, drop 1 payload), s2)))"

definition write_record :: "'s byte_stream \<Rightarrow> u8 \<Rightarrow> bytes \<Rightarrow> 's \<Rightarrow> error_code \<times> 's" where
  "write_record rw msg_type sealed s =
    (if length sealed > unat (kMaxRecordPayload - 1) then (DuplexEc errc_bad_frame, s)
     else
       let n = (word_of_nat (1 + length sealed) :: u32);
           (ec, s1) = write_all rw (put_be32 n) s
       in if ec_fails ec then (ec, s1)
          else (let (ec, s2) = write_all rw [msg_type] s1
                in if ec_fails ec then (ec, s2) else write_all rw sealed s2))"

section \<open>The unit test's in-memory stream\<close>

record mem_stream =
  mem_buf :: bytes
  mem_read_pos :: nat

definition MemStream_read_exact :: "nat \<Rightarrow> mem_stream \<Rightarrow> (error_code + bytes) \<times> mem_stream" where
  "MemStream_read_exact n m =
    (if mem_read_pos m + n > length (mem_buf m) then (Inl (DuplexEc errc_closed), m)
     else (Inr (take n (drop (mem_read_pos m) (mem_buf m))), m\<lparr>mem_read_pos := mem_read_pos m + n\<rparr>))"

definition MemStream_write_all :: "bytes \<Rightarrow> mem_stream \<Rightarrow> error_code \<times> mem_stream" where
  "MemStream_write_all b m = (NoError, m\<lparr>mem_buf := mem_buf m @ b\<rparr>)"

definition MemStream :: "mem_stream byte_stream" where
  "MemStream = \<lparr>read_exact = MemStream_read_exact, write_all = MemStream_write_all\<rparr>"

section \<open>The layout as a specification\<close>

text \<open>The bytes the protocol puts on the wire, and which records it can carry.\<close>

definition handshake_bytes :: "u16 \<Rightarrow> bytes \<Rightarrow> bytes" where
  "handshake_bytes v pub = kMagic @ put_be16 v @ pub"

definition record_bytes :: "u8 \<Rightarrow> bytes \<Rightarrow> bytes" where
  "record_bytes t sealed = put_be32 (word_of_nat (1 + length sealed)) @ [t] @ sealed"

definition record_fits :: "bytes \<Rightarrow> bool" where
  "record_fits sealed \<longleftrightarrow> length sealed < 2 ^ 20"

lemma kMaxRecordPayload_unat [simp]: "unat kMaxRecordPayload = 1048576"
  by (simp add: kMaxRecordPayload_def push_bit_eq_mult)

lemma kMaxRecordPayload_minus_1 [simp]: "unat (kMaxRecordPayload - 1) = 1048575"
  by (simp add: kMaxRecordPayload_def push_bit_eq_mult)

lemma length_kMagic [simp]: "length kMagic = 4"
  by (simp add: kMagic_def)

lemma record_len_unat:
  "record_fits sealed \<Longrightarrow> unat (word_of_nat (1 + length sealed) :: u32) = 1 + length sealed"
  by (simp add: record_fits_def unsigned_of_nat take_bit_nat_eq_self del: of_nat_add of_nat_Suc)

lemma record_fits_iff: "record_fits sealed \<longleftrightarrow> \<not> length sealed > unat (kMaxRecordPayload - 1)"
  by (auto simp: record_fits_def)

lemma record_len_ok:
  assumes "record_fits sealed"
  defines "n \<equiv> word_of_nat (1 + length sealed) :: u32"
  shows "n \<noteq> 0 \<and> \<not> n > kMaxRecordPayload"
  using record_len_unat [OF assms(1)] assms(1)
  by (auto simp: n_def record_fits_def word_less_nat_alt unat_eq_zero)

lemma record_len_inv:
  assumes "n \<noteq> (0 :: u32)" and "\<not> n > kMaxRecordPayload"
    and "length payload = unat n"
  shows "record_fits (drop 1 payload) \<and> record_bytes (payload ! 0) (drop 1 payload) = put_be32 n @ payload"
proof -
  have "unat n \<noteq> 0" and le: "unat n \<le> 1048576"
    using assms(1,2) by (auto simp: unat_eq_zero word_less_nat_alt)
  then obtain t r where p: "payload = t # r"
    using assms(3) by (cases payload) auto
  have "word_of_nat (1 + length r) = n"
    using assms(3) p by simp
  with p le assms(3) show ?thesis
    by (simp add: record_bytes_def record_fits_def)
qed

text \<open>The framing is uniquely decodable.\<close>

lemma record_bytes_inj:
  assumes "record_bytes t x @ r = record_bytes t' x' @ r'" and "record_fits x" and "record_fits x'"
  shows "t = t' \<and> x = x' \<and> r = r'"
proof -
  let ?n = "word_of_nat (1 + length x) :: u32" and ?n' = "word_of_nat (1 + length x') :: u32"
  have "put_be32 ?n @ ([t] @ x @ r) = put_be32 ?n' @ ([t'] @ x' @ r')"
    using assms(1) unfolding record_bytes_def by (simp only: append_assoc)
  then have "put_be32 ?n = put_be32 ?n'"
    using append_eq_split length_put_be32 by metis
  then have "?n = ?n'"
    using get_put_be32 [of _ "[]"] by metis
  then have "length x = length x'"
    using record_len_unat [OF assms(2)] record_len_unat [OF assms(3)] by (metis add_left_cancel)
  with assms(1) show ?thesis by (simp add: record_bytes_def)
qed

lemma handshake_bytes_inj:
  assumes "handshake_bytes v pub @ r = handshake_bytes v' pub' @ r'" and "length pub = length pub'"
  shows "v = v' \<and> pub = pub' \<and> r = r'"
proof -
  from assms have "put_be16 v = put_be16 v'" and "pub = pub' \<and> r = r'"
    by (auto simp: handshake_bytes_def)
  then show ?thesis using get_put_be16 [of _ "[]"] by metis
qed

section \<open>What a transport promises\<close>

text \<open>
  \<open>out s\<close> is everything written so far. A successful \<open>write_all\<close> appends the whole buffer, a
  failing one some prefix of it.
\<close>

locale stream_writer =
  fixes rw :: "'s byte_stream" and out :: "'s \<Rightarrow> bytes"
  assumes write_ok: "write_all rw b s = (ec, s') \<Longrightarrow> \<not> ec_fails ec \<Longrightarrow> out s' = out s @ b"
    and write_prefix:
      "write_all rw b s = (ec, s') \<Longrightarrow> prefix (out s) (out s') \<and> prefix (out s') (out s @ b)"
begin

lemma write_record_ok:
  assumes "write_record rw t x s = (ec, s')" and "\<not> ec_fails ec"
  shows "record_fits x \<and> out s' = out s @ record_bytes t x"
  using assms unfolding write_record_def record_fits_iff record_bytes_def
  by (auto split: if_splits prod.splits dest!: write_ok)

lemma write_record_prefix:
  assumes "write_record rw t x s = (ec, s')"
  shows "prefix (out s) (out s') \<and> prefix (out s') (out s @ record_bytes t x)"
proof (cases "record_fits x")
  case False
  with assms show ?thesis by (auto simp: write_record_def record_fits_iff)
next
  case True
  obtain e1 s1 where w1: "write_all rw (put_be32 (word_of_nat (1 + length x))) s = (e1, s1)"
    by fastforce
  obtain e2 s2 where w2: "write_all rw [t] s1 = (e2, s2)"
    by fastforce
  obtain e3 s3 where w3: "write_all rw x s2 = (e3, s3)"
    by fastforce
  have "s' = s1 \<or> (\<not> ec_fails e1 \<and> (s' = s2 \<or> (\<not> ec_fails e2 \<and> s' = s3)))"
    using assms True w1 w2 w3 unfolding write_record_def record_fits_iff
    by (auto split: if_splits)
  then show ?thesis
    using write_prefix [OF w1] write_prefix [OF w2] write_prefix [OF w3]
      write_ok [OF w1] write_ok [OF w2]
    by (auto simp: record_bytes_def intro: prefix_order.trans prefix_prefix)
qed

lemma write_handshake_ok:
  assumes "write_handshake rw v pub s = (ec, s')" and "\<not> ec_fails ec"
  shows "supports_version v \<and> length pub = kX25519PubKeyLen \<and> out s' = out s @ handshake_bytes v pub"
  using assms unfolding write_handshake_def handshake_bytes_def
  by (auto split: if_splits prod.splits dest!: write_ok)

end

text \<open>
  \<open>inp s\<close> is what the peer has put on the wire and \<open>read_exact\<close> has not taken yet. A successful
  read takes exactly the bytes asked for off its front.
\<close>

locale stream_reader =
  fixes rw :: "'s byte_stream" and inp :: "'s \<Rightarrow> bytes"
  assumes read_ok: "read_exact rw n s = (Inr b, s') \<Longrightarrow> length b = n \<and> inp s = b @ inp s'"
    and read_err: "read_exact rw n s = (Inl ec, s') \<Longrightarrow> ec_fails ec"
begin

lemma read_record_ok:
  assumes "read_record rw s = (Inr (t, x), s')"
  shows "record_fits x \<and> inp s = record_bytes t x @ inp s'"
proof -
  obtain len_buf s1 payload where
      r1: "read_exact rw 4 s = (Inr len_buf, s1)"
    and n: "get_be32 len_buf \<noteq> 0" "\<not> get_be32 len_buf > kMaxRecordPayload"
    and r2: "read_exact rw (unat (get_be32 len_buf)) s1 = (Inr payload, s')"
    and tx: "t = payload ! 0" "x = drop 1 payload"
    using assms unfolding read_record_def
    by (auto simp: Let_def split: prod.splits sum.splits if_splits)
  have "put_be32 (get_be32 len_buf) = len_buf"
    using read_ok [OF r1] by (simp add: put_get_be32)
  with read_ok [OF r1] read_ok [OF r2] record_len_inv [OF n, of payload] tx
  show ?thesis by simp
qed

lemma read_record_err: "read_record rw s = (Inl ec, s') \<Longrightarrow> ec_fails ec"
  unfolding read_record_def
  by (auto simp: Let_def split: prod.splits sum.splits if_splits dest: read_err)

lemma read_handshake_ok:
  assumes "read_handshake rw s = (Inr (v, pub), s')"
  shows "supports_version v \<and> length pub = kX25519PubKeyLen \<and> inp s = handshake_bytes v pub @ inp s'"
  using assms unfolding read_handshake_def handshake_bytes_def
  by (auto simp: Let_def put_get_be16 split: prod.splits sum.splits if_splits dest!: read_ok)

lemma read_handshake_err: "read_handshake rw s = (Inl ec, s') \<Longrightarrow> ec_fails ec"
  unfolding read_handshake_def
  by (auto simp: Let_def split: prod.splits sum.splits if_splits dest: read_err)

end

text \<open>A reliable transport also returns whatever has already arrived.\<close>

locale reliable_reader = stream_reader +
  assumes read_avail: "0 < n \<Longrightarrow> n \<le> length (inp s) \<Longrightarrow> \<exists>b s'. read_exact rw n s = (Inr b, s')"
begin

lemma read_front:
  assumes "inp s = b @ r" and "0 < length b"
  shows "\<exists>s'. read_exact rw (length b) s = (Inr b, s') \<and> inp s' = r"
  using assms read_avail [of "length b" s] read_ok [of "length b" s] by fastforce

lemma read_record_complete:
  assumes "inp s = record_bytes t x @ r" and "record_fits x"
  shows "\<exists>s'. read_record rw s = (Inr (t, x), s') \<and> inp s' = r"
proof -
  let ?n = "word_of_nat (1 + length x) :: u32"
  obtain s1 where r1: "read_exact rw 4 s = (Inr (put_be32 ?n), s1)" and i1: "inp s1 = (t # x) @ r"
    using read_front [of s "put_be32 ?n"] assms(1) by (auto simp: record_bytes_def)
  obtain s2 where r2: "read_exact rw (unat ?n) s1 = (Inr (t # x), s2)" and i2: "inp s2 = r"
    using read_front [of s1 "t # x", OF i1] record_len_unat [OF assms(2)] by auto
  from r1 r2 i2 show ?thesis
    using record_len_ok [OF assms(2)] get_put_be32 [of ?n "[]"]
    unfolding read_record_def by (auto simp: Let_def simp del: of_nat_add of_nat_Suc)
qed

lemma read_handshake_complete:
  assumes "inp s = handshake_bytes v pub @ r" and "supports_version v"
    and "length pub = kX25519PubKeyLen"
  shows "\<exists>s'. read_handshake rw s = (Inr (v, pub), s') \<and> inp s' = r"
proof -
  obtain s1 where r1: "read_exact rw 4 s = (Inr kMagic, s1)" and i1: "inp s1 = put_be16 v @ pub @ r"
    using read_front [of s kMagic] assms(1) by (auto simp: handshake_bytes_def)
  obtain s2 where r2: "read_exact rw 2 s1 = (Inr (put_be16 v), s2)" and i2: "inp s2 = pub @ r"
    using read_front [OF i1] by auto
  obtain s3 where r3: "read_exact rw kX25519PubKeyLen s2 = (Inr pub, s3)" and i3: "inp s3 = r"
    using read_front [OF i2] assms(3) by (auto simp: kX25519PubKeyLen_def)
  from r1 r2 r3 i3 show ?thesis
    using assms(2) get_put_be16 [of v "[]"]
    unfolding read_handshake_def by (simp add: Let_def)
qed

end

text \<open>A full-duplex transport: the two directions do not disturb each other.\<close>

locale duplex_stream = stream_writer rw out + stream_reader rw inp
  for rw :: "'s byte_stream" and out inp :: "'s \<Rightarrow> bytes" +
  assumes write_keeps_inp: "write_all rw b s = (ec, s') \<Longrightarrow> inp s' = inp s"
    and read_keeps_out: "read_exact rw n s = (r, s') \<Longrightarrow> out s' = out s"
begin

lemma write_record_keeps_inp: "write_record rw t x s = (ec, s') \<Longrightarrow> inp s' = inp s"
  unfolding write_record_def
  by (auto simp: Let_def split: if_splits prod.splits dest!: write_keeps_inp)

lemma read_record_keeps_out: "read_record rw s = (r, s') \<Longrightarrow> out s' = out s"
  unfolding read_record_def
  by (auto simp: Let_def split: prod.splits sum.splits if_splits dest!: read_keeps_out)

lemma write_handshake_keeps_inp: "write_handshake rw v pub s = (ec, s') \<Longrightarrow> inp s' = inp s"
  unfolding write_handshake_def
  by (auto simp: Let_def split: if_splits prod.splits dest!: write_keeps_inp)

lemma read_handshake_keeps_out: "read_handshake rw s = (r, s') \<Longrightarrow> out s' = out s"
  unfolding read_handshake_def
  by (auto simp: Let_def split: prod.splits sum.splits if_splits dest!: read_keeps_out)

end

interpretation mem: stream_writer MemStream mem_buf
  by unfold_locales (auto simp: MemStream_def MemStream_write_all_def)

interpretation mem: reliable_reader MemStream "\<lambda>m. drop (mem_read_pos m) (mem_buf m)"
proof unfold_locales
  fix n s b s'
  assume "read_exact MemStream n s = (Inr b, s')"
  then show "length b = n \<and> drop (mem_read_pos s) (mem_buf s) = b @ drop (mem_read_pos s') (mem_buf s')"
    by (auto simp: MemStream_def MemStream_read_exact_def add.commute simp flip: drop_drop split: if_splits)
qed (auto simp: MemStream_def MemStream_read_exact_def split: if_splits)

end
