(* ===== verification/Tdx_Session.thy ===== *)
theory Tdx_Session
  imports Tdx_Protocol
begin

text \<open>
  The AES-256-GCM session of \<^verbatim>\<open>src/crypto/session.cpp\<close>. The vendored cryptography (mbedTLS's
  SHA-256, GCM and CTR-DRBG, Monocypher's X25519) is the parameter record \<open>crypto_lib\<close>, over a
  hash context \<open>'h\<close> and a random generator state \<open>'r\<close>; the locale \<open>crypto_api\<close> states the
  documented behaviour the code relies on. \<open>sealed_channel\<close> is what a session promises to the
  connection that uses it.
\<close>

section \<open>Vendored cryptography as a parameter\<close>

text \<open>A non-zero return code of a call is \<open>None\<close> or \<open>False\<close>.\<close>

record ('h, 'r) crypto_lib =
  mbedtls_sha256 :: "bytes \<Rightarrow> bytes"
  sha256_starts :: 'h
  sha256_update :: "bytes \<Rightarrow> 'h \<Rightarrow> 'h"
  sha256_finish :: "'h \<Rightarrow> bytes"
  gcm_setkey :: "bytes \<Rightarrow> nat \<Rightarrow> bool"
  gcm_crypt_and_tag :: "bytes \<Rightarrow> bytes \<Rightarrow> bytes \<Rightarrow> (bytes \<times> bytes) option"
  gcm_auth_decrypt :: "bytes \<Rightarrow> bytes \<Rightarrow> bytes \<Rightarrow> bytes \<Rightarrow> bytes option"
  ctr_drbg_seed :: "string \<Rightarrow> 'r \<Rightarrow> bool \<times> 'r"
  ctr_drbg_random :: "nat \<Rightarrow> 'r \<Rightarrow> bytes option \<times> 'r"
  crypto_x25519_public_key :: "bytes \<Rightarrow> bytes"
  crypto_x25519 :: "bytes \<Rightarrow> bytes \<Rightarrow> bytes"

definition kNonceSize :: nat where "kNonceSize = 12"

definition kTagSize :: nat where "kTagSize = 16"

section \<open>Random bytes\<close>

text \<open>The function-local statics: whether the generator is seeded, and its state.\<close>

record 'r seal_rng =
  rng_inited :: bool
  rng_state :: 'r

definition random_bytes ::
  "('h, 'r) crypto_lib \<Rightarrow> nat \<Rightarrow> 'r seal_rng \<Rightarrow> (error_code + bytes) \<times> 'r seal_rng" where
  "random_bytes lib n g =
    (let (seeded, st) =
           (if \<not> rng_inited g then ctr_drbg_seed lib ''cpptcpduplex-seal'' (rng_state g)
            else (True, rng_state g))
     in if \<not> seeded then (Inl (DuplexEc errc_io_error), g\<lparr>rng_state := st\<rparr>)
        else
          let g = g\<lparr>rng_inited := True, rng_state := st\<rparr>;
              (out, st) = ctr_drbg_random lib n (rng_state g)
          in (case out of None \<Rightarrow> Inl (DuplexEc errc_io_error) | Some b \<Rightarrow> Inr b, g\<lparr>rng_state := st\<rparr>))"

section \<open>Key derivation\<close>

definition derive_session_key :: "('h, 'r) crypto_lib \<Rightarrow> bytes \<Rightarrow> bytes \<Rightarrow> bytes" where
  "derive_session_key lib shared_secret psk =
    (if psk = [] then mbedtls_sha256 lib shared_secret
     else
       let ctx = sha256_starts lib;
           ctx = sha256_update lib shared_secret ctx;
           ctx = sha256_update lib [0] ctx;
           lb = put_be32 (word_of_nat (length psk));
           ctx = sha256_update lib lb ctx;
           ctx = sha256_update lib psk ctx
       in sha256_finish lib ctx)"

section \<open>Session\<close>

record session =
  session_key :: bytes

definition Session_valid :: "session \<Rightarrow> bool" where
  "Session_valid sess \<longleftrightarrow> session_key sess \<noteq> []"

definition Session_create :: "('h, 'r) crypto_lib \<Rightarrow> bytes \<Rightarrow> bytes \<Rightarrow> error_code + session" where
  "Session_create lib shared_secret psk =
     Inr \<lparr>session_key = derive_session_key lib shared_secret psk\<rparr>"

definition Session_seal ::
  "('h, 'r) crypto_lib \<Rightarrow> session \<Rightarrow> bytes \<Rightarrow> 'r seal_rng \<Rightarrow> (error_code + bytes) \<times> 'r seal_rng" where
  "Session_seal lib sess plaintext g =
    (let max_seal = unat (kMaxRecordPayload - 1) in
     if kNonceSize + kTagSize + length plaintext > max_seal then (Inl (DuplexEc errc_bad_frame), g)
     else (case random_bytes lib kNonceSize g of
         (Inl ec, g) \<Rightarrow> (Inl ec, g)
       | (Inr nonce, g) \<Rightarrow>
           if \<not> gcm_setkey lib (session_key sess) (length (session_key sess) * 8)
           then (Inl (DuplexEc errc_other), g)
           else (case gcm_crypt_and_tag lib (session_key sess) nonce plaintext of
               None \<Rightarrow> (Inl (DuplexEc errc_other), g)
             | Some (ct, tag) \<Rightarrow> (Inr (nonce @ ct @ tag), g))))"

definition Session_open :: "('h, 'r) crypto_lib \<Rightarrow> session \<Rightarrow> bytes \<Rightarrow> error_code + bytes" where
  "Session_open lib sess sealed =
    (if length sealed < kNonceSize + kTagSize then Inl (DuplexEc errc_bad_frame)
     else
       let nonce = take kNonceSize sealed;
           ct_len = length sealed - kNonceSize - kTagSize;
           ct = take ct_len (drop kNonceSize sealed);
           tag = take kTagSize (drop (kNonceSize + ct_len) sealed)
       in if \<not> gcm_setkey lib (session_key sess) (length (session_key sess) * 8)
          then Inl (DuplexEc errc_other)
          else (case gcm_auth_decrypt lib (session_key sess) nonce ct tag of
              None \<Rightarrow> Inl (DuplexEc errc_bad_frame)
            | Some pt \<Rightarrow> Inr pt))"

section \<open>The key derivation as a specification\<close>

text \<open>What is hashed: the shared secret alone, or with a separator, the length and the PSK.\<close>

definition kdf_input :: "bytes \<Rightarrow> bytes \<Rightarrow> bytes" where
  "kdf_input shared psk =
     (if psk = [] then shared else shared @ [0] @ put_be32 (word_of_nat (length psk)) @ psk)"

lemma kdf_input_inj:
  assumes "kdf_input shared psk = kdf_input shared' psk'" and "length shared = length shared'"
  shows "shared = shared' \<and> psk = psk'"
  using assms by (auto simp: kdf_input_def split: if_splits)

section \<open>What the code relies on\<close>

text \<open>
  Streaming SHA-256 hashes the concatenation of its updates (an empty one changes nothing) and
  yields 32 bytes; GCM accepts
  256-bit keys, keeps the length, uses a 16-byte tag, decrypts exactly what it encrypted; the
  generator fills the buffer; X25519 commutes on public keys.
\<close>

locale crypto_api =
  fixes lib :: "('h, 'r) crypto_lib"
  assumes sha_stream: "sha256_update lib b (sha256_update lib a c) = sha256_update lib (a @ b) c"
    and sha_nil: "sha256_update lib [] c = c"
    and sha_oneshot: "mbedtls_sha256 lib m = sha256_finish lib (sha256_update lib m (sha256_starts lib))"
    and sha_len: "length (sha256_finish lib c) = 32"
    and setkey_256: "length key = 32 \<Longrightarrow> gcm_setkey lib key 256"
    and crypt_total: "length key = 32 \<Longrightarrow> length nonce = 12 \<Longrightarrow>
           \<exists>ct tag. gcm_crypt_and_tag lib key nonce pt = Some (ct, tag)"
    and crypt_len: "gcm_crypt_and_tag lib key nonce pt = Some (ct, tag) \<Longrightarrow>
           length ct = length pt \<and> length tag = 16"
    and decrypt_crypt: "gcm_crypt_and_tag lib key nonce pt = Some (ct, tag) \<Longrightarrow>
           gcm_auth_decrypt lib key nonce ct tag = Some pt"
    and crypt_decrypt: "gcm_auth_decrypt lib key nonce ct tag = Some pt \<Longrightarrow> length tag = 16 \<Longrightarrow>
           gcm_crypt_and_tag lib key nonce pt = Some (ct, tag)"
    and random_len: "ctr_drbg_random lib n r = (Some b, r') \<Longrightarrow> length b = n"
    and x25519_len: "length (crypto_x25519_public_key lib a) = 32"
    and x25519_commutes: "crypto_x25519 lib a (crypto_x25519_public_key lib b) =
           crypto_x25519 lib b (crypto_x25519_public_key lib a)"
    and x25519_shared_len: "length (crypto_x25519 lib a q) = 32"
begin

lemma random_bytes_len: "random_bytes lib n g = (Inr b, g') \<Longrightarrow> length b = n"
  by (auto simp: random_bytes_def Let_def split: prod.splits if_splits option.splits dest: random_len)

lemma random_bytes_err: "random_bytes lib n g = (Inl ec, g') \<Longrightarrow> ec = DuplexEc errc_io_error"
  by (auto simp: random_bytes_def Let_def split: prod.splits if_splits option.splits)

lemma seal_cases:
  assumes "Session_seal lib sess pt g = (Inr sealed, g')"
  obtains nonce ct tag where "sealed = nonce @ ct @ tag" and "length nonce = kNonceSize"
    and "gcm_crypt_and_tag lib (session_key sess) nonce pt = Some (ct, tag)"
    and "gcm_setkey lib (session_key sess) (length (session_key sess) * 8)"
    and "kNonceSize + kTagSize + length pt \<le> unat (kMaxRecordPayload - 1)"
  using assms
  by (auto simp: Session_seal_def Let_def split: if_splits sum.splits prod.splits option.splits
      dest: random_bytes_len)

lemma seal_length:
  assumes "Session_seal lib sess pt g = (Inr sealed, g')"
  shows "length sealed = kNonceSize + length pt + kTagSize \<and> record_fits sealed"
  using assms
  by (rule seal_cases) (auto simp: kNonceSize_def kTagSize_def record_fits_def dest: crypt_len)

lemma open_seal:
  assumes "Session_seal lib sess pt g = (Inr sealed, g')"
  shows "Session_open lib sess sealed = Inr pt"
  using assms
proof (rule seal_cases)
  fix nonce ct tag
  assume s: "sealed = nonce @ ct @ tag" "length nonce = kNonceSize"
    and c: "gcm_crypt_and_tag lib (session_key sess) nonce pt = Some (ct, tag)"
    and k: "gcm_setkey lib (session_key sess) (length (session_key sess) * 8)"
  from crypt_len [OF c] have "length tag = kTagSize" by (simp add: kTagSize_def)
  with s k decrypt_crypt [OF c] show ?thesis
    by (simp add: Session_open_def Let_def)
qed

lemma open_canonical:
  assumes "Session_open lib sess sealed = Inr pt"
  shows "\<exists>nonce ct tag. sealed = nonce @ ct @ tag \<and> length nonce = kNonceSize \<and>
           gcm_crypt_and_tag lib (session_key sess) nonce pt = Some (ct, tag)"
proof -
  define n where "n = length sealed - kNonceSize - kTagSize"
  let ?nonce = "take kNonceSize sealed" and ?ct = "take n (drop kNonceSize sealed)"
  let ?tag = "take kTagSize (drop (kNonceSize + n) sealed)"
  have len: "kNonceSize + kTagSize \<le> length sealed"
    and dec: "gcm_auth_decrypt lib (session_key sess) ?nonce ?ct ?tag = Some pt"
    using assms unfolding n_def by (auto simp: Session_open_def Let_def split: if_splits option.splits)
  from len have tag: "?tag = drop (kNonceSize + n) sealed" "length ?tag = 16"
    by (auto simp: n_def kTagSize_def)
  have "?nonce @ ?ct @ drop (kNonceSize + n) sealed = sealed"
    by (metis append_take_drop_id drop_drop add.commute)
  with len crypt_decrypt [OF dec tag(2)] tag(1) show ?thesis
    by (intro exI [of _ ?nonce] exI [of _ ?ct] exI [of _ ?tag]) simp
qed

lemma seal_opened:
  assumes "Session_open lib sess x = Inr pt" and "length x < 2 ^ 20"
    and "random_bytes lib kNonceSize g = (Inr (take kNonceSize x), g')"
  shows "Session_seal lib sess pt g = (Inr x, g')"
proof -
  obtain nonce ct tag where x: "x = nonce @ ct @ tag" "length nonce = kNonceSize"
    and c: "gcm_crypt_and_tag lib (session_key sess) nonce pt = Some (ct, tag)"
    using open_canonical [OF assms(1)] by blast
  have "gcm_setkey lib (session_key sess) (length (session_key sess) * 8)"
    using assms(1) by (auto simp: Session_open_def Let_def split: if_splits)
  with x c crypt_len [OF c] assms(2,3) show ?thesis
    by (simp add: Session_seal_def Let_def kTagSize_def)
qed

lemma seal_total:
  assumes "length (session_key sess) = 32" and "kNonceSize + kTagSize + length pt \<le> 1048575"
    and "random_bytes lib kNonceSize g = (Inr nonce, g')"
  shows "\<exists>ct tag. gcm_crypt_and_tag lib (session_key sess) nonce pt = Some (ct, tag) \<and>
    Session_seal lib sess pt g = (Inr (nonce @ ct @ tag), g')"
proof -
  obtain ct tag where "gcm_crypt_and_tag lib (session_key sess) nonce pt = Some (ct, tag)"
    using crypt_total [OF assms(1), of nonce pt] random_bytes_len [OF assms(3)]
    by (auto simp: kNonceSize_def)
  with assms setkey_256 [OF assms(1)] show ?thesis
    by (simp add: Session_seal_def Let_def)
qed

lemma derive_session_key_eq: "derive_session_key lib shared psk = mbedtls_sha256 lib (kdf_input shared psk)"
  by (simp add: derive_session_key_def kdf_input_def Let_def sha_stream sha_oneshot)

lemma key_len: "length (derive_session_key lib shared psk) = 32"
  by (simp add: derive_session_key_def Let_def sha_len sha_oneshot)

end

section \<open>What a session promises\<close>

text \<open>
  A connection seals with one end's session and opens with the other's: an opened blob is the
  plaintext, and a sealed blob always fits into a record.
\<close>

locale sealed_channel =
  fixes seal_op :: "bytes \<Rightarrow> 'g \<Rightarrow> (error_code + bytes) \<times> 'g"
    and open_op :: "bytes \<Rightarrow> error_code + bytes"
  assumes open_sealed: "seal_op pt g = (Inr sealed, g') \<Longrightarrow> open_op sealed = Inr pt"
    and sealed_fits: "seal_op pt g = (Inr sealed, g') \<Longrightarrow> record_fits sealed"
begin

lemma seal_injective:
  assumes "seal_op pt g = (Inr sealed, g')" and "seal_op pt' h = (Inr sealed, h')"
  shows "pt = pt'"
  using open_sealed [OF assms(1)] open_sealed [OF assms(2)] by simp

text \<open>Sealing and writing a record, then reading and opening it, over any two transports.\<close>

lemma record_opens:
  assumes "stream_writer rw out" and "stream_reader rw' inp"
    and "seal_op pt g = (Inr sealed, g')"
    and "write_record rw t sealed s = (ec, s1)" and "\<not> ec_fails ec"
    and "out s1 @ r = out s @ inp s'"
    and "read_record rw' s' = (Inr (t', x'), s1')"
  shows "t' = t \<and> open_op x' = Inr pt \<and> inp s1' = r"
proof -
  have "out s1 = out s @ record_bytes t sealed"
    using stream_writer.write_record_ok [OF assms(1,4,5)] by simp
  moreover have x': "record_fits x'" "inp s' = record_bytes t' x' @ inp s1'"
    using stream_reader.read_record_ok [OF assms(2,7)] by auto
  ultimately have "record_bytes t sealed @ r = record_bytes t' x' @ inp s1'"
    using assms(6) by simp
  from record_bytes_inj [OF this sealed_fits [OF assms(3)] x'(1)] open_sealed [OF assms(3)]
  show ?thesis by simp
qed

end

sublocale crypto_api \<subseteq> sealed_channel "Session_seal lib sess" "Session_open lib sess"
  by unfold_locales (auto dest: open_seal seal_length)

section \<open>A concrete library\<close>

text \<open>
  Functions that satisfy the contract, so that statements resting on it can be evaluated: a
  padded identity for the hash, a one-byte XOR stream with a nonce tag for the cipher, a counter
  for the generator and byte-wise XOR for the key agreement.
\<close>

definition pad32 :: "bytes \<Rightarrow> bytes" where
  "pad32 b = take 32 (b @ replicate 32 0)"

definition demo_pad :: "bytes \<Rightarrow> bytes \<Rightarrow> bytes" where
  "demo_pad key b = map (\<lambda>x. x XOR (case key of [] \<Rightarrow> 0 | k # _ \<Rightarrow> k)) b"

definition demo_tag :: "bytes \<Rightarrow> bytes" where
  "demo_tag nonce = take 16 (nonce @ replicate 16 0)"

definition demo_lib :: "(bytes, nat) crypto_lib" where
  "demo_lib =
    \<lparr>mbedtls_sha256 = pad32, sha256_starts = [], sha256_update = (\<lambda>d c. c @ d), sha256_finish = pad32,
     gcm_setkey = (\<lambda>key bits. bits = 256),
     gcm_crypt_and_tag = (\<lambda>key nonce pt. Some (demo_pad key pt, demo_tag nonce)),
     gcm_auth_decrypt = (\<lambda>key nonce ct tag. if tag = demo_tag nonce then Some (demo_pad key ct) else None),
     ctr_drbg_seed = (\<lambda>pers r. (True, r)),
     ctr_drbg_random = (\<lambda>n r. (Some (replicate n (word_of_nat r)), Suc r)),
     crypto_x25519_public_key = pad32,
     crypto_x25519 = (\<lambda>a q. map2 (XOR) (pad32 a) (pad32 q))\<rparr>"

lemma length_pad32 [simp]: "length (pad32 b) = 32"
  by (simp add: pad32_def)

lemma pad32_idem [simp]: "pad32 (pad32 b) = pad32 b"
  by (simp add: pad32_def)

lemma demo_pad_idem [simp]: "demo_pad key (demo_pad key b) = b"
  by (simp add: demo_pad_def comp_def xor.assoc)

lemma map2_xor_commute: "map2 (XOR) a b = map2 (XOR) b (a :: bytes)"
  by (induction a b rule: list_induct2') (simp_all add: xor.commute)

interpretation demo: crypto_api demo_lib
  by unfold_locales (auto simp: demo_lib_def map2_xor_commute split: if_splits,
      auto simp: demo_pad_def demo_tag_def)

section \<open>Properties\<close>

text \<open>
  C25. Sealing then opening with the same key is the identity, and \<open>seal\<close> is total within its
  bound: with a 32-byte key and a working generator every plaintext of at most 2^20 - 29 bytes
  is sealed into the 12 bytes of the nonce the generator gave, the ciphertext and the 16 bytes of the
  tag, in this order, which fits into a record and opens to the plaintext; every longer one is refused
  with \<open>bad_frame\<close> before any randomness is drawn.
\<close>

theorem session_seal_open:
  assumes "crypto_api lib" and "length key = 32"
    and "random_bytes lib kNonceSize g = (Inr nonce, g')"
  shows "if length pt \<le> 2 ^ 20 - 29
         then \<exists>ct tag. gcm_crypt_and_tag lib key nonce pt = Some (ct, tag) \<and>
                length nonce = 12 \<and> length ct = length pt \<and> length tag = 16 \<and>
                Session_seal lib \<lparr>session_key = key\<rparr> pt g = (Inr (nonce @ ct @ tag), g') \<and>
                record_fits (nonce @ ct @ tag) \<and>
                Session_open lib \<lparr>session_key = key\<rparr> (nonce @ ct @ tag) = Inr pt
         else Session_seal lib \<lparr>session_key = key\<rparr> pt g = (Inl (DuplexEc errc_bad_frame), g)"
proof (cases "length pt \<le> 2 ^ 20 - 29")
  case True
  then have "kNonceSize + kTagSize + length pt \<le> 1048575"
    by (simp add: kNonceSize_def kTagSize_def)
  then obtain ct tag where c: "gcm_crypt_and_tag lib key nonce pt = Some (ct, tag)"
    and s: "Session_seal lib \<lparr>session_key = key\<rparr> pt g = (Inr (nonce @ ct @ tag), g')"
    using crypto_api.seal_total [OF assms(1) _ _ assms(3), of "\<lparr>session_key = key\<rparr>" pt] assms(2) by auto
  with True crypto_api.seal_length [OF assms(1) s] crypto_api.open_seal [OF assms(1) s] crypto_api.crypt_len [OF assms(1) c]
    crypto_api.random_bytes_len [OF assms(1,3)]
  show ?thesis by (auto simp: kNonceSize_def)
next
  case False
  then show ?thesis by (simp add: Session_seal_def Let_def kNonceSize_def kTagSize_def)
qed

definition demo_key :: bytes where "demo_key = replicate 32 5"

definition demo_rng :: "nat seal_rng" where "demo_rng = \<lparr>rng_inited = False, rng_state = 3\<rparr>"

theorem session_seal_open_witness:
  "\<exists>ct tag. Session_seal demo_lib \<lparr>session_key = demo_key\<rparr> [1, 2] demo_rng =
     (Inr (replicate 12 3 @ ct @ tag), \<lparr>rng_inited = True, rng_state = 4\<rparr>) \<and> length ct = 2 \<and>
     Session_open demo_lib \<lparr>session_key = demo_key\<rparr> (replicate 12 3 @ ct @ tag) = Inr [1, 2]"
proof -
  have "random_bytes demo_lib kNonceSize demo_rng =
      (Inr (replicate 12 3), \<lparr>rng_inited = True, rng_state = 4\<rparr>)"
    by (simp add: random_bytes_def demo_rng_def demo_lib_def kNonceSize_def)
  from session_seal_open [OF demo.crypto_api_axioms _ this, of demo_key "[1, 2]"] obtain ct tag where
    "length ct = Suc (Suc 0)" "Session_open demo_lib \<lparr>session_key = demo_key\<rparr> (replicate 12 3 @ ct @ tag) = Inr [1, 2]"
    "Session_seal demo_lib \<lparr>session_key = demo_key\<rparr> [1, 2] demo_rng =
       (Inr (replicate 12 3 @ ct @ tag), \<lparr>rng_inited = True, rng_state = 4\<rparr>)" by (auto simp: demo_key_def)
  then show ?thesis by (intro exI [of _ ct] exI [of _ tag]) simp
qed

text \<open>
  C26. \<open>open\<close> accepts only what \<open>seal\<close> produces: a blob that opens to a plaintext (and fits into a
  record) is, byte for byte, what sealing that plaintext gives when the generator yields the blob's
  nonce; and no other blob with the same nonce opens to that plaintext, so changing any byte of the
  ciphertext or the tag changes or loses the plaintext.
\<close>

theorem session_open_not_malleable:
  assumes "crypto_api lib" and "Session_open lib sess x = Inr pt" and "length x < 2 ^ 20"
    and "random_bytes lib kNonceSize g = (Inr (take kNonceSize x), g')"
  shows "Session_seal lib sess pt g = (Inr x, g') \<and>
    (\<forall>y. take kNonceSize y = take kNonceSize x \<longrightarrow> y \<noteq> x \<longrightarrow> Session_open lib sess y \<noteq> Inr pt)"
proof -
  have "Session_open lib sess y \<noteq> Inr pt" if "take kNonceSize y = take kNonceSize x" "y \<noteq> x" for y
  proof
    assume "Session_open lib sess y = Inr pt"
    with crypto_api.open_canonical [OF assms(1,2)] crypto_api.open_canonical [OF assms(1)] that show False by fastforce
  qed
  with crypto_api.seal_opened [OF assms] show ?thesis by blast
qed

definition demo_blob :: "u8 \<Rightarrow> bytes" where
  "demo_blob x = replicate 12 3 @ [4, x] @ replicate 12 3 @ replicate 4 0"

theorem session_open_not_malleable_witness:
  "Session_open demo_lib \<lparr>session_key = demo_key\<rparr> (demo_blob 7) = Inr [1, 2] \<and>
   Session_seal demo_lib \<lparr>session_key = demo_key\<rparr> [1, 2] demo_rng = (Inr (demo_blob 7), \<lparr>rng_inited = True, rng_state = 4\<rparr>) \<and>
   Session_open demo_lib \<lparr>session_key = demo_key\<rparr> (demo_blob 6) \<noteq> Inr [1, 2]"
proof -
  have o: "Session_open demo_lib \<lparr>session_key = demo_key\<rparr> (demo_blob 7) = Inr [1, 2]"
    by code_simp
  have r: "random_bytes demo_lib kNonceSize demo_rng = (Inr (take kNonceSize (demo_blob 7)), \<lparr>rng_inited = True, rng_state = 4\<rparr>)"
    by (simp add: random_bytes_def demo_rng_def demo_lib_def demo_blob_def kNonceSize_def)
  from session_open_not_malleable [OF demo.crypto_api_axioms o _ r] o show ?thesis
    by (simp add: demo_blob_def kNonceSize_def)
qed

text \<open>
  C30. The session key is the SHA-256 of an unambiguous encoding of shared secret and PSK: the
  streaming computation equals hashing \<open>kdf_input\<close>, which for shared secrets of one length
  determines both, so peers with different PSKs (or one without) hash different inputs.
\<close>

theorem session_key_derivation:
  assumes "crypto_api lib" and "length shared = length shared'"
  shows "derive_session_key lib shared psk = mbedtls_sha256 lib (kdf_input shared psk) \<and>
         length (derive_session_key lib shared psk) = 32 \<and>
         (kdf_input shared psk = kdf_input shared' psk') = (shared = shared' \<and> psk = psk')"
  using crypto_api.derive_session_key_eq [OF assms(1)] crypto_api.key_len [OF assms(1)]
    kdf_input_inj [OF _ assms(2)] by blast

theorem session_key_derivation_witness:
  "derive_session_key demo_lib [1, 2] [115] = mbedtls_sha256 demo_lib [1, 2, 0, 0, 0, 0, 1, 115] \<and>
   kdf_input [1, 2] [115] \<noteq> kdf_input [1, 2] []"
  using session_key_derivation [OF demo.crypto_api_axioms, of "[1, 2]" "[1, 2]" "[115]" "[]"]
  by (simp add: kdf_input_def put_be32_def)

end
