(* ===== verification/Tdx_Socket.thy ===== *)
theory Tdx_Socket
  imports Tdx_Protocol
begin

text \<open>
  The socket layer of \<^verbatim>\<open>src/detail/socket.cpp\<close>, POSIX branch. The operating system is a
  parameter: the record \<open>posix\<close> of the calls the code makes, over a kernel state \<open>'k\<close> and
  socket addresses \<open>'a\<close>. What the code relies on (how \<open>recv\<close> and \<open>send\<close> move bytes) is the
  locale \<open>posix_stream\<close>, from which the transport contracts of \<open>Tdx_Protocol\<close> follow for
  \<open>TcpSocket::read_exact\<close> and \<open>write_all\<close>, whatever the segmentation of the stream.
\<close>

section \<open>The operating system as a parameter\<close>

text \<open>\<open>n\<close> bytes received (0: end of stream), or \<open>n < 0\<close> with \<open>errno\<close> set.\<close>

datatype recv_result = RecvBytes bytes | RecvFail

datatype send_result = SendCount nat | SendFail

text \<open>\<open>timeval\<close>: seconds and microseconds.\<close>

type_synonym timeval = "int \<times> int"

record ('k, 'a) posix =
  sys_ignore_sigpipe_once :: "'k \<Rightarrow> 'k"
  sys_errno :: "'k \<Rightarrow> errno"
  sys_recv :: "int \<Rightarrow> nat \<Rightarrow> 'k \<Rightarrow> recv_result \<times> 'k"
  sys_send :: "int \<Rightarrow> bytes \<Rightarrow> 'k \<Rightarrow> send_result \<times> 'k"
  sys_close :: "int \<Rightarrow> 'k \<Rightarrow> 'k"
  sys_set_rcvtimeo :: "int \<Rightarrow> timeval \<Rightarrow> 'k \<Rightarrow> 'k"
  sys_set_sndtimeo :: "int \<Rightarrow> timeval \<Rightarrow> 'k \<Rightarrow> 'k"
  sys_set_reuseaddr :: "int \<Rightarrow> 'k \<Rightarrow> 'k"
  sys_getaddrinfo :: "bool \<Rightarrow> string option \<Rightarrow> string \<Rightarrow> 'k \<Rightarrow> 'a list option \<times> 'k"
  sys_socket :: "'a \<Rightarrow> 'k \<Rightarrow> int \<times> 'k"
  sys_connect :: "int \<Rightarrow> 'a \<Rightarrow> 'k \<Rightarrow> bool \<times> 'k"
  sys_bind :: "int \<Rightarrow> 'a \<Rightarrow> 'k \<Rightarrow> bool \<times> 'k"
  sys_listen :: "int \<Rightarrow> 'k \<Rightarrow> bool \<times> 'k"
  sys_accept :: "int \<Rightarrow> 'k \<Rightarrow> int \<times> 'k"
  sys_accept_blocks :: "int \<Rightarrow> 'k \<Rightarrow> bool"
  sys_getsockname :: "int \<Rightarrow> 'k \<Rightarrow> 'a option"
  sys_getpeername :: "int \<Rightarrow> 'k \<Rightarrow> 'a option"
  sys_getnameinfo :: "'a \<Rightarrow> (string \<times> string) option"
  sys_is_inet6 :: "'a \<Rightarrow> bool"

section \<open>Helpers\<close>

definition kInvalidSocket :: int where "kInvalidSocket = -1"

definition last_socket_error :: "('k, 'a) posix \<Rightarrow> 'k \<Rightarrow> error_code" where
  "last_socket_error p k =
    (let e = sys_errno p k in
     if e = ETIMEDOUT \<or> e = EAGAIN \<or> e = EWOULDBLOCK then DuplexEc errc_timed_out
     else if e = ECONNRESET \<or> e = EPIPE then DuplexEc errc_closed
     else GenericEc e)"

text \<open>\<open>std::string::find\<close> and \<open>rfind\<close> of a character; \<open>npos\<close> is \<open>None\<close>.\<close>

fun str_find :: "char \<Rightarrow> string \<Rightarrow> nat option" where
  "str_find c [] = None"
| "str_find c (x # xs) = (if x = c then Some 0 else map_option Suc (str_find c xs))"

fun str_rfind :: "char \<Rightarrow> string \<Rightarrow> nat option" where
  "str_rfind c [] = None"
| "str_rfind c (x # xs) =
    (case str_rfind c xs of Some i \<Rightarrow> Some (Suc i) | None \<Rightarrow> if x = c then Some 0 else None)"

text \<open>\<open>true\<close> with the two out-parameters is \<open>Some (host, port)\<close>.\<close>

definition parse_host_port :: "string \<Rightarrow> (string \<times> string) option" where
  "parse_host_port address =
    (if address = [] then None
     else if address ! 0 = CHR ''['' then
       (case str_find (CHR '']'') address of
          None \<Rightarrow> None
        | Some e \<Rightarrow>
            if e + 1 \<ge> length address \<or> address ! (e + 1) \<noteq> CHR '':'' then None
            else
              let host = take (e - 1) (drop 1 address); port = drop (e + 2) address
              in if host \<noteq> [] \<and> port \<noteq> [] then Some (host, port) else None)
     else
       (case str_rfind (CHR '':'') address of
          None \<Rightarrow> None
        | Some pos \<Rightarrow>
            let host = take pos address; port = drop (pos + 1) address;
                host = (if host = [] then ''0.0.0.0'' else host)
            in if port \<noteq> [] then Some (host, port) else None))"

definition sockaddr_to_string :: "('k, 'a) posix \<Rightarrow> 'a \<Rightarrow> string" where
  "sockaddr_to_string p sa =
    (case sys_getnameinfo p sa of
       None \<Rightarrow> []
     | Some (host, serv) \<Rightarrow>
         if sys_is_inet6 p sa then ''['' @ host @ '']:'' @ serv else host @ '':'' @ serv)"

text \<open>\<open>std::call_once\<close> around \<open>signal(SIGPIPE, SIG_IGN)\<close>.\<close>

definition ensure_sockets_initialized :: "('k, 'a) posix \<Rightarrow> 'k \<Rightarrow> 'k" where
  "ensure_sockets_initialized p k = sys_ignore_sigpipe_once p k"

section \<open>TcpSocket\<close>

record tcp_socket =
  sock_fd :: int

definition TcpSocket_valid :: "tcp_socket \<Rightarrow> bool" where
  "TcpSocket_valid sock \<longleftrightarrow> sock_fd sock \<noteq> kInvalidSocket"

definition TcpSocket_close :: "('k, 'a) posix \<Rightarrow> tcp_socket \<Rightarrow> 'k \<Rightarrow> tcp_socket \<times> 'k" where
  "TcpSocket_close p sock k =
    (if sock_fd sock = kInvalidSocket then (sock, k)
     else (sock\<lparr>sock_fd := kInvalidSocket\<rparr>, sys_close p (sock_fd sock) k))"

text \<open>The destructor closes the socket; what remains is the kernel.\<close>

definition TcpSocket_destroy :: "('k, 'a) posix \<Rightarrow> tcp_socket \<Rightarrow> 'k \<Rightarrow> 'k" where
  "TcpSocket_destroy p sock k = snd (TcpSocket_close p sock k)"

text \<open>The move constructor: the new object and what is left of the old one.\<close>

definition TcpSocket_move :: "tcp_socket \<Rightarrow> tcp_socket \<times> tcp_socket" where
  "TcpSocket_move other = (\<lparr>sock_fd = sock_fd other\<rparr>, other\<lparr>sock_fd := kInvalidSocket\<rparr>)"

text \<open>A moved socket is closed once, however the two objects end.\<close>

lemma move_destroys_once:
  "TcpSocket_move sock = (new, old) \<Longrightarrow>
   TcpSocket_destroy p old (TcpSocket_destroy p new k) = TcpSocket_destroy p sock k \<and>
   TcpSocket_destroy p new (TcpSocket_destroy p old k) = TcpSocket_destroy p sock k"
  by (auto simp: TcpSocket_move_def TcpSocket_destroy_def TcpSocket_close_def)

text \<open>Move assignment from a distinct object; self-assignment changes nothing.\<close>

definition TcpSocket_move_assign ::
  "('k, 'a) posix \<Rightarrow> tcp_socket \<Rightarrow> tcp_socket \<Rightarrow> 'k \<Rightarrow> (tcp_socket \<times> tcp_socket) \<times> 'k" where
  "TcpSocket_move_assign p this other k =
    (let (this, k) = TcpSocket_close p this k
     in ((this\<lparr>sock_fd := sock_fd other\<rparr>, other\<lparr>sock_fd := kInvalidSocket\<rparr>), k))"

definition TcpSocket_set_deadline ::
  "('k, 'a) posix \<Rightarrow> int \<Rightarrow> tcp_socket \<Rightarrow> 'k \<Rightarrow> 'k" where
  "TcpSocket_set_deadline p from_now sock k =
    (if \<not> TcpSocket_valid sock then k
     else
       let tv = (if from_now > 0 then (from_now div 1000, (from_now mod 1000) * 1000) else (0, 0));
           k = sys_set_rcvtimeo p (sock_fd sock) tv k
       in sys_set_sndtimeo p (sock_fd sock) tv k)"

definition TcpSocket_clear_deadline :: "('k, 'a) posix \<Rightarrow> tcp_socket \<Rightarrow> 'k \<Rightarrow> 'k" where
  "TcpSocket_clear_deadline p sock k = TcpSocket_set_deadline p 0 sock k"

text \<open>The loop of \<open>read_exact\<close>: \<open>got\<close> is the part of the buffer filled so far.\<close>

function TcpSocket_read_loop ::
  "('k, 'a) posix \<Rightarrow> int \<Rightarrow> nat \<Rightarrow> bytes \<Rightarrow> 'k \<Rightarrow> (error_code + bytes) \<times> 'k" where
  "TcpSocket_read_loop p fd sz got k =
    (if length got < sz then
       (case sys_recv p fd (sz - length got) k of
          (RecvBytes bs, k') \<Rightarrow>
            if length bs = 0 then (Inl (DuplexEc errc_closed), k')
            else TcpSocket_read_loop p fd sz (got @ bs) k'
        | (RecvFail, k') \<Rightarrow> (Inl (last_socket_error p k'), k'))
     else (Inr got, k))"
  by pat_completeness auto
termination
  by (relation "measure (\<lambda>(p, fd, sz, got, k). sz - length got)")
    (auto intro!: diff_less_mono2 simp flip: length_greater_0_conv)

definition TcpSocket_read_exact ::
  "('k, 'a) posix \<Rightarrow> tcp_socket \<Rightarrow> nat \<Rightarrow> 'k \<Rightarrow> (error_code + bytes) \<times> 'k" where
  "TcpSocket_read_exact p sock n k = TcpSocket_read_loop p (sock_fd sock) n [] k"

function TcpSocket_write_loop ::
  "('k, 'a) posix \<Rightarrow> int \<Rightarrow> bytes \<Rightarrow> nat \<Rightarrow> 'k \<Rightarrow> error_code \<times> 'k" where
  "TcpSocket_write_loop p fd buf sent k =
    (if sent < length buf then
       (case sys_send p fd (drop sent buf) k of
          (SendCount n, k') \<Rightarrow>
            if n = 0 then (last_socket_error p k', k')
            else TcpSocket_write_loop p fd buf (sent + n) k'
        | (SendFail, k') \<Rightarrow> (last_socket_error p k', k'))
     else (NoError, k))"
  by pat_completeness auto
termination
  by (relation "measure (\<lambda>(p, fd, buf, sent, k). length buf - sent)") auto

definition TcpSocket_write_all ::
  "('k, 'a) posix \<Rightarrow> tcp_socket \<Rightarrow> bytes \<Rightarrow> 'k \<Rightarrow> error_code \<times> 'k" where
  "TcpSocket_write_all p sock buf k = TcpSocket_write_loop p (sock_fd sock) buf 0 k"

declare TcpSocket_read_loop.simps [simp del]
declare TcpSocket_write_loop.simps [simp del]

definition SocketStream :: "('k, 'a) posix \<Rightarrow> tcp_socket \<Rightarrow> 'k byte_stream" where
  "SocketStream p sock =
     \<lparr>read_exact = TcpSocket_read_exact p sock, write_all = TcpSocket_write_all p sock\<rparr>"

text \<open>The overloads of the record protocol that take a socket.\<close>

definition write_handshake_sock ::
  "('k, 'a) posix \<Rightarrow> tcp_socket \<Rightarrow> u16 \<Rightarrow> bytes \<Rightarrow> 'k \<Rightarrow> error_code \<times> 'k" where
  "write_handshake_sock p sock negotiated_version pub_key = write_handshake (SocketStream p sock) negotiated_version pub_key"

definition read_handshake_sock ::
  "('k, 'a) posix \<Rightarrow> tcp_socket \<Rightarrow> 'k \<Rightarrow> (error_code + u16 \<times> bytes) \<times> 'k" where
  "read_handshake_sock p sock = read_handshake (SocketStream p sock)"

definition read_record_sock ::
  "('k, 'a) posix \<Rightarrow> tcp_socket \<Rightarrow> 'k \<Rightarrow> (error_code + u8 \<times> bytes) \<times> 'k" where
  "read_record_sock p sock = read_record (SocketStream p sock)"

definition write_record_sock ::
  "('k, 'a) posix \<Rightarrow> tcp_socket \<Rightarrow> u8 \<Rightarrow> bytes \<Rightarrow> 'k \<Rightarrow> error_code \<times> 'k" where
  "write_record_sock p sock msg_type sealed = write_record (SocketStream p sock) msg_type sealed"

text \<open>The loop of \<open>connect\<close> over the resolved addresses: the descriptor, or \<open>kInvalidSocket\<close>.\<close>

fun connect_loop :: "('k, 'a) posix \<Rightarrow> int \<Rightarrow> 'a list \<Rightarrow> 'k \<Rightarrow> int \<times> 'k" where
  "connect_loop p timeout [] k = (kInvalidSocket, k)"
| "connect_loop p timeout (ai # ais) k =
    (let (s, k) = sys_socket p ai k in
     if s < 0 then connect_loop p timeout ais k
     else
       let k = (if timeout > 0 then
                  let tv = (timeout div 1000, (timeout mod 1000) * 1000)
                  in sys_set_sndtimeo p s tv (sys_set_rcvtimeo p s tv k)
                else k);
           (connected, k) = sys_connect p s ai k
       in if connected then (s, k) else connect_loop p timeout ais (sys_close p s k))"

definition TcpSocket_connect ::
  "('k, 'a) posix \<Rightarrow> string \<Rightarrow> int \<Rightarrow> 'k \<Rightarrow> (error_code + tcp_socket) \<times> 'k" where
  "TcpSocket_connect p address timeout k0 =
    (let k = ensure_sockets_initialized p k0 in
     case parse_host_port address of
       None \<Rightarrow> (Inl (DuplexEc errc_other), k)
     | Some (host, port) \<Rightarrow>
         (case sys_getaddrinfo p False (Some host) port k of
            (None, k) \<Rightarrow> (Inl (DuplexEc errc_io_error), k)
          | (Some res, k) \<Rightarrow>
              let (fd, k) = connect_loop p timeout res k in
              if fd = kInvalidSocket then (Inl (DuplexEc errc_io_error), k)
              else
                let sock = \<lparr>sock_fd = fd\<rparr>
                in (Inr sock, TcpSocket_clear_deadline p sock k)))"

definition TcpSocket_remote_addr :: "('k, 'a) posix \<Rightarrow> tcp_socket \<Rightarrow> 'k \<Rightarrow> string" where
  "TcpSocket_remote_addr p sock k =
    (if \<not> TcpSocket_valid sock then []
     else case sys_getpeername p (sock_fd sock) k of
         None \<Rightarrow> [] | Some sa \<Rightarrow> sockaddr_to_string p sa)"

definition TcpSocket_local_addr :: "('k, 'a) posix \<Rightarrow> tcp_socket \<Rightarrow> 'k \<Rightarrow> string" where
  "TcpSocket_local_addr p sock k =
    (if \<not> TcpSocket_valid sock then []
     else case sys_getsockname p (sock_fd sock) k of
         None \<Rightarrow> [] | Some sa \<Rightarrow> sockaddr_to_string p sa)"

section \<open>TcpListener\<close>

record tcp_listener =
  ln_fd :: int
  ln_addr :: string

definition TcpListener_close :: "('k, 'a) posix \<Rightarrow> tcp_listener \<Rightarrow> 'k \<Rightarrow> tcp_listener \<times> 'k" where
  "TcpListener_close p ln k =
    (if ln_fd ln = kInvalidSocket then (ln, k)
     else (ln\<lparr>ln_fd := kInvalidSocket\<rparr>, sys_close p (ln_fd ln) k))"

definition TcpListener_destroy :: "('k, 'a) posix \<Rightarrow> tcp_listener \<Rightarrow> 'k \<Rightarrow> 'k" where
  "TcpListener_destroy p ln k = snd (TcpListener_close p ln k)"

definition TcpListener_addr :: "tcp_listener \<Rightarrow> string" where
  "TcpListener_addr ln = ln_addr ln"

fun listen_loop :: "('k, 'a) posix \<Rightarrow> 'a list \<Rightarrow> 'k \<Rightarrow> int \<times> 'k" where
  "listen_loop p [] k = (kInvalidSocket, k)"
| "listen_loop p (ai # ais) k =
    (let (s, k) = sys_socket p ai k in
     if s < 0 then listen_loop p ais k
     else
       let k = sys_set_reuseaddr p s k;
           (bound, k) = sys_bind p s ai k;
           (listening, k) = (if bound then sys_listen p s k else (False, k))
       in if bound \<and> listening then (s, k) else listen_loop p ais (sys_close p s k))"

definition TcpListener_listen ::
  "('k, 'a) posix \<Rightarrow> string \<Rightarrow> 'k \<Rightarrow> (error_code + tcp_listener) \<times> 'k" where
  "TcpListener_listen p address k0 =
    (let k = ensure_sockets_initialized p k0 in
     case parse_host_port address of
       None \<Rightarrow> (Inl (DuplexEc errc_other), k)
     | Some (host, port) \<Rightarrow>
         let host_c = (if host = ''0.0.0.0'' \<or> host = [] then None else Some host) in
         (case sys_getaddrinfo p True host_c port k of
            (None, k) \<Rightarrow> (Inl (DuplexEc errc_io_error), k)
          | (Some res, k) \<Rightarrow>
              let (fd, k) = listen_loop p res k in
              if fd = kInvalidSocket then (Inl (DuplexEc errc_io_error), k)
              else
                let addr = (case sys_getsockname p fd k of
                      None \<Rightarrow> [] | Some sa \<Rightarrow> sockaddr_to_string p sa)
                in (Inr \<lparr>ln_fd = fd, ln_addr = addr\<rparr>, k)))"

definition TcpListener_accept ::
  "('k, 'a) posix \<Rightarrow> tcp_listener \<Rightarrow> 'k \<Rightarrow> (error_code + tcp_socket) \<times> 'k" where
  "TcpListener_accept p ln k =
    (if ln_fd ln = kInvalidSocket then (Inl (DuplexEc errc_closed), k)
     else
       let (s, k) = sys_accept p (ln_fd ln) k in
       if s < 0 then (Inl (last_socket_error p k), k) else (Inr \<lparr>sock_fd = s\<rparr>, k))"

text \<open>
  Whether a thread in \<open>accept\<close> stays there: it is in the system call, and no peer has connected.
  Closing the descriptor in another thread need not change that (on Linux it does not).
\<close>

definition TcpListener_accept_blocks :: "('k, 'a) posix \<Rightarrow> tcp_listener \<Rightarrow> 'k \<Rightarrow> bool" where
  "TcpListener_accept_blocks p ln k \<longleftrightarrow> ln_fd ln \<noteq> kInvalidSocket \<and> sys_accept_blocks p (ln_fd ln) k"

section \<open>Frame lemmas of the two loops\<close>

text \<open>Whatever \<open>recv\<close> and \<open>send\<close> leave alone, the loops leave alone.\<close>

lemma read_loop_frame:
  assumes frame: "\<And>n k rr k'. sys_recv p fd n k = (rr, k') \<Longrightarrow> f k' = f k"
    and "TcpSocket_read_loop p fd sz got k = (r, k')"
  shows "f k' = f k"
  using assms(2)
proof (induction "sz - length got" arbitrary: got k rule: less_induct)
  case less
  show ?case
  proof (cases "length got < sz")
    case False
    with less.prems show ?thesis by (simp add: TcpSocket_read_loop.simps)
  next
    case True
    obtain rr k1 where rr: "sys_recv p fd (sz - length got) k = (rr, k1)" by fastforce
    show ?thesis
    proof (cases "\<exists>bs. rr = RecvBytes bs \<and> 0 < length bs")
      case False
      with less.prems True rr frame [OF rr] show ?thesis
        by (subst (asm) TcpSocket_read_loop.simps) (cases rr; auto)
    next
      case more: True
      then obtain bs where bs: "rr = RecvBytes bs" "0 < length bs" by blast
      with less.prems True rr have rest: "TcpSocket_read_loop p fd sz (got @ bs) k1 = (r, k')"
        by (subst (asm) TcpSocket_read_loop.simps) auto
      from bs True have "sz - length (got @ bs) < sz - length got"
        by (auto intro!: diff_less_mono2 simp flip: length_greater_0_conv)
      from less.hyps [OF this rest] frame [OF rr] show ?thesis by simp
    qed
  qed
qed

lemma write_loop_frame:
  assumes frame: "\<And>b k sr k'. sys_send p fd b k = (sr, k') \<Longrightarrow> f k' = f k"
    and "TcpSocket_write_loop p fd buf sent k = (ec, k')"
  shows "f k' = f k"
  using assms(2)
proof (induction "length buf - sent" arbitrary: sent k rule: less_induct)
  case less
  show ?case
  proof (cases "sent < length buf")
    case False
    with less.prems show ?thesis by (simp add: TcpSocket_write_loop.simps)
  next
    case True
    obtain sr k1 where sr: "sys_send p fd (drop sent buf) k = (sr, k1)" by fastforce
    show ?thesis
    proof (cases "\<exists>n. sr = SendCount n \<and> 0 < n")
      case False
      with less.prems True sr frame [OF sr] show ?thesis
        by (subst (asm) TcpSocket_write_loop.simps) (cases sr; auto)
    next
      case more: True
      then obtain n where n: "sr = SendCount n" "0 < n" by blast
      with less.prems True sr have rest: "TcpSocket_write_loop p fd buf (sent + n) k1 = (ec, k')"
        by (subst (asm) TcpSocket_write_loop.simps) auto
      from n True have "length buf - (sent + n) < length buf - sent" by simp
      from less.hyps [OF this rest] frame [OF sr] show ?thesis by simp
    qed
  qed
qed

section \<open>What the code relies on\<close>

text \<open>
  \<open>inp k\<close>: the bytes of the peer that are or will be delivered on \<open>fd\<close>; \<open>out k\<close>: the bytes the
  kernel has accepted for sending. \<open>recv\<close> returns at most the bytes asked for, in order; \<open>send\<close>
  accepts a prefix of the buffer; a failing call leaves a non-zero \<open>errno\<close>.
\<close>

locale posix_stream =
  fixes p :: "('k, 'a) posix" and fd :: int and inp out :: "'k \<Rightarrow> bytes"
  assumes recv_data:
      "sys_recv p fd n k = (RecvBytes bs, k') \<Longrightarrow> length bs \<le> n \<and> inp k = bs @ inp k'"
    and recv_fail: "sys_recv p fd n k = (RecvFail, k') \<Longrightarrow> ec_fails (last_socket_error p k')"
    and send_data:
      "sys_send p fd b k = (SendCount m, k') \<Longrightarrow> m \<le> length b \<and> out k' = out k @ take m b"
    and send_progress: "sys_send p fd b k = (SendCount m, k') \<Longrightarrow> b \<noteq> [] \<Longrightarrow> 0 < m"
    and send_fail:
      "sys_send p fd b k = (SendFail, k') \<Longrightarrow> ec_fails (last_socket_error p k') \<and> out k' = out k"
    and recv_keeps_out: "sys_recv p fd n k = (rr, k') \<Longrightarrow> out k' = out k"
    and send_keeps_inp: "sys_send p fd b k = (sr, k') \<Longrightarrow> inp k' = inp k"
begin

lemma read_loop_ok:
  assumes "TcpSocket_read_loop p fd sz got k = (Inr b, k')" and "length got \<le> sz"
  shows "length b = sz \<and> got @ inp k = b @ inp k'"
  using assms
proof (induction "sz - length got" arbitrary: got k rule: less_induct)
  case less
  show ?case
  proof (cases "length got < sz")
    case False
    with less.prems show ?thesis by (simp add: TcpSocket_read_loop.simps)
  next
    case True
    with less.prems(1) obtain bs k1 where
        r: "sys_recv p fd (sz - length got) k = (RecvBytes bs, k1)" and bs: "0 < length bs"
      and rest: "TcpSocket_read_loop p fd sz (got @ bs) k1 = (Inr b, k')"
      by (subst (asm) TcpSocket_read_loop.simps)
        (auto split: prod.splits recv_result.splits if_splits)
    from recv_data [OF r] True bs have
      "sz - length (got @ bs) < sz - length got" "length (got @ bs) \<le> sz"
      by (auto intro!: diff_less_mono2 simp flip: length_greater_0_conv)
    with recv_data [OF r] show ?thesis
      using less.hyps [OF _ rest] by simp
  qed
qed

lemma read_loop_err:
  assumes "TcpSocket_read_loop p fd sz got k = (Inl ec, k')"
  shows "ec_fails ec"
  using assms
proof (induction "sz - length got" arbitrary: got k rule: less_induct)
  case less
  show ?case
  proof (cases "length got < sz")
    case True
    with less.prems show ?thesis
      by (subst (asm) TcpSocket_read_loop.simps)
        (auto split: prod.splits recv_result.splits if_splits dest: recv_fail
          intro!: less.hyps [OF diff_less_mono2] simp flip: length_greater_0_conv)
  qed (use less.prems in \<open>simp add: TcpSocket_read_loop.simps\<close>)
qed

lemma write_loop_prefix:
  assumes "TcpSocket_write_loop p fd buf sent k = (ec, k')" and "sent \<le> length buf"
  shows "\<exists>m. m \<le> length buf - sent \<and> out k' = out k @ take m (drop sent buf) \<and>
           (\<not> ec_fails ec \<longrightarrow> m = length buf - sent)"
  using assms
proof (induction "length buf - sent" arbitrary: sent k rule: less_induct)
  case less
  show ?case
  proof (cases "sent < length buf")
    case False
    with less.prems show ?thesis by (simp add: TcpSocket_write_loop.simps)
  next
    case True
    then have ne: "drop sent buf \<noteq> []" by simp
    obtain r k1 where r: "sys_send p fd (drop sent buf) k = (r, k1)" by fastforce
    consider "r = SendFail" | "r = SendCount 0" | n where "r = SendCount n" "0 < n"
      by (cases r) auto
    then show ?thesis
    proof cases
      case 1
      with True r less.prems(1) send_fail [of "drop sent buf" k k1] show ?thesis
        by (auto simp: TcpSocket_write_loop.simps [of p fd buf sent k] intro!: exI [of _ 0])
    next
      case 2
      with r send_progress [OF _ ne, of k 0 k1] show ?thesis by simp
    next
      case (3 n)
      with True r less.prems(1) have
        rest: "TcpSocket_write_loop p fd buf (sent + n) k1 = (ec, k')"
        by (simp add: TcpSocket_write_loop.simps [of p fd buf sent k])
      have n: "n \<le> length buf - sent" and o1: "out k1 = out k @ take n (drop sent buf)"
        using send_data [of "drop sent buf" k n k1] r 3 by auto
      from n have "sent + n \<le> length buf" using True by simp
      with less.hyps [OF _ rest] True 3 obtain m where
          m: "m \<le> length buf - (sent + n)" "out k' = out k1 @ take m (drop (sent + n) buf)"
          "\<not> ec_fails ec \<longrightarrow> m = length buf - (sent + n)"
        by (auto simp: diff_less_mono2)
      moreover have "take (n + m) (drop sent buf) = take n (drop sent buf) @ take m (drop (sent + n) buf)"
        by (subst take_add) (simp add: add.commute)
      ultimately show ?thesis
        using o1 n by (intro exI [of _ "n + m"]) auto
    qed
  qed
qed

end

sublocale posix_stream \<subseteq> stream_writer "SocketStream p \<lparr>sock_fd = fd\<rparr>" out
proof unfold_locales
  fix b s ec s'
  assume w: "write_all (SocketStream p \<lparr>sock_fd = fd\<rparr>) b s = (ec, s')"
  then have l: "TcpSocket_write_loop p fd b 0 s = (ec, s')"
    by (simp add: SocketStream_def TcpSocket_write_all_def)
  from write_loop_prefix [OF l] show "prefix (out s) (out s') \<and> prefix (out s') (out s @ b)"
    by (auto simp: take_is_prefix)
  from write_loop_prefix [OF l] show "out s' = out s @ b" if "\<not> ec_fails ec"
    using that by auto
qed

sublocale posix_stream \<subseteq> stream_reader "SocketStream p \<lparr>sock_fd = fd\<rparr>" inp
  by unfold_locales
    (auto simp: SocketStream_def TcpSocket_read_exact_def dest: read_loop_ok read_loop_err)

sublocale posix_stream \<subseteq> duplex_stream "SocketStream p \<lparr>sock_fd = fd\<rparr>" out inp
proof unfold_locales
  fix b s ec s'
  assume "write_all (SocketStream p \<lparr>sock_fd = fd\<rparr>) b s = (ec, s')"
  then have "TcpSocket_write_loop p fd b 0 s = (ec, s')"
    by (simp add: SocketStream_def TcpSocket_write_all_def)
  from write_loop_frame [where f = inp, OF send_keeps_inp this] show "inp s' = inp s" .
next
  fix n s r s'
  assume "read_exact (SocketStream p \<lparr>sock_fd = fd\<rparr>) n s = (r, s')"
  then have "TcpSocket_read_loop p fd n [] s = (r, s')"
    by (simp add: SocketStream_def TcpSocket_read_exact_def)
  from read_loop_frame [where f = out, OF recv_keeps_out this] show "out s' = out s" .
qed

text \<open>The layout theorems of \<open>Tdx_Protocol\<close>, for a TCP socket.\<close>

context posix_stream
begin

lemma tcp_write_record_ok:
  "write_record (SocketStream p \<lparr>sock_fd = fd\<rparr>) t x k = (ec, k') \<Longrightarrow> \<not> ec_fails ec \<Longrightarrow>
     record_fits x \<and> out k' = out k @ record_bytes t x"
  by (rule write_record_ok)

lemma tcp_write_record_prefix:
  "write_record (SocketStream p \<lparr>sock_fd = fd\<rparr>) t x k = (ec, k') \<Longrightarrow>
     prefix (out k) (out k') \<and> prefix (out k') (out k @ record_bytes t x)"
  by (rule write_record_prefix)

lemma tcp_read_record_ok:
  "read_record (SocketStream p \<lparr>sock_fd = fd\<rparr>) k = (Inr (t, x), k') \<Longrightarrow>
     record_fits x \<and> inp k = record_bytes t x @ inp k'"
  by (rule read_record_ok)

end

text \<open>
  What a connection adds: \<open>close\<close> and the timeout options neither take from nor add to the two byte
  streams, and calls on the descriptor of a closed socket fail without touching them.
\<close>

locale posix_conn = posix_stream +
  assumes valid_fd: "fd \<noteq> kInvalidSocket"
    and close_inp: "inp (sys_close p fd k) = inp k"
    and close_out: "out (sys_close p fd k) = out k"
    and rcvtimeo_streams: "inp (sys_set_rcvtimeo p fd tv k) = inp k \<and> out (sys_set_rcvtimeo p fd tv k) = out k"
    and sndtimeo_streams: "inp (sys_set_sndtimeo p fd tv k) = inp k \<and> out (sys_set_sndtimeo p fd tv k) = out k"
    and badf_recv: "sys_recv p kInvalidSocket n k = (rr, k') \<Longrightarrow>
          rr = RecvFail \<and> ec_fails (last_socket_error p k') \<and> inp k' = inp k \<and> out k' = out k"
    and badf_send: "sys_send p kInvalidSocket b k = (sr, k') \<Longrightarrow>
          sr = SendFail \<and> ec_fails (last_socket_error p k') \<and> inp k' = inp k \<and> out k' = out k"
begin

lemma deadline_streams:
  "inp (TcpSocket_set_deadline p t \<lparr>sock_fd = fd\<rparr> k) = inp k \<and> out (TcpSocket_set_deadline p t \<lparr>sock_fd = fd\<rparr> k) = out k"
  "inp (TcpSocket_clear_deadline p \<lparr>sock_fd = fd\<rparr> k) = inp k \<and> out (TcpSocket_clear_deadline p \<lparr>sock_fd = fd\<rparr> k) = out k"
  by (simp_all add: TcpSocket_clear_deadline_def TcpSocket_set_deadline_def Let_def rcvtimeo_streams sndtimeo_streams)

lemma badf_write_loop:
  "TcpSocket_write_loop p kInvalidSocket buf 0 k = (ec, k') \<Longrightarrow>
     inp k' = inp k \<and> out k' = out k \<and> (buf \<noteq> [] \<longrightarrow> ec_fails ec)"
  by (subst (asm) TcpSocket_write_loop.simps)
    (auto split: if_splits prod.splits send_result.splits dest: badf_send)

lemma badf_read_loop:
  "TcpSocket_read_loop p kInvalidSocket n [] k = (r, k') \<Longrightarrow> 0 < n \<Longrightarrow>
     inp k' = inp k \<and> out k' = out k \<and> (\<exists>ec. r = Inl ec)"
  by (subst (asm) TcpSocket_read_loop.simps)
    (auto split: if_splits prod.splits recv_result.splits dest: badf_recv)

lemma closed_write_record:
  assumes "write_record (SocketStream p \<lparr>sock_fd = kInvalidSocket\<rparr>) t x k = (ec, k')"
  shows "ec_fails ec \<and> inp k' = inp k \<and> out k' = out k"
  using assms badf_write_loop [of "put_be32 (word_of_nat (1 + length x))" k]
  by (auto simp: write_record_def SocketStream_def TcpSocket_write_all_def Let_def put_be32_def
      split: if_splits prod.splits)

lemma closed_read_record:
  assumes "read_record (SocketStream p \<lparr>sock_fd = kInvalidSocket\<rparr>) k = (r, k')"
  shows "(\<exists>ec. r = Inl ec) \<and> inp k' = inp k \<and> out k' = out k"
  using assms badf_read_loop [of 4 k]
  by (auto simp: read_record_def SocketStream_def TcpSocket_read_exact_def
      split: if_splits prod.splits sum.splits)

lemma open_write_record:
  assumes "write_record (SocketStream p \<lparr>sock_fd = fd\<rparr>) t x k = (ec, k')"
  shows "inp k' = inp k \<and> prefix (out k) (out k') \<and> prefix (out k') (out k @ record_bytes t x) \<and>
    (\<not> ec_fails ec \<longrightarrow> out k' = out k @ record_bytes t x)"
  using write_record_keeps_inp [OF assms] write_record_prefix [OF assms] write_record_ok [OF assms] by auto

lemma open_read_record:
  assumes "read_record (SocketStream p \<lparr>sock_fd = fd\<rparr>) k = (r, k')"
  shows "out k' = out k \<and> (\<forall>t x. r = Inr (t, x) \<longrightarrow> record_fits x \<and> inp k = record_bytes t x @ inp k')"
  using read_record_keeps_out [OF assms] read_record_ok assms by auto

end

text \<open>
  Descriptors: \<open>live k\<close> is the set of open descriptors. A successful \<open>socket\<close> or \<open>accept\<close> opens a
  fresh one, \<open>close\<close> releases it, no other call opens or closes one.
\<close>

locale posix_fds =
  fixes p :: "('k, 'a) posix" and live :: "'k \<Rightarrow> int set"
  assumes socket_ok: "sys_socket p ai k = (s, k') \<Longrightarrow> \<not> s < 0 \<Longrightarrow> s \<notin> live k \<and> live k' = insert s (live k)"
    and socket_err: "sys_socket p ai k = (s, k') \<Longrightarrow> s < 0 \<Longrightarrow> live k' = live k"
    and accept_ok: "sys_accept p l k = (s, k') \<Longrightarrow> \<not> s < 0 \<Longrightarrow> s \<notin> live k \<and> live k' = insert s (live k)"
    and accept_err: "sys_accept p l k = (s, k') \<Longrightarrow> s < 0 \<Longrightarrow> live k' = live k"
    and close_fd [simp]: "live (sys_close p s k) = live k - {s}"
    and rcvtimeo_fds [simp]: "live (sys_set_rcvtimeo p s tv k) = live k"
    and sndtimeo_fds [simp]: "live (sys_set_sndtimeo p s tv k) = live k"
    and reuseaddr_fds [simp]: "live (sys_set_reuseaddr p s k) = live k"
    and sigpipe_fds [simp]: "live (sys_ignore_sigpipe_once p k) = live k"
    and connect_fds: "sys_connect p s ai k = (c, k') \<Longrightarrow> live k' = live k"
    and bind_fds: "sys_bind p s ai k = (c, k') \<Longrightarrow> live k' = live k"
    and listen_fds: "sys_listen p s k = (c, k') \<Longrightarrow> live k' = live k"
    and getaddrinfo_fds: "sys_getaddrinfo p passive host service k = (ais, k') \<Longrightarrow> live k' = live k"
    and recv_fds: "sys_recv p s n k = (rr, k') \<Longrightarrow> live k' = live k"
    and send_fds: "sys_send p s b k = (sr, k') \<Longrightarrow> live k' = live k"
begin

definition opened :: "int \<Rightarrow> 'k \<Rightarrow> 'k \<Rightarrow> bool" where
  "opened fd k k' \<longleftrightarrow>
     (if fd = kInvalidSocket then live k' = live k
      else \<not> fd < 0 \<and> fd \<notin> live k \<and> live k' = insert fd (live k))"

lemma connect_loop_opened: "connect_loop p timeout ais k = (fd, k') \<Longrightarrow> opened fd k k'"
proof (induction ais arbitrary: k)
  case Nil
  then show ?case by (simp add: opened_def)
next
  case (Cons ai ais)
  obtain s k1 where s: "sys_socket p ai k = (s, k1)" by fastforce
  define tv where "tv = (timeout div 1000, (timeout mod 1000) * 1000)"
  define k2 where
    "k2 = (if timeout > 0 then sys_set_sndtimeo p s tv (sys_set_rcvtimeo p s tv k1) else k1)"
  obtain c k3 where c: "sys_connect p s ai k2 = (c, k3)" by fastforce
  have live2: "live k2 = live k1" by (simp add: k2_def)
  show ?case
  proof (cases "s < 0")
    case True
    with Cons.prems s have "connect_loop p timeout ais k1 = (fd, k')" by simp
    with Cons.IH [of k1] socket_err [OF s True] show ?thesis by (simp add: opened_def split: if_splits)
  next
    case False
    with socket_ok [OF s] live2 connect_fds [OF c]
    have live3: "s \<notin> live k" "live k3 = insert s (live k)" by auto
    show ?thesis
    proof (cases c)
      case True
      with Cons.prems s False c have "fd = s" "k' = k3"
        by (auto simp: Let_def k2_def tv_def split: if_splits)
      with live3 False show ?thesis by (simp add: opened_def kInvalidSocket_def)
    next
      case c0: False
      with Cons.prems s False c have "connect_loop p timeout ais (sys_close p s k3) = (fd, k')"
        by (auto simp: Let_def k2_def tv_def split: if_splits)
      with Cons.IH [of "sys_close p s k3"] live3 show ?thesis by (auto simp: opened_def split: if_splits)
    qed
  qed
qed

lemma listen_loop_opened: "listen_loop p ais k = (fd, k') \<Longrightarrow> opened fd k k'"
proof (induction ais arbitrary: k)
  case Nil
  then show ?case by (simp add: opened_def)
next
  case (Cons ai ais)
  obtain s k1 where s: "sys_socket p ai k = (s, k1)" by fastforce
  obtain b k2 where b: "sys_bind p s ai (sys_set_reuseaddr p s k1) = (b, k2)" by fastforce
  obtain l k3 where l: "(if b then sys_listen p s k2 else (False, k2)) = (l, k3)" by fastforce
  show ?case
  proof (cases "s < 0")
    case True
    with Cons.prems s have "listen_loop p ais k1 = (fd, k')" by simp
    with Cons.IH [of k1] socket_err [OF s True] show ?thesis by (simp add: opened_def split: if_splits)
  next
    case False
    have "live k3 = live k2" using l by (auto split: if_splits dest: listen_fds)
    with socket_ok [OF s False] bind_fds [OF b]
    have live3: "s \<notin> live k" "live k3 = insert s (live k)" by auto
    show ?thesis
    proof (cases "b \<and> l")
      case True
      with Cons.prems s False b l have "fd = s" "k' = k3" by (auto simp: Let_def)
      with live3 False show ?thesis by (simp add: opened_def kInvalidSocket_def)
    next
      case nbl: False
      with Cons.prems s False b l have "listen_loop p ais (sys_close p s k3) = (fd, k')"
        by (auto simp: Let_def)
      with Cons.IH [of "sys_close p s k3"] live3 show ?thesis by (auto simp: opened_def split: if_splits)
    qed
  qed
qed

lemma connect_fds_balance:
  assumes "TcpSocket_connect p address timeout k = (r, k')"
  shows "case r of Inl ec \<Rightarrow> ec_fails ec \<and> live k' = live k
         | Inr sock \<Rightarrow> sock_fd sock \<notin> live k \<and> live k' = insert (sock_fd sock) (live k)"
proof -
  have clr: "live (TcpSocket_clear_deadline p sock k) = live k" for sock k
    by (simp add: TcpSocket_clear_deadline_def TcpSocket_set_deadline_def Let_def)
  show ?thesis
    using assms unfolding TcpSocket_connect_def ensure_sockets_initialized_def
    by (auto simp: Let_def clr opened_def split: option.splits prod.splits if_splits
        dest!: getaddrinfo_fds connect_loop_opened)
qed

lemma listen_fds_balance:
  assumes "TcpListener_listen p address k = (r, k')"
  shows "case r of Inl ec \<Rightarrow> ec_fails ec \<and> live k' = live k
         | Inr ln \<Rightarrow> ln_fd ln \<notin> live k \<and> live k' = insert (ln_fd ln) (live k)"
  using assms unfolding TcpListener_listen_def ensure_sockets_initialized_def
  by (auto simp: Let_def opened_def split: option.splits prod.splits if_splits
      dest!: getaddrinfo_fds listen_loop_opened)

lemma stream_ops_fds:
  "TcpSocket_read_exact p sock n k = (r, k') \<Longrightarrow> live k' = live k"
  "TcpSocket_write_all p sock b k = (ec, k') \<Longrightarrow> live k' = live k"
  unfolding TcpSocket_read_exact_def TcpSocket_write_all_def
  by (auto elim!: read_loop_frame [rotated] write_loop_frame [rotated] dest: recv_fds send_fds)

lemma deadline_fds [simp]:
  "live (TcpSocket_set_deadline p t sock k) = live k"
  "live (TcpSocket_clear_deadline p sock k) = live k"
  by (simp_all add: TcpSocket_clear_deadline_def TcpSocket_set_deadline_def Let_def)

lemma handshake_msg_fds:
  "write_handshake (SocketStream p sock) v pub k = (ec, k') \<Longrightarrow> live k' = live k"
  "read_handshake (SocketStream p sock) k = (r, k') \<Longrightarrow> live k' = live k"
  by (auto simp: write_handshake_def read_handshake_def SocketStream_def Let_def
      split: if_splits prod.splits sum.splits dest!: stream_ops_fds)

lemma record_fds:
  "write_record (SocketStream p sock) t x k = (ec, k') \<Longrightarrow> live k' = live k"
  "read_record (SocketStream p sock) k = (r, k') \<Longrightarrow> live k' = live k"
  by (auto simp: write_record_def read_record_def SocketStream_def Let_def
      split: if_splits prod.splits sum.splits dest!: stream_ops_fds)

end

section \<open>A concrete kernel\<close>

text \<open>
  A deterministic kernel that satisfies both contracts: the segments still to be received, the
  bytes accepted so far, how many bytes each of the next \<open>send\<close> calls accepts (0: the peer has
  gone), and the open descriptors. Every address connects.
\<close>

record script_kernel =
  rx_segments :: "bytes list"
  tx_log :: bytes
  tx_limits :: "nat list"
  fd_table :: "int set"
  next_fd :: nat

definition script_recv :: "int \<Rightarrow> nat \<Rightarrow> script_kernel \<Rightarrow> recv_result \<times> script_kernel" where
  "script_recv fd n k =
    (if fd < 0 then (RecvFail, k) else case rx_segments k of
       [] \<Rightarrow> (RecvBytes [], k)
     | seg # segs \<Rightarrow>
         (RecvBytes (take n seg), k\<lparr>rx_segments := (if length seg \<le> n then segs else drop n seg # segs)\<rparr>))"

definition script_send :: "int \<Rightarrow> bytes \<Rightarrow> script_kernel \<Rightarrow> send_result \<times> script_kernel" where
  "script_send fd b k =
    (if fd < 0 then (SendFail, k) else case tx_limits k of
       [] \<Rightarrow> (SendCount (length b), k\<lparr>tx_log := tx_log k @ b\<rparr>)
     | l # ls \<Rightarrow>
         if l = 0 then (SendFail, k\<lparr>tx_limits := ls\<rparr>)
         else (SendCount (min l (length b)), k\<lparr>tx_log := tx_log k @ take (min l (length b)) b, tx_limits := ls\<rparr>))"

definition script_open :: "script_kernel \<Rightarrow> int \<times> script_kernel" where
  "script_open k =
    (if int (next_fd k) \<in> fd_table k then (-1, k)
     else (int (next_fd k), k\<lparr>fd_table := insert (int (next_fd k)) (fd_table k), next_fd := Suc (next_fd k)\<rparr>))"

definition script_posix :: "(script_kernel, string \<times> string) posix" where
  "script_posix =
    \<lparr>sys_ignore_sigpipe_once = (\<lambda>k. k), sys_errno = (\<lambda>k. EPIPE), sys_recv = script_recv,
     sys_send = script_send, sys_close = (\<lambda>s k. k\<lparr>fd_table := fd_table k - {s}\<rparr>),
     sys_set_rcvtimeo = (\<lambda>s tv k. k), sys_set_sndtimeo = (\<lambda>s tv k. k),
     sys_set_reuseaddr = (\<lambda>s k. k),
     sys_getaddrinfo = (\<lambda>passive host port k. (Some [(case host of None \<Rightarrow> ''0.0.0.0'' | Some h \<Rightarrow> h, port)], k)),
     sys_socket = (\<lambda>ai k. script_open k), sys_connect = (\<lambda>s ai k. (True, k)),
     sys_bind = (\<lambda>s ai k. (True, k)), sys_listen = (\<lambda>s k. (True, k)),
     sys_accept = (\<lambda>l k. script_open k), sys_accept_blocks = (\<lambda>l k. False), sys_getsockname = (\<lambda>s k. None),
     sys_getpeername = (\<lambda>s k. None), sys_getnameinfo = (\<lambda>a. Some a), sys_is_inet6 = (\<lambda>a. False)\<rparr>"

lemma script_errno_fails: "ec_fails (last_socket_error script_posix k)"
  by (simp add: last_socket_error_def script_posix_def)

interpretation script: posix_stream script_posix fd "\<lambda>k. concat (rx_segments k)" tx_log
proof unfold_locales
  fix n k bs k'
  assume "sys_recv script_posix fd n k = (RecvBytes bs, k')"
  then show "length bs \<le> n \<and> concat (rx_segments k) = bs @ concat (rx_segments k')"
    by (auto simp: script_posix_def script_recv_def split: list.splits if_splits)
qed (auto simp: script_errno_fails, auto simp: script_posix_def script_send_def script_recv_def split: list.splits if_splits)

interpretation script: posix_conn script_posix 7 "\<lambda>k. concat (rx_segments k)" tx_log
  by unfold_locales
    (auto simp: script_errno_fails, auto simp: script_posix_def script_send_def script_recv_def kInvalidSocket_def
      split: list.splits if_splits)

interpretation script: posix_fds script_posix fd_table
  by unfold_locales
    (auto simp: script_posix_def script_open_def script_recv_def script_send_def
      split: list.splits if_splits)

section \<open>Addresses\<close>

lemma str_find_append: "c \<notin> set xs \<Longrightarrow> str_find c (xs @ c # ys) = Some (length xs)"
  by (induction xs) auto

lemma str_rfind_None: "str_rfind c xs = None \<longleftrightarrow> c \<notin> set xs"
  by (induction xs) (auto split: option.splits)

lemma str_rfind_append: "c \<notin> set ys \<Longrightarrow> str_rfind c (xs @ c # ys) = Some (length xs)"
  using str_rfind_None [of c ys] by (induction xs) auto

lemma str_rfind_Some:
  "str_rfind c xs = Some i \<Longrightarrow> i < length xs \<and> xs ! i = c \<and> c \<notin> set (drop (Suc i) xs)"
proof (induction xs arbitrary: i)
  case (Cons x xs)
  then show ?case
    using str_rfind_None [of c xs] by (cases "str_rfind c xs") (auto split: if_splits)
qed simp

lemma parse_host_port_bracket:
  assumes "CHR '']'' \<notin> set host" and "host \<noteq> []" and "port \<noteq> []"
  shows "parse_host_port (''['' @ host @ '']:'' @ port) = Some (host, port)"
proof -
  have "str_find (CHR '']'') ((CHR ''['' # host) @ CHR '']'' # CHR '':'' # port) = Some (Suc (length host))"
    using assms(1) by (subst str_find_append) auto
  with assms(2,3) show ?thesis
    by (simp add: parse_host_port_def nth_append)
qed

lemma parse_host_port_plain:
  assumes "CHR '':'' \<notin> set port" and "host \<noteq> []" and "host ! 0 \<noteq> CHR ''[''" and "port \<noteq> []"
  shows "parse_host_port (host @ '':'' @ port) = Some (host, port)"
  using assms str_rfind_append [OF assms(1), of host]
  by (simp add: parse_host_port_def nth_append)

section \<open>Properties\<close>

text \<open>
  C10. A record written to one end of a TCP connection and read at the other is the same record,
  however the two kernels split the byte stream: if \<open>write_record\<close> succeeds on the sending
  socket, and the bytes the receiving socket has to read start where the sender's stream stood
  before the write, then a successful \<open>read_record\<close> returns exactly that type byte and sealed
  payload and leaves the stream just behind the record.
\<close>

theorem tcp_record_exchange:
  assumes "posix_stream p1 fd1 inp1 out1" and "posix_stream p2 fd2 inp2 out2"
    and "write_record (SocketStream p1 \<lparr>sock_fd = fd1\<rparr>) t x k1 = (ec, k1')" and "\<not> ec_fails ec"
    and "out1 k1' @ r = out1 k1 @ inp2 k2"
    and "read_record (SocketStream p2 \<lparr>sock_fd = fd2\<rparr>) k2 = (Inr (t', x'), k2')"
  shows "t' = t \<and> x' = x \<and> inp2 k2' = r"
proof -
  have w: "record_fits x" "out1 k1' = out1 k1 @ record_bytes t x"
    using posix_stream.tcp_write_record_ok [OF assms(1,3,4)] by auto
  have r: "record_fits x'" "inp2 k2 = record_bytes t' x' @ inp2 k2'"
    using posix_stream.tcp_read_record_ok [OF assms(2,6)] by auto
  from w(2) r(2) assms(5) have "record_bytes t x @ r = record_bytes t' x' @ inp2 k2'" by simp
  from record_bytes_inj [OF this w(1) r(1)] show ?thesis by simp
qed

definition wk_tx :: script_kernel where
  "wk_tx = \<lparr>rx_segments = [], tx_log = [], tx_limits = [3, 1, 1], fd_table = {7}, next_fd = 8\<rparr>"

definition wk_rx :: script_kernel where
  "wk_rx = \<lparr>rx_segments = [[0, 0], [0, 3, 1], [9], [8, 77]], tx_log = [], tx_limits = [],
            fd_table = {9}, next_fd = 10\<rparr>"

lemma wk_tx_write:
  "write_record (SocketStream script_posix \<lparr>sock_fd = 7\<rparr>) 1 [9, 8] wk_tx =
     (NoError, wk_tx\<lparr>tx_log := [0, 0, 0, 3, 1, 9, 8], tx_limits := []\<rparr>)"
  by (simp add: wk_tx_def write_record_def SocketStream_def TcpSocket_write_all_def
      TcpSocket_write_loop.simps script_posix_def script_send_def put_be32_def)

lemma wk_rx_read:
  "read_record (SocketStream script_posix \<lparr>sock_fd = 9\<rparr>) wk_rx =
     (Inr (1, [9, 8]), wk_rx\<lparr>rx_segments := [[77]]\<rparr>)"
  by (simp add: wk_rx_def read_record_def SocketStream_def TcpSocket_read_exact_def
      TcpSocket_read_loop.simps script_posix_def script_recv_def get_be32_def
      kMaxRecordPayload_def Let_def)

theorem tcp_record_exchange_witness:
  "read_record (SocketStream script_posix \<lparr>sock_fd = 9\<rparr>) wk_rx =
     (Inr (1, [9, 8]), wk_rx\<lparr>rx_segments := [[77]]\<rparr>) \<and>
   (1 :: u8) = 1 \<and> [9, 8 :: u8] = [9, 8] \<and> concat (rx_segments (wk_rx\<lparr>rx_segments := [[77]]\<rparr>)) = [77]"
  using tcp_record_exchange [OF script.posix_stream_axioms script.posix_stream_axioms
      wk_tx_write _ _ wk_rx_read, of "[77]"] wk_rx_read
  by (simp add: wk_tx_def wk_rx_def)

text \<open>
  C34. Neither connecting nor listening leaks a descriptor: whichever of the resolved addresses
  fail at \<open>socket\<close>, \<open>connect\<close>, \<open>bind\<close> or \<open>listen\<close>, on failure the set of open descriptors is the
  one before the call and the error code is set, and on success exactly the returned descriptor
  is new.
\<close>

theorem connect_listen_no_fd_leak:
  assumes "posix_fds p live"
  shows "(case TcpSocket_connect p address timeout k of
            (Inl ec, k') \<Rightarrow> ec_fails ec \<and> live k' = live k
          | (Inr sock, k') \<Rightarrow> sock_fd sock \<notin> live k \<and> live k' = insert (sock_fd sock) (live k)) \<and>
         (case TcpListener_listen p address k of
            (Inl ec, k') \<Rightarrow> ec_fails ec \<and> live k' = live k
          | (Inr ln, k') \<Rightarrow> ln_fd ln \<notin> live k \<and> live k' = insert (ln_fd ln) (live k))"
  using posix_fds.connect_fds_balance [OF assms, of address timeout k]
    posix_fds.listen_fds_balance [OF assms, of address k]
  by (fastforce split: prod.splits sum.splits)

theorem connect_listen_no_fd_leak_witness:
  "(case TcpSocket_connect script_posix ''10.0.0.1:80'' 30000 wk_tx of
      (Inl ec, k') \<Rightarrow> ec_fails ec \<and> fd_table k' = fd_table wk_tx
    | (Inr sock, k') \<Rightarrow> sock_fd sock \<notin> fd_table wk_tx \<and> fd_table k' = insert (sock_fd sock) (fd_table wk_tx)) \<and>
   fst (TcpSocket_connect script_posix ''10.0.0.1:80'' 30000 wk_tx) = Inr \<lparr>sock_fd = 8\<rparr>"
  using connect_listen_no_fd_leak [OF script.posix_fds_axioms, where address = "''10.0.0.1:80''" and timeout = 30000 and k = wk_tx]
  by (simp add: wk_tx_def TcpSocket_connect_def ensure_sockets_initialized_def script_posix_def
      parse_host_port_def script_open_def kInvalidSocket_def TcpSocket_clear_deadline_def
      TcpSocket_set_deadline_def TcpSocket_valid_def)

text \<open>
  The address text a listener or socket reports can be dialled: \<open>parse_host_port\<close> recovers
  host and service from \<open>sockaddr_to_string\<close>, bracketed IPv6 and plain forms alike, for every
  numeric host and service text the resolver gives.
\<close>

theorem sockaddr_text_roundtrip:
  assumes "sys_getnameinfo p sa = Some (host, serv)"
    and "host \<noteq> []" and "serv \<noteq> []" and "CHR '':'' \<notin> set serv"
    and "sys_is_inet6 p sa \<longrightarrow> CHR '']'' \<notin> set host"
    and "\<not> sys_is_inet6 p sa \<longrightarrow> host ! 0 \<noteq> CHR ''[''"
  shows "parse_host_port (sockaddr_to_string p sa) = Some (host, serv)"
  using assms parse_host_port_bracket [of host serv] parse_host_port_plain [of serv host]
  by (auto simp: sockaddr_to_string_def)

theorem sockaddr_text_roundtrip_witness:
  "parse_host_port (sockaddr_to_string (script_posix\<lparr>sys_is_inet6 := (\<lambda>_. True)\<rparr>) (''::1'', ''9090'')) =
     Some (''::1'', ''9090'') \<and>
   sockaddr_to_string (script_posix\<lparr>sys_is_inet6 := (\<lambda>_. True)\<rparr>) (''::1'', ''9090'') = ''[::1]:9090''"
  using sockaddr_text_roundtrip [of "script_posix\<lparr>sys_is_inet6 := (\<lambda>_. True)\<rparr>" "(''::1'', ''9090'')" "''::1''" "''9090''"]
  by (simp add: script_posix_def sockaddr_to_string_def)

end
