(* ===== verification/Tdx_Handshake.thy ===== *)
theory Tdx_Handshake
  imports Tdx_Session Tdx_Socket
begin

text \<open>
  The key exchange of \<^verbatim>\<open>src/crypto/handshake.cpp\<close>, \<^verbatim>\<open>src/crypto/x25519.cpp\<close> and
  \<^verbatim>\<open>src/fingerprint.cpp\<close>: the client sends version and public key first, the server answers with the same
  version and its key, both check the peer's fingerprint if one is pinned and derive the session
  key from the X25519 secret and the PSK. The transport is any \<open>byte_stream\<close>.
\<close>

section \<open>Generator, key agreement, fingerprint\<close>

text \<open>\<open>struct Drbg\<close>: seeded by the constructor.\<close>

record 'r drbg =
  drbg_ok :: bool
  drbg_ctr :: 'r

definition Drbg_init :: "('h, 'r) crypto_lib \<Rightarrow> 'r \<Rightarrow> 'r drbg" where
  "Drbg_init lib entropy =
    (let (ok, ctr) = ctr_drbg_seed lib ''cpptcpduplex'' entropy in \<lparr>drbg_ok = ok, drbg_ctr = ctr\<rparr>)"

definition Drbg_fill :: "('h, 'r) crypto_lib \<Rightarrow> nat \<Rightarrow> 'r drbg \<Rightarrow> (error_code + bytes) \<times> 'r drbg" where
  "Drbg_fill lib n rng =
    (if \<not> drbg_ok rng then (Inl (DuplexEc errc_io_error), rng)
     else
       let (out, ctr) = ctr_drbg_random lib n (drbg_ctr rng) in
       (case out of None \<Rightarrow> Inl (DuplexEc errc_io_error) | Some b \<Rightarrow> Inr b, rng\<lparr>drbg_ctr := ctr\<rparr>))"

definition x25519_public_from_private :: "('h, 'r) crypto_lib \<Rightarrow> bytes \<Rightarrow> bytes" where
  "x25519_public_from_private lib priv = crypto_x25519_public_key lib priv"

definition x25519_shared_secret :: "('h, 'r) crypto_lib \<Rightarrow> bytes \<Rightarrow> bytes \<Rightarrow> bytes" where
  "x25519_shared_secret lib priv peer_pub = crypto_x25519 lib priv peer_pub"

definition fingerprint_sha256 :: "('h, 'r) crypto_lib \<Rightarrow> bytes \<Rightarrow> bytes" where
  "fingerprint_sha256 lib pub_key = mbedtls_sha256 lib pub_key"

definition peer_public_key_fingerprint :: "('h, 'r) crypto_lib \<Rightarrow> bytes \<Rightarrow> bytes" where
  "peer_public_key_fingerprint lib pub_key = fingerprint_sha256 lib pub_key"

section \<open>The two sides\<close>

record handshake_opts =
  pre_shared_key :: bytes
  expected_peer_pubkey_sha256 :: "bytes option"

text \<open>\<open>opts && opts->expected_peer_pubkey_sha256\<close> and the comparison with the fingerprint.\<close>

definition fingerprint_mismatch :: "('h, 'r) crypto_lib \<Rightarrow> handshake_opts option \<Rightarrow> bytes \<Rightarrow> bool" where
  "fingerprint_mismatch lib opts peer_pub =
    (case opts of
       None \<Rightarrow> False
     | Some o' \<Rightarrow>
         (case expected_peer_pubkey_sha256 o' of
            None \<Rightarrow> False
          | Some fp \<Rightarrow> fingerprint_sha256 lib peer_pub \<noteq> fp))"

definition opts_psk :: "handshake_opts option \<Rightarrow> bytes" where
  "opts_psk opts = (case opts of None \<Rightarrow> [] | Some o' \<Rightarrow> pre_shared_key o')"

definition client_handshake ::
  "('h, 'r) crypto_lib \<Rightarrow> 's byte_stream \<Rightarrow> u16 \<Rightarrow> handshake_opts option \<Rightarrow> 'r \<Rightarrow> 's \<Rightarrow>
   (error_code + session) \<times> 's" where
  "client_handshake lib rw negotiated_version opts entropy s =
    (case Drbg_fill lib 32 (Drbg_init lib entropy) of
       (Inl ec, rng) \<Rightarrow> (Inl ec, s)
     | (Inr priv, rng) \<Rightarrow>
         let pub = x25519_public_from_private lib priv;
             (ec, s) = write_handshake rw negotiated_version pub s
         in if ec_fails ec then (Inl ec, s)
            else (case read_handshake rw s of
                (Inl ec, s) \<Rightarrow> (Inl ec, s)
              | (Inr (peer_ver, peer_pub), s) \<Rightarrow>
                  if peer_ver \<noteq> negotiated_version \<or> length peer_pub \<noteq> 32
                  then (Inl (DuplexEc errc_handshake_authentication), s)
                  else if fingerprint_mismatch lib opts peer_pub
                  then (Inl (DuplexEc errc_peer_fingerprint_mismatch), s)
                  else
                    let shared = x25519_shared_secret lib priv peer_pub
                    in (Session_create lib shared (opts_psk opts), s)))"

text \<open>The result also carries the out-parameter \<open>negotiated_version\<close>.\<close>

definition server_handshake ::
  "('h, 'r) crypto_lib \<Rightarrow> 's byte_stream \<Rightarrow> handshake_opts option \<Rightarrow> 'r \<Rightarrow> 's \<Rightarrow>
   (error_code + session \<times> u16) \<times> 's" where
  "server_handshake lib rw opts entropy s =
    (case Drbg_fill lib 32 (Drbg_init lib entropy) of
       (Inl ec, rng) \<Rightarrow> (Inl ec, s)
     | (Inr priv, rng) \<Rightarrow>
         let pub = x25519_public_from_private lib priv in
         (case read_handshake rw s of
            (Inl ec, s) \<Rightarrow> (Inl ec, s)
          | (Inr (negotiated_version, peer_pub), s) \<Rightarrow>
              if length peer_pub \<noteq> 32 then (Inl (DuplexEc errc_bad_handshake), s)
              else if fingerprint_mismatch lib opts peer_pub
              then (Inl (DuplexEc errc_peer_fingerprint_mismatch), s)
              else
                let shared = x25519_shared_secret lib priv peer_pub;
                    (ec, s) = write_handshake rw negotiated_version pub s
                in if ec_fails ec then (Inl ec, s)
                   else (case Session_create lib shared (opts_psk opts) of
                       Inl ec \<Rightarrow> (Inl ec, s)
                     | Inr sess \<Rightarrow> (Inr (sess, negotiated_version), s))))"

section \<open>What a completed handshake has exchanged\<close>

lemma client_handshake_cases:
  assumes "client_handshake lib rw v opts ent s = (Inr sess, s')"
  obtains priv rng ec s1 peer_pub where
    "Drbg_fill lib 32 (Drbg_init lib ent) = (Inr priv, rng)"
    and "write_handshake rw v (crypto_x25519_public_key lib priv) s = (ec, s1)" and "\<not> ec_fails ec"
    and "read_handshake rw s1 = (Inr (v, peer_pub), s')"
    and "\<not> fingerprint_mismatch lib opts peer_pub"
    and "session_key sess = derive_session_key lib (crypto_x25519 lib priv peer_pub) (opts_psk opts)"
  using assms unfolding client_handshake_def
  by (auto simp: Let_def x25519_public_from_private_def x25519_shared_secret_def Session_create_def
      split: prod.splits sum.splits if_splits)

lemma server_handshake_cases:
  assumes "server_handshake lib rw opts ent s = (Inr (sess, v), s')"
  obtains priv rng ec s1 peer_pub where
    "Drbg_fill lib 32 (Drbg_init lib ent) = (Inr priv, rng)"
    and "read_handshake rw s = (Inr (v, peer_pub), s1)"
    and "\<not> fingerprint_mismatch lib opts peer_pub"
    and "write_handshake rw v (crypto_x25519_public_key lib priv) s1 = (ec, s')" and "\<not> ec_fails ec"
    and "session_key sess = derive_session_key lib (crypto_x25519 lib priv peer_pub) (opts_psk opts)"
  using assms unfolding server_handshake_def
  by (auto simp: Let_def x25519_public_from_private_def x25519_shared_secret_def Session_create_def
      split: prod.splits sum.splits if_splits)

text \<open>The bytes each side puts on and takes off a full-duplex transport.\<close>

context duplex_stream
begin

lemma client_handshake_wire:
  assumes "client_handshake lib rw v opts ent s = (Inr sess, s')"
  obtains priv peer_pub where
    "out s' = out s @ handshake_bytes v (crypto_x25519_public_key lib priv)"
    and "inp s = handshake_bytes v peer_pub @ inp s'"
    and "length (crypto_x25519_public_key lib priv) = 32" and "length peer_pub = 32"
    and "\<not> fingerprint_mismatch lib opts peer_pub"
    and "session_key sess = derive_session_key lib (crypto_x25519 lib priv peer_pub) (opts_psk opts)"
proof -
  from assms obtain priv rng ec s1 peer_pub where
      w: "write_handshake rw v (crypto_x25519_public_key lib priv) s = (ec, s1)" "\<not> ec_fails ec"
    and r: "read_handshake rw s1 = (Inr (v, peer_pub), s')"
    and rest: "\<not> fingerprint_mismatch lib opts peer_pub"
      "session_key sess = derive_session_key lib (crypto_x25519 lib priv peer_pub) (opts_psk opts)"
    by (rule client_handshake_cases)
  from write_handshake_ok [OF w] write_handshake_keeps_inp [OF w(1)]
    read_handshake_ok [OF r] read_handshake_keeps_out [OF r] rest
  show ?thesis by (intro that [of priv peer_pub]) (simp_all add: kX25519PubKeyLen_def)
qed

lemma server_handshake_wire:
  assumes "server_handshake lib rw opts ent s = (Inr (sess, v), s')"
  obtains priv peer_pub where
    "out s' = out s @ handshake_bytes v (crypto_x25519_public_key lib priv)"
    and "inp s = handshake_bytes v peer_pub @ inp s'"
    and "length (crypto_x25519_public_key lib priv) = 32" and "length peer_pub = 32"
    and "\<not> fingerprint_mismatch lib opts peer_pub"
    and "session_key sess = derive_session_key lib (crypto_x25519 lib priv peer_pub) (opts_psk opts)"
proof -
  from assms obtain priv rng ec s1 peer_pub where
      r: "read_handshake rw s = (Inr (v, peer_pub), s1)"
    and w: "write_handshake rw v (crypto_x25519_public_key lib priv) s1 = (ec, s')" "\<not> ec_fails ec"
    and rest: "\<not> fingerprint_mismatch lib opts peer_pub"
      "session_key sess = derive_session_key lib (crypto_x25519 lib priv peer_pub) (opts_psk opts)"
    by (rule server_handshake_cases)
  from write_handshake_ok [OF w] write_handshake_keeps_inp [OF w(1)]
    read_handshake_ok [OF r] read_handshake_keeps_out [OF r] rest
  show ?thesis by (intro that [of priv peer_pub]) (simp_all add: kX25519PubKeyLen_def)
qed

end

section \<open>Properties\<close>

definition wh_client :: script_kernel where
  "wh_client = \<lparr>rx_segments = [[84, 68, 88, 49, 0], [1], replicate 32 9], tx_log = [], tx_limits = [4],
                fd_table = {7}, next_fd = 8\<rparr>"

definition wh_server :: script_kernel where
  "wh_server = \<lparr>rx_segments = [[84, 68, 88, 49, 0, 1], replicate 32 3, [99]], tx_log = [], tx_limits = [],
                fd_table = {7}, next_fd = 8\<rparr>"

definition wh_opts :: handshake_opts where
  "wh_opts = \<lparr>pre_shared_key = [], expected_peer_pubkey_sha256 = Some (replicate 32 9)\<rparr>"

lemmas wh_defs = wh_client_def wh_server_def wh_opts_def client_handshake_def server_handshake_def
  Drbg_fill_def Drbg_init_def demo_lib_def write_handshake_def read_handshake_def supports_version_def
  kX25519PubKeyLen_def kMagic_def put_be16_def get_be16_def SocketStream_def TcpSocket_write_all_def
  TcpSocket_read_exact_def TcpSocket_write_loop.simps TcpSocket_read_loop.simps script_posix_def
  script_send_def script_recv_def x25519_public_from_private_def x25519_shared_secret_def
  Session_create_def derive_session_key_def opts_psk_def fingerprint_mismatch_def pad32_def
  fingerprint_sha256_def

lemma wh_client_run:
  "client_handshake demo_lib (SocketStream script_posix \<lparr>sock_fd = 7\<rparr>) 1 (Some wh_opts) 3 wh_client =
     (Inr \<lparr>session_key = replicate 32 10\<rparr>,
      wh_client\<lparr>rx_segments := [], tx_log := [84, 68, 88, 49, 0, 1] @ replicate 32 3, tx_limits := []\<rparr>)"
  by (simp add: wh_defs)

lemma wh_server_run:
  "server_handshake demo_lib (SocketStream script_posix \<lparr>sock_fd = 7\<rparr>) None 9 wh_server =
     (Inr (\<lparr>session_key = replicate 32 10\<rparr>, 1),
      wh_server\<lparr>rx_segments := [[99]], tx_log := [84, 68, 88, 49, 0, 1] @ replicate 32 9\<rparr>)"
  by (simp add: wh_defs)


text \<open>The keys of two completed handshakes.\<close>

lemma handshake_keys_agree:
  assumes "crypto_api lib"
    and "duplex_stream rwc outc inpc" and "duplex_stream rws outs inps"
    and "client_handshake lib rwc v optsc entc c = (Inr sessc, c')"
    and "server_handshake lib rws optss ents d = (Inr (sesss, v'), d')"
    and "outc c' = outc c @ wc" and "inps d = wc @ rs"
    and "outs d' = outs d @ ws" and "inpc c = ws @ rc"
    and "opts_psk optsc = opts_psk optss"
  shows "v' = v \<and> sesss = sessc \<and> length (session_key sessc) = 32"
proof -
  from duplex_stream.client_handshake_wire [OF assms(2,4)] obtain a qs where
      c: "outc c' = outc c @ handshake_bytes v (crypto_x25519_public_key lib a)"
      "inpc c = handshake_bytes v qs @ inpc c'"
      "length (crypto_x25519_public_key lib a) = 32" "length qs = 32"
    and kc: "session_key sessc = derive_session_key lib (crypto_x25519 lib a qs) (opts_psk optsc)" .
  from duplex_stream.server_handshake_wire [OF assms(3,5)] obtain b qc where
      s: "outs d' = outs d @ handshake_bytes v' (crypto_x25519_public_key lib b)"
      "inps d = handshake_bytes v' qc @ inps d'"
      "length (crypto_x25519_public_key lib b) = 32" "length qc = 32"
    and ks: "session_key sesss = derive_session_key lib (crypto_x25519 lib b qc) (opts_psk optss)" .
  have "v = v' \<and> crypto_x25519_public_key lib a = qc"
    using handshake_bytes_inj [of v "crypto_x25519_public_key lib a" rs v' qc "inps d'"]
      c(1,3) s(2,4) assms(6,7) by simp
  moreover have "crypto_x25519_public_key lib b = qs"
    using handshake_bytes_inj [of v' "crypto_x25519_public_key lib b" rc v qs "inpc c'"]
      s(1,3) c(2,4) assms(8,9) by simp
  ultimately have "crypto_x25519 lib b qc = crypto_x25519 lib a qs"
    using crypto_api.x25519_commutes [OF assms(1)] by auto
  with kc ks assms(10) have "session_key sesss = session_key sessc" by simp
  with \<open>v = v' \<and> _\<close> kc crypto_api.key_len [OF assms(1)] show ?thesis by simp
qed

text \<open>
  C28. Key agreement: when a client and a server both complete the handshake over full-duplex
  transports, each having read what the other wrote, they agree on the protocol version, and if
  they were given the same PSK (or both none) they hold the same 32-byte session key.
\<close>

theorem handshake_agreement:
  assumes "crypto_api lib"
    and "duplex_stream rwc outc inpc" and "duplex_stream rws outs inps"
    and "client_handshake lib rwc v optsc entc c = (Inr sessc, c')"
    and "server_handshake lib rws optss ents d = (Inr (sesss, v'), d')"
    and "outc c' = outc c @ wc" and "inps d = wc @ rs"
    and "outs d' = outs d @ ws" and "inpc c = ws @ rc"
    and "opts_psk optsc = opts_psk optss"
  shows "v' = v \<and> sesss = sessc \<and> length (session_key sessc) = 32"
  by (rule handshake_keys_agree [OF assms])

theorem handshake_agreement_witness:
  "client_handshake demo_lib (SocketStream script_posix \<lparr>sock_fd = 7\<rparr>) 1 (Some wh_opts) 3 wh_client =
     (Inr \<lparr>session_key = replicate 32 10\<rparr>,
      wh_client\<lparr>rx_segments := [], tx_log := [84, 68, 88, 49, 0, 1] @ replicate 32 3, tx_limits := []\<rparr>) \<and>
   (1 :: u16) = 1 \<and> length (session_key \<lparr>session_key = replicate 32 (10 :: u8)\<rparr>) = 32"
  using handshake_agreement [OF demo.crypto_api_axioms script.duplex_stream_axioms
      script.duplex_stream_axioms wh_client_run wh_server_run,
      of "[84, 68, 88, 49, 0, 1] @ replicate 32 3" "[99]" "[84, 68, 88, 49, 0, 1] @ replicate 32 9" "[]"]
    wh_client_run
  by (simp add: wh_client_def wh_server_def wh_opts_def opts_psk_def)

text \<open>
  C29. Pinning: a handshake that completes with a pinned fingerprint, on either side, has read a
  peer key whose SHA-256 is that fingerprint; the peer's key is the one the session was derived
  from.
\<close>

theorem handshake_pins_peer_key:
  assumes "duplex_stream rw out inp" and "expected_peer_pubkey_sha256 o' = Some fp"
    and "client_handshake lib rw v (Some o') ent s = (Inr sess, s') \<or>
         server_handshake lib rw (Some o') ent s = (Inr (sess, v), s')"
  shows "\<exists>priv peer_pub. inp s = handshake_bytes v peer_pub @ inp s' \<and>
           fingerprint_sha256 lib peer_pub = fp \<and>
           session_key sess =
             derive_session_key lib (crypto_x25519 lib priv peer_pub) (pre_shared_key o')"
  using assms(3)
proof
  assume "client_handshake lib rw v (Some o') ent s = (Inr sess, s')"
  from duplex_stream.client_handshake_wire [OF assms(1) this] obtain priv peer_pub where
      "inp s = handshake_bytes v peer_pub @ inp s'" "\<not> fingerprint_mismatch lib (Some o') peer_pub"
      "session_key sess = derive_session_key lib (crypto_x25519 lib priv peer_pub) (opts_psk (Some o'))" .
  with assms(2) show ?thesis by (auto simp: fingerprint_mismatch_def opts_psk_def)
next
  assume "server_handshake lib rw (Some o') ent s = (Inr (sess, v), s')"
  from duplex_stream.server_handshake_wire [OF assms(1) this] obtain priv peer_pub where
      "inp s = handshake_bytes v peer_pub @ inp s'" "\<not> fingerprint_mismatch lib (Some o') peer_pub"
      "session_key sess = derive_session_key lib (crypto_x25519 lib priv peer_pub) (opts_psk (Some o'))" .
  with assms(2) show ?thesis by (auto simp: fingerprint_mismatch_def opts_psk_def)
qed

theorem handshake_pins_peer_key_witness:
  "\<exists>priv peer_pub. concat (rx_segments wh_client) = handshake_bytes 1 peer_pub \<and>
     fingerprint_sha256 demo_lib peer_pub = replicate 32 9 \<and>
     replicate 32 10 = derive_session_key demo_lib (crypto_x25519 demo_lib priv peer_pub) []"
  using handshake_pins_peer_key [OF script.duplex_stream_axioms _ disjI1 [OF wh_client_run], of "replicate 32 9"]
  by (simp add: wh_opts_def)

end
