(* ===== verification/Tdx_Config.thy ===== *)
theory Tdx_Config
  imports Tdx_Handshake
begin

text \<open>
  \<^verbatim>\<open>src/config.cpp\<close>: the user-facing \<open>Config\<close>, its defaults and the frozen copy a connection
  works with. Durations are milliseconds as \<open>int\<close>; a \<open>std::function\<close> that may be empty is an
  \<open>option\<close> of an abstract callback \<open>'cb\<close>.
\<close>

section \<open>Data\<close>

record handshake_auth =
  auth_pre_shared_key :: bytes
  auth_expected_peer_pubkey_sha256 :: "bytes option"

record 'cb Config =
  dial_timeout :: int
  handshake_timeout :: int
  protocol_version :: u16
  max_message_bytes :: int
  send_queue_depth :: int
  receive_queue_depth :: int
  on_message :: "'cb option"
  on_message_buffer_depth :: int
  disconnect_on_slow_callback_consumer :: bool
  handshake :: handshake_auth

text \<open>\<open>FrozenConfig\<close> has the same fields.\<close>

type_synonym 'cb FrozenConfig = "'cb Config"

section \<open>Operations\<close>

definition default_config :: "'cb Config" where
  "default_config =
    \<lparr>dial_timeout = 30000, handshake_timeout = 15000, protocol_version = kCurrentProtocolVersion,
     max_message_bytes = 512 * 2 ^ 10, send_queue_depth = 256, receive_queue_depth = 256,
     on_message = None, on_message_buffer_depth = 128,
     disconnect_on_slow_callback_consumer = False,
     handshake = \<lparr>auth_pre_shared_key = [], auth_expected_peer_pubkey_sha256 = None\<rparr>\<rparr>"

definition freeze_config :: "'cb Config option \<Rightarrow> 'cb FrozenConfig" where
  "freeze_config cfg =
    (let d = default_config;
         src = (case cfg of None \<Rightarrow> d | Some c \<Rightarrow> c);
         depth = on_message_buffer_depth src
     in \<lparr>dial_timeout = (if dial_timeout src \<le> 0 then dial_timeout d else dial_timeout src),
         handshake_timeout =
           (if handshake_timeout src \<le> 0 then handshake_timeout d else handshake_timeout src),
         protocol_version =
           (if protocol_version src = 0 then protocol_version d else protocol_version src),
         max_message_bytes =
           (if max_message_bytes src \<le> 0 then max_message_bytes d else max_message_bytes src),
         send_queue_depth =
           (if send_queue_depth src \<le> 0 then send_queue_depth d else send_queue_depth src),
         receive_queue_depth =
           (if receive_queue_depth src \<le> 0 then receive_queue_depth d else receive_queue_depth src),
         on_message = on_message src,
         on_message_buffer_depth =
           (if on_message src \<noteq> None \<and> depth \<le> 0 then on_message_buffer_depth d else depth),
         disconnect_on_slow_callback_consumer = disconnect_on_slow_callback_consumer src,
         handshake = Config.handshake src\<rparr>)"

definition handshake_opts_of :: "'cb FrozenConfig \<Rightarrow> handshake_opts" where
  "handshake_opts_of f =
    \<lparr>pre_shared_key = auth_pre_shared_key (Config.handshake f),
     expected_peer_pubkey_sha256 = auth_expected_peer_pubkey_sha256 (Config.handshake f)\<rparr>"

section \<open>What a frozen configuration guarantees\<close>

definition config_ok :: "'cb FrozenConfig \<Rightarrow> bool" where
  "config_ok f \<longleftrightarrow> 0 < dial_timeout f \<and> 0 < handshake_timeout f \<and> protocol_version f \<noteq> 0 \<and>
     0 < max_message_bytes f \<and> 0 < send_queue_depth f \<and> 0 < receive_queue_depth f \<and>
     (on_message f = None \<or> 0 < on_message_buffer_depth f)"

lemma freeze_config_ok [simp]: "config_ok (freeze_config cfg)"
  unfolding config_ok_def
  by (intro conjI)
    (simp_all add: freeze_config_def default_config_def kCurrentProtocolVersion_def Let_def)

lemma freeze_config_fixed:
  assumes "config_ok c"
  shows "freeze_config (Some c) = c"
proof (rule Config.equality)
  from assms have le: "\<not> dial_timeout c \<le> 0" "\<not> handshake_timeout c \<le> 0" "protocol_version c \<noteq> 0"
    "\<not> max_message_bytes c \<le> 0" "\<not> send_queue_depth c \<le> 0" "\<not> receive_queue_depth c \<le> 0"
    "\<not> (on_message c \<noteq> None \<and> on_message_buffer_depth c \<le> 0)"
    by (auto simp: config_ok_def)
  show "dial_timeout (freeze_config (Some c)) = dial_timeout c"
    and "handshake_timeout (freeze_config (Some c)) = handshake_timeout c"
    and "protocol_version (freeze_config (Some c)) = protocol_version c"
    and "max_message_bytes (freeze_config (Some c)) = max_message_bytes c"
    and "send_queue_depth (freeze_config (Some c)) = send_queue_depth c"
    and "receive_queue_depth (freeze_config (Some c)) = receive_queue_depth c"
    using le(1-6) by (simp_all add: freeze_config_def Let_def del: not_le)
  show "on_message_buffer_depth (freeze_config (Some c)) = on_message_buffer_depth c"
    using le(7) by (auto simp: freeze_config_def Let_def)
qed (simp_all add: freeze_config_def Let_def)

section \<open>Properties\<close>

text \<open>
  Freezing repairs every configuration and only what needs repair: the frozen configuration
  has positive timeouts, limits and queue depths, a non-zero version and, with a callback, a
  positive callback buffer; a configuration that already satisfies this is kept unchanged; and
  a null pointer gives the defaults. Freezing twice changes nothing.
\<close>

theorem freeze_config_repairs:
  "config_ok (freeze_config cfg) \<and>
   freeze_config (Some (freeze_config cfg)) = freeze_config cfg \<and>
   (config_ok c = (freeze_config (Some c) = c)) \<and>
   freeze_config None = default_config"
proof (intro conjI)
  show "config_ok (freeze_config cfg)" by simp
  then show "freeze_config (Some (freeze_config cfg)) = freeze_config cfg"
    by (rule freeze_config_fixed)
  show "config_ok c = (freeze_config (Some c) = c)"
    using freeze_config_fixed freeze_config_ok by metis
  have "config_ok default_config"
    by (simp add: config_ok_def default_config_def kCurrentProtocolVersion_def)
  from freeze_config_fixed [OF this] show "freeze_config None = default_config"
    by (simp add: freeze_config_def)
qed

end
