(* ===== verification/Tdx_Frames.thy ===== *)
theory Tdx_Frames
  imports Tdx_Errors
begin

text \<open>
  The transfer frames of \<^verbatim>\<open>src/transfer/transfer.cpp\<close> (magic \<open>TFX1\<close>): their encoders, the
  decoder \<open>decode_frame\<close> and the transfer identifiers. An \<open>ID\<close> is a 16-byte array, a hash a
  32-byte array; the encoders fill a buffer at fixed offsets, which for arrays of these sizes is
  the concatenation written here. The abstract \<open>frame\<close> type at the end is the specification the
  encoders and the decoder are compared with.
\<close>

section \<open>Data\<close>

definition kTypeOffer :: u8 where "kTypeOffer = 1"

definition kTypeAccept :: u8 where "kTypeAccept = 2"

definition kTypeReject :: u8 where "kTypeReject = 3"

definition kTypeChunk :: u8 where "kTypeChunk = 4"

definition kTypeAck :: u8 where "kTypeAck = 5"

definition kTypeDone :: u8 where "kTypeDone = 6"

definition kTypeAbort :: u8 where "kTypeAbort = 7"

text \<open>\<open>{'T', 'F', 'X', '1'}\<close>.\<close>

definition kTransferMagic :: bytes where "kTransferMagic = [0x54, 0x46, 0x58, 0x31]"

definition kHeaderLen :: nat where "kHeaderLen = 5"

definition kIdLen :: nat where "kIdLen = 16"

definition kOfferFixedLen :: nat where "kOfferFixedLen = kHeaderLen + kIdLen + 8 + 32 + 2"

definition kAcceptLen :: nat where "kAcceptLen = kHeaderLen + kIdLen + 8"

definition kChunkFixedLen :: nat where "kChunkFixedLen = kHeaderLen + kIdLen + 8"

definition kAckLen :: nat where "kAckLen = kHeaderLen + kIdLen + 8"

definition kDoneLen :: nat where "kDoneLen = kHeaderLen + kIdLen + 1 + 32"

definition kRejectFixedLen :: nat where "kRejectFixedLen = kHeaderLen + kIdLen + 2"

definition kAbortFixedLen :: nat where "kAbortFixedLen = kHeaderLen + kIdLen + 2"

definition kChunkOverhead :: nat where "kChunkOverhead = kChunkFixedLen"

text \<open>\<open>ID{}\<close> and the zero hash.\<close>

definition zero_id :: bytes where "zero_id = replicate 16 0"

definition zero_hash :: bytes where "zero_hash = replicate 32 0"

record meta =
  meta_id :: bytes
  meta_name :: string
  meta_size :: int
  meta_hash :: bytes

definition default_meta :: meta where
  "default_meta = \<lparr>meta_id = zero_id, meta_name = [], meta_size = 0, meta_hash = zero_hash\<rparr>"

record decoded =
  d_typ :: u8
  d_id :: bytes
  d_meta :: meta
  d_offset :: int
  d_data :: bytes
  d_ok :: bool
  d_hash :: bytes
  d_reason :: string

definition default_decoded :: decoded where
  "default_decoded = \<lparr>d_typ = 0, d_id = zero_id, d_meta = default_meta, d_offset = 0, d_data = [],
     d_ok = False, d_hash = zero_hash, d_reason = []\<rparr>"

definition is_zero_hash :: "bytes \<Rightarrow> bool" where
  "is_zero_hash h \<longleftrightarrow> list_all (\<lambda>b. b = 0) h"

section \<open>Encoders\<close>

definition encode_offer :: "meta \<Rightarrow> error_code + bytes" where
  "encode_offer m =
    (if meta_size m < 0 then Inl (TransferEc terrc_size_mismatch)
     else if length (meta_name m) > 0xffff then Inl (TransferEc terrc_bad_frame)
     else Inr (kTransferMagic @ [kTypeOffer] @ meta_id m @ put_be64 (u64_of_i64 (meta_size m)) @
               meta_hash m @ put_be16 (word_of_nat (length (meta_name m))) @
               bytes_of_string (meta_name m)))"

definition encode_accept :: "bytes \<Rightarrow> int \<Rightarrow> bytes" where
  "encode_accept tid resume = kTransferMagic @ [kTypeAccept] @ tid @ put_be64 (u64_of_i64 resume)"

definition encode_reject :: "bytes \<Rightarrow> string \<Rightarrow> bytes" where
  "encode_reject tid reason =
    (let r = (if length reason > 0xffff then take 0xffff reason else reason)
     in kTransferMagic @ [kTypeReject] @ tid @ put_be16 (word_of_nat (length r)) @ bytes_of_string r)"

definition encode_chunk :: "bytes \<Rightarrow> int \<Rightarrow> bytes \<Rightarrow> bytes" where
  "encode_chunk tid offset data =
     kTransferMagic @ [kTypeChunk] @ tid @ put_be64 (u64_of_i64 offset) @ data"

definition encode_ack :: "bytes \<Rightarrow> int \<Rightarrow> bytes" where
  "encode_ack tid cum = kTransferMagic @ [kTypeAck] @ tid @ put_be64 (u64_of_i64 cum)"

definition encode_done :: "bytes \<Rightarrow> bool \<Rightarrow> bytes \<Rightarrow> bytes" where
  "encode_done tid ok hash = kTransferMagic @ [kTypeDone] @ tid @ [if ok then 1 else 0] @ hash"

definition encode_abort :: "bytes \<Rightarrow> string \<Rightarrow> bytes" where
  "encode_abort tid reason =
    (let r = (if length reason > 0xffff then take 0xffff reason else reason)
     in kTransferMagic @ [kTypeAbort] @ tid @ put_be16 (word_of_nat (length r)) @ bytes_of_string r)"

text \<open>For evaluation, the length tests on integers instead of unary naturals.\<close>

lemma encode_offer_code [code]:
  "encode_offer m =
    (if meta_size m < 0 then Inl (TransferEc terrc_size_mismatch)
     else if int (length (meta_name m)) > 0xffff then Inl (TransferEc terrc_bad_frame)
     else Inr (kTransferMagic @ [kTypeOffer] @ meta_id m @ put_be64 (u64_of_i64 (meta_size m)) @
               meta_hash m @ put_be16 (word_of_nat (length (meta_name m))) @
               bytes_of_string (meta_name m)))"
  by (simp add: encode_offer_def)

lemma encode_text_code [code]:
  "encode_reject tid reason =
    (let r = (if int (length reason) > 0xffff then take 0xffff reason else reason)
     in kTransferMagic @ [kTypeReject] @ tid @ put_be16 (word_of_nat (length r)) @ bytes_of_string r)"
  "encode_abort tid reason =
    (let r = (if int (length reason) > 0xffff then take 0xffff reason else reason)
     in kTransferMagic @ [kTypeAbort] @ tid @ put_be16 (word_of_nat (length r)) @ bytes_of_string r)"
  by (simp_all add: encode_reject_def encode_abort_def)

section \<open>Decoder\<close>

text \<open>\<open>b.begin() + i\<close> up to \<open>b.begin() + j\<close>.\<close>

definition slice :: "nat \<Rightarrow> nat \<Rightarrow> bytes \<Rightarrow> bytes" where
  "slice i j b = take (j - i) (drop i b)"

definition decode_frame :: "bytes \<Rightarrow> error_code + decoded" where
  "decode_frame b =
    (let d = default_decoded; bad = Inl (TransferEc terrc_bad_frame) in
     if length b < kHeaderLen then bad
     else if b ! 0 \<noteq> kTransferMagic ! 0 \<or> b ! 1 \<noteq> kTransferMagic ! 1 \<or>
             b ! 2 \<noteq> kTransferMagic ! 2 \<or> b ! 3 \<noteq> kTransferMagic ! 3 then bad
     else
       let d = d\<lparr>d_typ := b ! 4\<rparr> in
       if d_typ d = kTypeOffer then
         if length b < kOfferFixedLen then bad
         else
           let d = d\<lparr>d_id := slice 5 21 b\<rparr>;
               m = (d_meta d)\<lparr>meta_id := d_id d, meta_size := i64_of_u64 (get_be64 (drop 21 b)),
                     meta_hash := slice 29 61 b\<rparr>;
               nlen = unat (get_be16 (drop 61 b))
           in if length b \<noteq> kOfferFixedLen + nlen then bad
              else Inr (d\<lparr>d_meta := m\<lparr>meta_name := string_of_bytes (take nlen (drop 63 b))\<rparr>\<rparr>)
       else if d_typ d = kTypeAccept then
         if length b \<noteq> kAcceptLen then bad
         else Inr (d\<lparr>d_id := slice 5 21 b, d_offset := i64_of_u64 (get_be64 (drop 21 b))\<rparr>)
       else if d_typ d = kTypeReject \<or> d_typ d = kTypeAbort then
         let fixed = (if d_typ d = kTypeReject then kRejectFixedLen else kAbortFixedLen) in
         if length b < fixed then bad
         else
           let d = d\<lparr>d_id := slice 5 21 b\<rparr>; nlen = unat (get_be16 (drop 21 b))
           in if length b \<noteq> fixed + nlen then bad
              else Inr (d\<lparr>d_reason := string_of_bytes (take nlen (drop 23 b))\<rparr>)
       else if d_typ d = kTypeChunk then
         if length b < kChunkFixedLen then bad
         else Inr (d\<lparr>d_id := slice 5 21 b, d_offset := i64_of_u64 (get_be64 (drop 21 b)),
                    d_data := drop 29 b\<rparr>)
       else if d_typ d = kTypeAck then
         if length b \<noteq> kAckLen then bad
         else Inr (d\<lparr>d_id := slice 5 21 b, d_offset := i64_of_u64 (get_be64 (drop 21 b))\<rparr>)
       else if d_typ d = kTypeDone then
         if length b \<noteq> kDoneLen then bad
         else Inr (d\<lparr>d_id := slice 5 21 b, d_ok := (b ! 21 \<noteq> 0), d_hash := slice 22 54 b\<rparr>)
       else bad)"

definition validate_frame :: "bytes \<Rightarrow> error_code" where
  "validate_frame b = (case decode_frame b of Inl ec \<Rightarrow> ec | Inr d \<Rightarrow> NoError)"

section \<open>Identifiers\<close>

text \<open>\<open>oss << std::hex << std::setfill('0') << std::setw(2) << b\<close>.\<close>

definition hex_digit :: "nat \<Rightarrow> char" where
  "hex_digit n = (if n < 10 then char_of (48 + n) else char_of (87 + n))"

definition id_to_string :: "bytes \<Rightarrow> string" where
  "id_to_string tid = concat (map (\<lambda>b. [hex_digit (unat b div 16), hex_digit (unat b mod 16)]) tid)"

definition hex_value :: "char \<Rightarrow> int" where
  "hex_value c =
    (let n = of_char c :: int in
     if 48 \<le> n \<and> n \<le> 57 then n - 48
     else if 97 \<le> n \<and> n \<le> 102 then n - 97 + 10
     else if 65 \<le> n \<and> n \<le> 70 then n - 65 + 10
     else -1)"

text \<open>The loop over the 16 pairs of digits.\<close>

fun parse_id_loop :: "string \<Rightarrow> bytes option" where
  "parse_id_loop (h # l # rest) =
    (let hi = hex_value h; lo = hex_value l in
     if hi < 0 \<or> lo < 0 then None
     else map_option (Cons (word_of_int (push_bit 4 hi OR lo))) (parse_id_loop rest))"
| "parse_id_loop _ = Some []"

definition parse_id :: "string \<Rightarrow> bytes option" where
  "parse_id s = (if length s \<noteq> 32 then None else parse_id_loop s)"

section \<open>Frames as a specification\<close>

datatype frame =
    Offer meta
  | Accept bytes int
  | Reject bytes string
  | Chunk bytes int bytes
  | Ack bytes int
  | Done bytes bool bytes
  | Abort bytes string

text \<open>The values a frame can carry: array sizes, 64-bit integers, 16-bit text lengths.\<close>

fun frame_wf :: "frame \<Rightarrow> bool" where
  "frame_wf (Offer m) = (length (meta_id m) = 16 \<and> length (meta_hash m) = 32 \<and>
     in_i64 (meta_size m) \<and> length (meta_name m) \<le> 0xffff)"
| "frame_wf (Accept i r) = (length i = 16 \<and> in_i64 r)"
| "frame_wf (Reject i r) = (length i = 16 \<and> length r \<le> 0xffff)"
| "frame_wf (Chunk i f d) = (length i = 16 \<and> in_i64 f)"
| "frame_wf (Ack i c) = (length i = 16 \<and> in_i64 c)"
| "frame_wf (Done i ok h) = (length i = 16 \<and> length h = 32)"
| "frame_wf (Abort i r) = (length i = 16 \<and> length r \<le> 0xffff)"

text \<open>The offer encoder refuses negative sizes; the layout itself does not.\<close>

definition offer_bytes :: "meta \<Rightarrow> bytes" where
  "offer_bytes m = kTransferMagic @ [kTypeOffer] @ meta_id m @ put_be64 (u64_of_i64 (meta_size m)) @
     meta_hash m @ put_be16 (word_of_nat (length (meta_name m))) @ bytes_of_string (meta_name m)"

fun encode_frame :: "frame \<Rightarrow> bytes" where
  "encode_frame (Offer m) = offer_bytes m"
| "encode_frame (Accept i r) = encode_accept i r"
| "encode_frame (Reject i r) = encode_reject i r"
| "encode_frame (Chunk i f d) = encode_chunk i f d"
| "encode_frame (Ack i c) = encode_ack i c"
| "encode_frame (Done i ok h) = encode_done i ok h"
| "encode_frame (Abort i r) = encode_abort i r"

fun decoded_of :: "frame \<Rightarrow> decoded" where
  "decoded_of (Offer m) = default_decoded\<lparr>d_typ := kTypeOffer, d_id := meta_id m, d_meta := m\<rparr>"
| "decoded_of (Accept i r) = default_decoded\<lparr>d_typ := kTypeAccept, d_id := i, d_offset := r\<rparr>"
| "decoded_of (Reject i r) = default_decoded\<lparr>d_typ := kTypeReject, d_id := i, d_reason := r\<rparr>"
| "decoded_of (Chunk i f d) =
     default_decoded\<lparr>d_typ := kTypeChunk, d_id := i, d_offset := f, d_data := d\<rparr>"
| "decoded_of (Ack i c) = default_decoded\<lparr>d_typ := kTypeAck, d_id := i, d_offset := c\<rparr>"
| "decoded_of (Done i ok h) = default_decoded\<lparr>d_typ := kTypeDone, d_id := i, d_ok := ok, d_hash := h\<rparr>"
| "decoded_of (Abort i r) = default_decoded\<lparr>d_typ := kTypeAbort, d_id := i, d_reason := r\<rparr>"

lemmas type_defs = kTypeOffer_def kTypeAccept_def kTypeReject_def kTypeChunk_def kTypeAck_def
  kTypeDone_def kTypeAbort_def

lemmas frame_len_defs = kHeaderLen_def kIdLen_def kOfferFixedLen_def kAcceptLen_def kChunkFixedLen_def
  kAckLen_def kDoneLen_def kRejectFixedLen_def kAbortFixedLen_def

text \<open>A frame is the magic, the type byte and a body; what the decoder does with it.\<close>

lemma unat_len16: "n \<le> 0xffff \<Longrightarrow> unat (word_of_nat n :: u16) = n"
  by (simp add: unsigned_of_nat take_bit_nat_eq_self)

lemmas decode_defs = decode_frame_def kTransferMagic_def type_defs frame_len_defs slice_def Let_def

lemma decode_encode_frame:
  assumes "frame_wf f"
  shows "decode_frame (encode_frame f) = Inr (decoded_of f)"
proof (cases f)
  case (Offer m)
  with assms show ?thesis
    by (simp add: decode_defs offer_bytes_def i64_of_u64_of_i64 unat_len16 default_decoded_def)
next
  case (Accept i r)
  with assms show ?thesis by (simp add: decode_defs encode_accept_def i64_of_u64_of_i64)
next
  case (Reject i r)
  with assms show ?thesis by (simp add: decode_defs encode_reject_def unat_len16)
next
  case (Chunk i f d)
  with assms show ?thesis by (simp add: decode_defs encode_chunk_def i64_of_u64_of_i64)
next
  case (Ack i c)
  with assms show ?thesis by (simp add: decode_defs encode_ack_def i64_of_u64_of_i64)
next
  case (Done i ok h)
  with assms show ?thesis by (simp add: decode_defs encode_done_def nth_append)
next
  case (Abort i r)
  with assms show ?thesis by (simp add: decode_defs encode_abort_def unat_len16)
qed

text \<open>The other direction: every buffer the decoder accepts is the encoding of a frame.\<close>

lemma frame_split:
  assumes "5 \<le> length b" and "b ! 0 = kTransferMagic ! 0" "b ! 1 = kTransferMagic ! 1"
    "b ! 2 = kTransferMagic ! 2" "b ! 3 = kTransferMagic ! 3"
  shows "b = kTransferMagic @ [b ! 4] @ drop 5 b"
proof -
  obtain x0 x1 x2 x3 x4 r where "b = x0 # x1 # x2 # x3 # x4 # r"
    using assms(1) by (auto simp: numeral_eq_Suc Suc_le_length_iff)
  with assms(2-) show ?thesis by (simp add: kTransferMagic_def)
qed

lemma slice_append: "i \<le> j \<Longrightarrow> slice i j b @ drop j b = drop i b"
  by (simp add: slice_def) (metis append_take_drop_id drop_drop le_add_diff_inverse2)

lemma length_slice [simp]: "j \<le> length b \<Longrightarrow> length (slice i j b) = j - i"
  by (simp add: slice_def)

text \<open>What the decoder has checked, branch by branch.\<close>

lemma decode_frame_header:
  assumes "decode_frame b = Inr d"
  shows "b = kTransferMagic @ [b ! 4] @ drop 5 b \<and> d_typ d = b ! 4 \<and>
    b ! 4 \<in> {kTypeOffer, kTypeAccept, kTypeReject, kTypeChunk, kTypeAck, kTypeDone, kTypeAbort}"
proof -
  have "\<not> length b < kHeaderLen" and
    m: "\<not> (b ! 0 \<noteq> kTransferMagic ! 0 \<or> b ! 1 \<noteq> kTransferMagic ! 1 \<or>
          b ! 2 \<noteq> kTransferMagic ! 2 \<or> b ! 3 \<noteq> kTransferMagic ! 3)"
    using assms by (auto simp: decode_frame_def Let_def split: if_splits)
  moreover have "d_typ d = b ! 4 \<and>
    b ! 4 \<in> {kTypeOffer, kTypeAccept, kTypeReject, kTypeChunk, kTypeAck, kTypeDone, kTypeAbort}"
    using assms by (auto simp: decode_frame_def Let_def split: if_splits)
  ultimately show ?thesis using frame_split [of b] by (simp add: kHeaderLen_def)
qed

lemma decode_fixed:
  assumes "decode_frame b = Inr d" and "b ! 4 = t" and "t = kTypeAccept \<or> t = kTypeAck"
  shows "length b = 29 \<and>
    d = default_decoded\<lparr>d_typ := t, d_id := slice 5 21 b, d_offset := i64_of_u64 (get_be64 (drop 21 b))\<rparr>"
  using assms by (auto simp: decode_frame_def Let_def type_defs frame_len_defs split: if_splits)

lemma decode_text:
  assumes "decode_frame b = Inr d" and "b ! 4 = t" and "t = kTypeReject \<or> t = kTypeAbort"
  shows "length b = 23 + unat (get_be16 (drop 21 b)) \<and>
    d = default_decoded\<lparr>d_typ := t, d_id := slice 5 21 b, d_reason := string_of_bytes (drop 23 b)\<rparr>"
proof -
  define n where "n = unat (get_be16 (drop 21 b))"
  from assms have "length b = 23 + n"
    and "d = default_decoded\<lparr>d_typ := t, d_id := slice 5 21 b, d_reason := string_of_bytes (take n (drop 23 b))\<rparr>"
    by (auto simp: decode_frame_def Let_def type_defs frame_len_defs n_def [symmetric] split: if_splits)
  then show ?thesis unfolding n_def [symmetric] by simp
qed

lemma decode_chunk:
  assumes "decode_frame b = Inr d" and "b ! 4 = kTypeChunk"
  shows "29 \<le> length b \<and>
    d = default_decoded\<lparr>d_typ := kTypeChunk, d_id := slice 5 21 b,
          d_offset := i64_of_u64 (get_be64 (drop 21 b)), d_data := drop 29 b\<rparr>"
  using assms by (auto simp: decode_frame_def Let_def type_defs frame_len_defs split: if_splits)

lemma decode_done:
  assumes "decode_frame b = Inr d" and "b ! 4 = kTypeDone"
  shows "length b = 54 \<and>
    d = default_decoded\<lparr>d_typ := kTypeDone, d_id := slice 5 21 b, d_ok := (b ! 21 \<noteq> 0),
          d_hash := slice 22 54 b\<rparr>"
  using assms by (auto simp: decode_frame_def Let_def type_defs frame_len_defs split: if_splits)

lemma decode_offer:
  assumes "decode_frame b = Inr d" and "b ! 4 = kTypeOffer"
  shows "length b = 63 + unat (get_be16 (drop 61 b)) \<and>
    d = decoded_of (Offer \<lparr>meta_id = slice 5 21 b, meta_name = string_of_bytes (drop 63 b),
          meta_size = i64_of_u64 (get_be64 (drop 21 b)), meta_hash = slice 29 61 b\<rparr>)"
proof -
  define n where "n = unat (get_be16 (drop 61 b))"
  from assms have "length b = 63 + n"
    and "d = decoded_of (Offer \<lparr>meta_id = slice 5 21 b, meta_name = string_of_bytes (take n (drop 63 b)),
          meta_size = i64_of_u64 (get_be64 (drop 21 b)), meta_hash = slice 29 61 b\<rparr>)"
    by (auto simp: decode_frame_def Let_def type_defs frame_len_defs default_decoded_def default_meta_def
        n_def [symmetric] split: if_splits)
  then show ?thesis unfolding n_def [symmetric] by simp
qed

text \<open>The 64-bit and 16-bit fields read back to the bytes they came from.\<close>

lemma field64: "i + 8 \<le> length b \<Longrightarrow> put_be64 (get_be64 (drop i b)) @ drop (i + 8) b = drop i b"
proof -
  assume "i + 8 \<le> length b"
  then have "length (take 8 (drop i b)) = 8" by simp
  then have "put_be64 (get_be64 (take 8 (drop i b))) = take 8 (drop i b)" by (rule put_get_be64)
  moreover have "get_be64 (take 8 (drop i b)) = get_be64 (drop i b)" by (simp add: get_be64_def)
  ultimately show ?thesis by (metis append_take_drop_id drop_drop add.commute)
qed

lemma field16: "i + 2 \<le> length b \<Longrightarrow> put_be16 (get_be16 (drop i b)) @ drop (i + 2) b = drop i b"
proof -
  assume l: "i + 2 \<le> length b"
  then have "length (take 2 (drop i b)) = 2" by simp
  then have "put_be16 (get_be16 (take 2 (drop i b))) = take 2 (drop i b)" by (rule put_get_be16)
  moreover have "get_be16 (take 2 (drop i b)) = get_be16 (drop i b)" by (simp add: get_be16_def)
  ultimately show ?thesis by (metis append_take_drop_id drop_drop add.commute)
qed

lemma id_field: "21 \<le> length b \<Longrightarrow> slice 5 21 b @ drop 21 b = drop 5 b"
  using slice_append [of 5 21 b] by simp

lemma unat_u16_le: "unat (v :: u16) \<le> 0xffff"
  using unsigned_less [of v, where ?'a = nat] by simp

text \<open>
  \<open>d\<close> is what some well-formed frame means, and \<open>b\<close> is its encoding; only the boolean of \<open>Done\<close> has
  more than one encoding.
\<close>

definition explained :: "bytes \<Rightarrow> decoded \<Rightarrow> frame \<Rightarrow> bool" where
  "explained b d f \<longleftrightarrow> frame_wf f \<and> d = decoded_of f \<and>
    (b = encode_frame f \<or> (\<exists>i h x. f = Done i True h \<and> x \<noteq> 0 \<and> b = kTransferMagic @ [kTypeDone] @ i @ [x] @ h))"

lemma decode_frame_magic: "decode_frame b = Inr d \<Longrightarrow> b = kTransferMagic @ [b ! 4] @ drop 5 b"
  using decode_frame_header by blast

lemma sound_offer:
  assumes d: "decode_frame b = Inr d" and offer: "b ! 4 = kTypeOffer"
  shows "\<exists>f. explained b d f"
proof -
  note h = decode_frame_magic [OF d]
  let ?m = "\<lparr>meta_id = slice 5 21 b, meta_name = string_of_bytes (drop 63 b),
        meta_size = i64_of_u64 (get_be64 (drop 21 b)), meta_hash = slice 29 61 b\<rparr>"
  define n where "n = get_be16 (drop 61 b)"
  have l: "length b = 63 + unat n" and dd: "d = decoded_of (Offer ?m)"
    using decode_offer [OF d offer] unfolding n_def by blast+
  from l have ln: "word_of_nat (length b - 63) = n" by simp
  have "drop 5 b = slice 5 21 b @ put_be64 (get_be64 (drop 21 b)) @ slice 29 61 b @ put_be16 n @ drop 63 b"
  proof -
    have "61 + 2 \<le> length b" "21 + 8 \<le> length b" "21 \<le> length b" using l by simp_all
    note bounds = field16 [OF this(1)] field64 [OF this(2)] id_field [OF this(3)]
    have "put_be16 n @ drop 63 b = drop 61 b" using bounds(1) by (simp add: n_def)
    moreover have "slice 29 61 b @ drop 61 b = drop 29 b" using slice_append [of 29 61 b] by simp
    moreover have "put_be64 (get_be64 (drop 21 b)) @ drop 29 b = drop 21 b" using bounds(2) by simp
    moreover have "slice 5 21 b @ drop 21 b = drop 5 b" by (rule bounds(3))
    ultimately show ?thesis by (simp only:)
  qed
  with offer ln have "kTransferMagic @ [b ! 4] @ drop 5 b = encode_frame (Offer ?m)"
    by (simp add: offer_bytes_def)
  with h have "b = encode_frame (Offer ?m)" by (rule trans)
  moreover have "frame_wf (Offer ?m)" using l unat_u16_le [of n] by simp
  ultimately show ?thesis using dd unfolding explained_def by blast
qed

lemma sound_fixed:
  assumes d: "decode_frame b = Inr d" and fixed: "b ! 4 = kTypeAccept \<or> b ! 4 = kTypeAck"
  shows "\<exists>f. explained b d f"
proof -
  note h = decode_frame_magic [OF d]
  let ?i = "slice 5 21 b" and ?o = "i64_of_u64 (get_be64 (drop 21 b))"
  have l: "length b = 29" and dd: "d = default_decoded\<lparr>d_typ := b ! 4, d_id := ?i, d_offset := ?o\<rparr>"
    using decode_fixed [OF d refl fixed] by auto
  from l have "drop 5 b = ?i @ put_be64 (get_be64 (drop 21 b))"
    using id_field [of b] field64 [of 21 b] by simp
  with fixed have "kTransferMagic @ [b ! 4] @ drop 5 b = encode_frame (Accept ?i ?o) \<and> b ! 4 = kTypeAccept \<or>
      kTransferMagic @ [b ! 4] @ drop 5 b = encode_frame (Ack ?i ?o) \<and> b ! 4 = kTypeAck"
    by (auto simp: encode_accept_def encode_ack_def)
  then have "b = encode_frame (Accept ?i ?o) \<and> b ! 4 = kTypeAccept \<or>
      b = encode_frame (Ack ?i ?o) \<and> b ! 4 = kTypeAck"
    unfolding h [symmetric] .
  with dd l show ?thesis
    by (elim disjE) (intro exI [of _ "Accept ?i ?o"], simp add: explained_def, intro exI [of _ "Ack ?i ?o"], simp add: explained_def)
qed

lemma sound_reason:
  assumes d: "decode_frame b = Inr d" and reason: "b ! 4 = kTypeReject \<or> b ! 4 = kTypeAbort"
  shows "\<exists>f. explained b d f"
proof -
  note h = decode_frame_magic [OF d]
  let ?i = "slice 5 21 b" and ?r = "string_of_bytes (drop 23 b)"
  define n where "n = get_be16 (drop 21 b)"
  have l: "length b = 23 + unat n"
    and dd: "d = default_decoded\<lparr>d_typ := b ! 4, d_id := ?i, d_reason := ?r\<rparr>"
    using decode_text [OF d refl reason] unfolding n_def by blast+
  from l have ln: "word_of_nat (length b - 23) = n" and r: "\<not> length ?r > 0xffff"
    using unat_u16_le [of n] by simp_all
  from l have "21 + 2 \<le> length b" "21 \<le> length b" by simp_all
  note bounds = field16 [OF this(1)] id_field [OF this(2)]
  have "drop 5 b = ?i @ put_be16 n @ drop 23 b"
    using bounds by (simp add: n_def)
  with reason ln r have "kTransferMagic @ [b ! 4] @ drop 5 b = encode_frame (Reject ?i ?r) \<and> b ! 4 = kTypeReject \<or>
      kTransferMagic @ [b ! 4] @ drop 5 b = encode_frame (Abort ?i ?r) \<and> b ! 4 = kTypeAbort"
    by (auto simp: encode_reject_def encode_abort_def)
  then have "b = encode_frame (Reject ?i ?r) \<and> b ! 4 = kTypeReject \<or>
      b = encode_frame (Abort ?i ?r) \<and> b ! 4 = kTypeAbort"
    unfolding h [symmetric] .
  with dd l r show ?thesis
    by (elim disjE) (intro exI [of _ "Reject ?i ?r"], simp add: explained_def, intro exI [of _ "Abort ?i ?r"], simp add: explained_def)
qed

lemma sound_chunk:
  assumes d: "decode_frame b = Inr d" and chunk: "b ! 4 = kTypeChunk"
  shows "\<exists>f. explained b d f"
proof -
  note h = decode_frame_magic [OF d]
  let ?f = "Chunk (slice 5 21 b) (i64_of_u64 (get_be64 (drop 21 b))) (drop 29 b)"
  have l: "29 \<le> length b" and dd: "d = decoded_of ?f"
    using decode_chunk [OF d chunk] by auto
  from l have "drop 5 b = slice 5 21 b @ put_be64 (get_be64 (drop 21 b)) @ drop 29 b"
    using id_field [of b] field64 [of 21 b] by simp
  with chunk have "kTransferMagic @ [b ! 4] @ drop 5 b = encode_frame ?f" by (simp add: encode_chunk_def)
  with h have "b = encode_frame ?f" by (rule trans)
  with dd l show ?thesis by (intro exI [of _ ?f]) (simp add: explained_def)
qed

lemma sound_fin:
  assumes d: "decode_frame b = Inr d" and fin: "b ! 4 = kTypeDone"
  shows "\<exists>f. explained b d f"
proof -
  note h = decode_frame_magic [OF d]
  let ?f = "Done (slice 5 21 b) (b ! 21 \<noteq> 0) (slice 22 54 b)"
  have l: "length b = 54" and dd: "d = decoded_of ?f"
    using decode_done [OF d fin] by auto
  have "drop 21 b = [b ! 21] @ slice 22 54 b"
    using l slice_append [of 22 54 b] Cons_nth_drop_Suc [of 21 b] by simp
  with l have "drop 5 b = slice 5 21 b @ [b ! 21] @ slice 22 54 b"
    using id_field [of b] by simp
  with fin have e: "kTransferMagic @ [b ! 4] @ drop 5 b = kTransferMagic @ [kTypeDone] @ slice 5 21 b @ [b ! 21] @ slice 22 54 b"
    by simp
  with h have b: "b = kTransferMagic @ [kTypeDone] @ slice 5 21 b @ [b ! 21] @ slice 22 54 b" by (rule trans)
  show ?thesis
  proof (cases "b ! 21 = 0")
    case True
    with e have "kTransferMagic @ [b ! 4] @ drop 5 b = encode_frame ?f" by (simp add: encode_done_def)
    with h have "b = encode_frame ?f" by (rule trans)
    with dd l show ?thesis by (intro exI [of _ ?f]) (simp add: explained_def)
  next
    case False
    with b have "\<exists>i h x. ?f = Done i True h \<and> x \<noteq> 0 \<and> b = kTransferMagic @ [kTypeDone] @ i @ [x] @ h" by blast
    with dd l show ?thesis by (intro exI [of _ ?f]) (simp add: explained_def)
  qed
qed

lemma decode_frame_sound:
  assumes "decode_frame b = Inr d"
  shows "\<exists>f. explained b d f"
  using decode_frame_header [OF assms] sound_offer [OF assms] sound_fixed [OF assms]
    sound_reason [OF assms] sound_chunk [OF assms] sound_fin [OF assms] by blast

lemma decode_done_true:
  "length i = 16 \<Longrightarrow> length h = 32 \<Longrightarrow> x \<noteq> 0 \<Longrightarrow>
   decode_frame (kTransferMagic @ kTypeDone # i @ x # h) = Inr (decoded_of (Done i True h))"
  by (simp add: decode_defs nth_append)

lemma decode_explained: "explained b d f \<Longrightarrow> decode_frame b = Inr d"
  unfolding explained_def using decode_encode_frame [of f] decode_done_true by auto

text \<open>Identifiers: the digits and their values.\<close>

lemma hex_value_digit: "n < 16 \<Longrightarrow> hex_value (hex_digit n) = int n"
proof -
  assume "n < 16"
  then have "n \<in> set [0..<16]" by simp
  moreover have "list_all (\<lambda>n. hex_value (hex_digit n) = int n) [0..<16]" by code_simp
  ultimately show ?thesis unfolding list_all_iff by blast
qed

lemma byte_of_nibbles:
  "(word_of_int (push_bit 4 (int (unat b div 16)) OR int (unat b mod 16)) :: u8) = b"
proof -
  have "push_bit 4 (int (unat b div 16)) OR int (unat b mod 16) = int (unat b)"
  proof -
    have "int (unat b div 16) * 16 + int (unat b mod 16) = int (unat b)"
      by (metis of_nat_add of_nat_mult of_nat_numeral div_mult_mod_eq)
    moreover have "push_bit 4 (int (unat b div 16)) AND int (unat b mod 16) = 0"
      by (rule bit_eqI) (auto simp: bit_simps zmod_int take_bit_eq_mod [of 4, simplified, symmetric])
    ultimately show ?thesis by (simp add: disjunctive_add_eq_or [symmetric] push_bit_eq_mult)
  qed
  then show ?thesis by simp
qed

lemma parse_id_loop_to_string: "parse_id_loop (id_to_string i) = Some i"
proof (induction i)
  case (Cons b i)
  have "unat b < 256" using unsigned_less [of b, where ?'a = nat] by simp
  then have "unat b div 16 < 16" "unat b mod 16 < 16" by simp_all
  with Cons show ?case by (simp add: id_to_string_def hex_value_digit byte_of_nibbles Let_def)
qed (simp add: id_to_string_def)

lemma length_id_to_string: "length (id_to_string i) = 2 * length i"
  by (induction i) (simp_all add: id_to_string_def)

lemma parse_id_loop_length: "parse_id_loop s = Some i \<Longrightarrow> even (length s) \<Longrightarrow> 2 * length i = length s"
  by (induction s arbitrary: i rule: parse_id_loop.induct) (auto simp: Let_def split: if_splits)

text \<open>Lower case of an ASCII letter, the form \<open>id_to_string\<close> prints.\<close>

definition ascii_lower :: "char \<Rightarrow> char" where
  "ascii_lower c = (let n = of_char c :: nat in if 65 \<le> n \<and> n \<le> 70 then char_of (n + 32) else c)"

lemma hex_digit_value: "0 \<le> hex_value c \<Longrightarrow> hex_digit (nat (hex_value c)) = ascii_lower c"
proof -
  assume v: "0 \<le> hex_value c"
  define k where "k = (of_char c :: nat)"
  have k: "(of_char c :: int) = int k" "c = char_of k" by (simp_all add: k_def of_nat_of_char)
  from v have "48 \<le> k \<and> k \<le> 57 \<or> 97 \<le> k \<and> k \<le> 102 \<or> 65 \<le> k \<and> k \<le> 70"
    unfolding hex_value_def k(1) by (auto simp: Let_def split: if_splits)
  then show ?thesis unfolding hex_value_def hex_digit_def ascii_lower_def k_def [symmetric] k(1)
    by (elim disjE) (simp_all add: Let_def k(2) nat_diff_distrib add.commute, arith+)
qed

lemma nibbles_of_byte:
  assumes "hi \<in> {0..<16}" "lo \<in> {0..<16}"
  shows "unat (word_of_int (push_bit 4 hi OR lo) :: u8) div 16 = nat hi"
    and "unat (word_of_int (push_bit 4 hi OR lo) :: u8) mod 16 = nat lo"
proof -
  have "list_all (\<lambda>h. list_all (\<lambda>l. unat (word_of_int (push_bit 4 h OR l) :: u8) = nat (16 * h + l))
      [0..15]) [0..15]" by code_simp
  with assms have "unat (word_of_int (push_bit 4 hi OR lo) :: u8) = nat (16 * hi + lo)"
    unfolding list_all_iff by simp
  with assms show "unat (word_of_int (push_bit 4 hi OR lo) :: u8) div 16 = nat hi"
    and "unat (word_of_int (push_bit 4 hi OR lo) :: u8) mod 16 = nat lo"
    by (auto simp: nat_add_distrib nat_mult_distrib)
qed

lemma hex_value_lt: "hex_value c < 16"
  by (simp add: hex_value_def Let_def)

lemma parse_id_loop_lower:
  "parse_id_loop s = Some i \<Longrightarrow> even (length s) \<Longrightarrow> id_to_string i = map ascii_lower s"
proof (induction s arbitrary: i rule: parse_id_loop.induct)
  case (1 h l rest)
  then obtain r where r: "parse_id_loop rest = Some r"
    and i: "i = word_of_int (push_bit 4 (hex_value h) OR hex_value l) # r"
    and v: "0 \<le> hex_value h" "0 \<le> hex_value l"
    by (auto simp: Let_def split: if_splits)
  with 1 have "id_to_string r = map ascii_lower rest" by (auto simp: Let_def)
  with i v show ?case
    by (simp add: id_to_string_def nibbles_of_byte hex_value_lt hex_digit_value)
qed (auto simp: id_to_string_def)

section \<open>Properties\<close>

text \<open>
  C31. Every transfer frame survives the wire: an offer that the encoder accepts, and every accept,
  reject, chunk, ack, done and abort frame with 16-byte identifier, 32-byte hash, 64-bit offsets
  and texts of at most 65535 bytes, decodes to exactly the fields it was built from; the offer
  encoder fails only for a negative size or an over-long name.
\<close>

theorem transfer_frame_roundtrip:
  assumes "frame_wf f"
  shows "decode_frame (encode_frame f) = Inr (decoded_of f) \<and>
    (\<forall>m. f = Offer m \<longrightarrow> encode_offer m =
       (if meta_size m < 0 then Inl (TransferEc terrc_size_mismatch) else Inr (encode_frame f)))"
  using decode_encode_frame [OF assms] assms by (auto simp: encode_offer_def offer_bytes_def)

theorem transfer_frame_roundtrip_witness:
  "decode_frame (encode_frame (Offer \<lparr>meta_id = replicate 16 7, meta_name = ''a.bin'', meta_size = 5,
       meta_hash = replicate 32 9\<rparr>)) =
     Inr (decoded_of (Offer \<lparr>meta_id = replicate 16 7, meta_name = ''a.bin'', meta_size = 5,
       meta_hash = replicate 32 9\<rparr>))"
  using transfer_frame_roundtrip [of "Offer \<lparr>meta_id = replicate 16 7, meta_name = ''a.bin'',
     meta_size = 5, meta_hash = replicate 32 9\<rparr>"] by (simp add: in_i64_def)

text \<open>
  C32. The decoder accepts nothing else: \<open>validate_frame\<close> succeeds exactly on the encodings of
  well-formed frames (with any non-zero byte standing for the \<open>true\<close> of a done frame), and on every
  other byte string it returns \<open>bad_frame\<close>. In particular a truncated or over-long frame, a wrong
  magic and an unknown type are refused.
\<close>

theorem validate_frame_exact:
  "validate_frame b =
    (if \<exists>f. frame_wf f \<and> (b = encode_frame f \<or>
          (\<exists>i h x. f = Done i True h \<and> x \<noteq> 0 \<and> b = kTransferMagic @ [kTypeDone] @ i @ [x] @ h))
     then NoError else TransferEc terrc_bad_frame)"
proof (cases "decode_frame b")
  case (Inl e)
  then have "e = TransferEc terrc_bad_frame"
    by (auto simp: decode_frame_def Let_def split: if_splits)
  moreover have "\<not> explained b d f" for d f
    using Inl decode_explained [of b d f] by auto
  ultimately show ?thesis using Inl unfolding explained_def validate_frame_def by auto
next
  case (Inr d)
  then show ?thesis using decode_frame_sound [OF Inr] unfolding explained_def validate_frame_def by auto
qed

text \<open>
  Transfer identifiers print and parse back: the text of a 16-byte identifier parses to it, and
  whatever \<open>parse_id\<close> accepts is a 32-digit hexadecimal text of a 16-byte identifier whose printed
  form is the same text in lower case.
\<close>

theorem transfer_id_roundtrip:
  "(length i = 16 \<longrightarrow> parse_id (id_to_string i) = Some i) \<and>
   (parse_id s = Some i \<longrightarrow> length i = 16 \<and> id_to_string i = map ascii_lower s)"
  using parse_id_loop_lower [of s i] parse_id_loop_length [of s i]
  by (auto simp: parse_id_def length_id_to_string parse_id_loop_to_string split: if_splits)

theorem transfer_id_roundtrip_witness:
  "parse_id (id_to_string (replicate 16 0xab)) = Some (replicate 16 0xab)"
  using transfer_id_roundtrip [of "replicate 16 0xab" "[]"] by simp

end
