(* ===== verification/Tdx_Conn.thy ===== *)
theory Tdx_Conn
  imports Tdx_Config
begin

text \<open>
  The connection of \<^verbatim>\<open>src/conn.cpp\<close>: two or three worker threads (reader, writer, callback
  delivery) and any number of caller threads share queues under three mutexes. Every critical
  section is one step of the machine, a thread's program counter says where it is between two
  steps, and a thread blocked in a condition variable stays there until another thread notifies it,
  its time limit passes, or it wakes up spuriously (which the C++ standard allows). Reading or
  writing one record is one step. \<open>exec\<close> is the executable machine; \<open>conn_run\<close> its runs with the
  events an observer sees.
\<close>

section \<open>State\<close>

record outbound =
  ob_typ :: u8
  ob_pt :: bytes

text \<open>Where the writer is in \<open>write_loop\<close>.\<close>

datatype writer_pc =
    W_lock
  | W_wait
  | W_write outbound
  | W_flush
  | W_flush_write outbound
  | W_close
  | W_store_done
  | W_notify_done
  | W_exit

text \<open>
  Where the reader is in \<open>read_loop\<close>. \<open>R_enqueue_abort\<close>: in the call of \<open>abort_recv\<close> of the queue
  branch, about to lock \<open>recv_mu_\<close>, inside the scopes of the locks of \<open>recv_mu_\<close> and \<open>send_mu_\<close>.
\<close>

datatype reader_pc =
    R_read
  | R_abort error_code
  | R_jobs bytes
  | R_enqueue bytes
  | R_enqueue_wait bytes
  | R_ping bytes
  | R_ping_wait bytes
  | R_store_done
  | R_notify_done
  | R_exit
  | R_enqueue_abort bytes

datatype deliver_pc =
    D_none
  | D_lock
  | D_wait
  | D_call bytes
  | D_drain
  | D_drain_call bytes
  | D_exit

text \<open>
  Where a caller is. A time limit of \<open>None\<close> is \<open>milliseconds::max()\<close>; the destructor runs the same
  shutdown (\<open>True\<close>) and then joins the workers. The waits of \<open>shutdown\<close> have three places: before
  the flag is tested, between the failed test and falling asleep, asleep.
\<close>

datatype user_pc =
    U_idle
  | U_send bytes "int option"
  | U_send_wait bytes "int option"
  | U_recv "int option"
  | U_recv_wait "int option"
  | U_sd_close bool "int option"
  | U_sd_stop bool "int option"
  | U_sd_wtest bool "int option"
  | U_sd_wsleep bool "int option"
  | U_sd_wwait bool "int option"
  | U_sd_deliver bool "int option" error_code
  | U_sd_sock bool "int option" error_code
  | U_sd_rtest bool "int option" error_code
  | U_sd_rsleep bool "int option" error_code
  | U_sd_rwait bool "int option" error_code
  | U_join

record ('k, 'r, 'cb) conn =
  c_sock :: tcp_socket
  c_sess :: session
  c_cfg :: "'cb FrozenConfig"
  c_send_q :: "outbound list"
  c_stop_send :: bool
  c_recv_q :: "bytes list"
  c_recv_err :: error_code
  c_recv_closed :: bool
  c_msg_jobs :: "bytes list"
  c_deliver_stop :: bool
  c_callback_dropped :: u64
  c_shutdown_started :: bool
  c_closed :: bool
  c_write_done :: bool
  c_read_done :: bool
  c_reader :: reader_pc
  c_writer :: writer_pc
  c_deliver :: deliver_pc
  c_users :: "nat \<Rightarrow> user_pc"
  c_kernel :: 'k
  c_rng :: "'r seal_rng"

text \<open>The constructor: the members' initialisers, and the threads it starts.\<close>

definition Conn_init ::
  "tcp_socket \<Rightarrow> session \<Rightarrow> 'cb FrozenConfig \<Rightarrow> 'k \<Rightarrow> 'r seal_rng \<Rightarrow> ('k, 'r, 'cb) conn" where
  "Conn_init sock sess cfg k g =
    \<lparr>c_sock = sock, c_sess = sess, c_cfg = cfg, c_send_q = [], c_stop_send = False, c_recv_q = [],
     c_recv_err = NoError, c_recv_closed = False, c_msg_jobs = [], c_deliver_stop = False,
     c_callback_dropped = 0, c_shutdown_started = False, c_closed = False, c_write_done = False,
     c_read_done = False, c_reader = R_read, c_writer = W_lock,
     c_deliver = (if on_message cfg = None then D_none else D_lock),
     c_users = (\<lambda>_. U_idle), c_kernel = k, c_rng = g\<rparr>"

text \<open>The accessors.\<close>

definition Conn_callback_dropped :: "('k, 'r, 'cb) conn \<Rightarrow> u64" where
  "Conn_callback_dropped c = c_callback_dropped c"

definition Conn_max_message_bytes :: "('k, 'r, 'cb) conn \<Rightarrow> int" where
  "Conn_max_message_bytes c = max_message_bytes (c_cfg c)"

definition Conn_underlying :: "('k, 'r, 'cb) conn \<Rightarrow> tcp_socket" where
  "Conn_underlying c = c_sock c"

text \<open>What an observer sees: results of calls, records on the wire, callbacks.\<close>

datatype ret = Ret_send error_code | Ret_recv "error_code + bytes" | Ret_shutdown error_code | Ret_joined

datatype event =
    Accepted outbound
  | Wrote outbound bool
  | Got u8 bytes
  | Queued bytes
  | Dropped bytes
  | Callback bytes
  | Skipped bytes
  | Returned nat ret

section \<open>Notification\<close>

fun wake_writer :: "writer_pc \<Rightarrow> writer_pc" where
  "wake_writer W_wait = W_lock"
| "wake_writer pc = pc"

fun wake_send_reader :: "reader_pc \<Rightarrow> reader_pc" where
  "wake_send_reader (R_ping_wait pt) = R_ping pt"
| "wake_send_reader pc = pc"

fun wake_send_user :: "user_pc \<Rightarrow> user_pc" where
  "wake_send_user (U_send_wait payload t) = U_send payload t"
| "wake_send_user pc = pc"

fun wake_recv_reader :: "reader_pc \<Rightarrow> reader_pc" where
  "wake_recv_reader (R_enqueue_wait pt) = R_enqueue pt"
| "wake_recv_reader pc = pc"

fun wake_recv_user :: "user_pc \<Rightarrow> user_pc" where
  "wake_recv_user (U_recv_wait t) = U_recv t"
| "wake_recv_user pc = pc"

fun wake_jobs :: "deliver_pc \<Rightarrow> deliver_pc" where
  "wake_jobs D_wait = D_lock"
| "wake_jobs pc = pc"

fun wake_done_user :: "user_pc \<Rightarrow> user_pc" where
  "wake_done_user (U_sd_wwait d w) = U_sd_wtest d w"
| "wake_done_user (U_sd_rwait d w ec) = U_sd_rtest d w ec"
| "wake_done_user pc = pc"

definition notify_send :: "('k, 'r, 'cb) conn \<Rightarrow> ('k, 'r, 'cb) conn" where
  "notify_send c = c\<lparr>c_writer := wake_writer (c_writer c), c_reader := wake_send_reader (c_reader c),
     c_users := wake_send_user \<circ> c_users c\<rparr>"

definition notify_recv :: "('k, 'r, 'cb) conn \<Rightarrow> ('k, 'r, 'cb) conn" where
  "notify_recv c = c\<lparr>c_reader := wake_recv_reader (c_reader c), c_users := wake_recv_user \<circ> c_users c\<rparr>"

definition notify_jobs :: "('k, 'r, 'cb) conn \<Rightarrow> ('k, 'r, 'cb) conn" where
  "notify_jobs c = c\<lparr>c_deliver := wake_jobs (c_deliver c)\<rparr>"

definition notify_done :: "('k, 'r, 'cb) conn \<Rightarrow> ('k, 'r, 'cb) conn" where
  "notify_done c = c\<lparr>c_users := wake_done_user \<circ> c_users c\<rparr>"

text \<open>
  The mutexes of the queues. A critical section without a lock inside it is one step, so between two
  steps a mutex is held only at a place of the code that is inside the scope of a lock and about to
  take another one; \<open>reader_holds\<close> lists the scopes around each place of \<open>read_loop\<close>. Every step that
  locks a mutex is enabled only while the mutex is free; \<open>std::mutex\<close> is not recursive, so this holds
  for the thread that has it too (the standard leaves that case undefined, the usual
  implementations block).
\<close>

datatype mutex = Send_mu | Recv_mu

fun reader_holds :: "reader_pc \<Rightarrow> mutex list" where
  "reader_holds (R_enqueue_abort _) = [Recv_mu, Send_mu]"
| "reader_holds _ = []"

definition mutex_free :: "mutex \<Rightarrow> ('k, 'r, 'cb) conn \<Rightarrow> bool" where
  "mutex_free m c \<longleftrightarrow> m \<notin> set (reader_holds (c_reader c))"

text \<open>A step that begins by locking a mutex.\<close>

definition locking :: "mutex \<Rightarrow> ('k, 'r, 'cb) conn \<Rightarrow> 'x \<Rightarrow> 'x option" where
  "locking m c x = (if mutex_free m c then Some x else None)"

section \<open>Receive side\<close>

definition Conn_abort_recv :: "error_code \<Rightarrow> ('k, 'r, 'cb) conn \<Rightarrow> ('k, 'r, 'cb) conn" where
  "Conn_abort_recv err c =
    (if c_recv_closed c then c
     else
       let err = (if \<not> ec_fails err then DuplexEc errc_closed else err)
       in notify_recv (c\<lparr>c_recv_closed := True, c_recv_err := err\<rparr>))"

text \<open>One iteration of \<open>read_loop\<close> up to the first lock: read, open, dispatch on the type.\<close>

definition read_dispatch :: "'cb FrozenConfig \<Rightarrow> u8 \<Rightarrow> bytes \<Rightarrow> reader_pc" where
  "read_dispatch cfg msg_type pt =
    (if msg_type = kMsgText then
       if int_of_size (length pt) > max_message_bytes cfg then R_abort (DuplexEc errc_message_too_large)
       else if on_message cfg \<noteq> None then R_jobs pt
       else R_enqueue pt
     else if msg_type = kMsgPing then R_ping pt
     else if msg_type = kMsgPong then R_read
     else if msg_type = kMsgClose then R_abort (DuplexEc errc_closed)
     else R_abort (DuplexEc errc_bad_frame))"

definition read_one ::
  "('k, 'a) posix \<Rightarrow> ('h, 'r) crypto_lib \<Rightarrow> ('k, 'r, 'cb) conn \<Rightarrow> event list \<times> ('k, 'r, 'cb) conn" where
  "read_one p lib c =
    (case read_record (SocketStream p (c_sock c)) (c_kernel c) of
       (Inl ec, k) \<Rightarrow> ([], c\<lparr>c_kernel := k, c_reader := R_abort ec\<rparr>)
     | (Inr (msg_type, sealed), k) \<Rightarrow>
         (case Session_open lib (c_sess c) sealed of
            Inl ec \<Rightarrow> ([], c\<lparr>c_kernel := k, c_reader := R_abort ec\<rparr>)
          | Inr pt \<Rightarrow> ([Got msg_type pt],
              c\<lparr>c_kernel := k, c_reader := read_dispatch (c_cfg c) msg_type pt\<rparr>)))"

text \<open>The callback branch, under \<open>jobs_mu_\<close>.\<close>

definition read_jobs :: "bytes \<Rightarrow> ('k, 'r, 'cb) conn \<Rightarrow> event list \<times> ('k, 'r, 'cb) conn" where
  "read_jobs pt c =
    (if int_of_size (length (c_msg_jobs c)) \<ge> on_message_buffer_depth (c_cfg c) then
       if disconnect_on_slow_callback_consumer (c_cfg c) then
         ([], (Conn_abort_recv (DuplexEc errc_slow_consumer) c)\<lparr>c_reader := R_store_done\<rparr>)
       else ([Dropped pt], c\<lparr>c_callback_dropped := c_callback_dropped c + 1, c_reader := R_read\<rparr>)
     else ([Queued pt], notify_jobs (c\<lparr>c_msg_jobs := c_msg_jobs c @ [pt], c_reader := R_read\<rparr>)))"

text \<open>
  The queue branch, under \<open>recv_mu_\<close>: wait for room, then the test under \<open>send_mu_\<close>; when it
  succeeds \<open>abort_recv\<close> is called inside both scopes, and its own lock is the next step.
\<close>

definition read_enqueue :: "bytes \<Rightarrow> ('k, 'r, 'cb) conn \<Rightarrow> event list \<times> ('k, 'r, 'cb) conn" where
  "read_enqueue pt c =
    (let full = (int_of_size (length (c_recv_q c)) \<ge> receive_queue_depth (c_cfg c)) in
     if \<not> (c_recv_closed c \<or> c_stop_send c \<or> \<not> full) then ([], c\<lparr>c_reader := R_enqueue_wait pt\<rparr>)
     else if c_stop_send c \<and> full then ([], c\<lparr>c_reader := R_enqueue_abort pt\<rparr>)
     else if \<not> c_recv_closed c then
       ([Queued pt], notify_recv (c\<lparr>c_recv_q := c_recv_q c @ [pt], c_reader := R_read\<rparr>))
     else ([], c\<lparr>c_reader := R_read\<rparr>))"

text \<open>The ping branch, under \<open>send_mu_\<close>; before and after the wait the same tests are made.\<close>

definition read_ping :: "bytes \<Rightarrow> ('k, 'r, 'cb) conn \<Rightarrow> event list \<times> ('k, 'r, 'cb) conn" where
  "read_ping pt c =
    (let reply = \<lparr>ob_typ = kMsgPong, ob_pt = pt\<rparr> in
     if c_stop_send c then
       ([], (Conn_abort_recv (DuplexEc errc_closed) c)\<lparr>c_reader := R_store_done\<rparr>)
     else if int_of_size (length (c_send_q c)) < send_queue_depth (c_cfg c) then
       ([Accepted reply], notify_send (c\<lparr>c_send_q := c_send_q c @ [reply], c_reader := R_read\<rparr>))
     else ([], c\<lparr>c_reader := R_ping_wait pt\<rparr>))"

fun exec_reader ::
  "('k, 'a) posix \<Rightarrow> ('h, 'r) crypto_lib \<Rightarrow> reader_pc \<Rightarrow> ('k, 'r, 'cb) conn \<Rightarrow>
   (event list \<times> ('k, 'r, 'cb) conn) option" where
  "exec_reader p lib R_read c = Some (read_one p lib c)"
| "exec_reader p lib (R_abort ec) c =
    locking Recv_mu c ([], (Conn_abort_recv ec c)\<lparr>c_reader := R_store_done\<rparr>)"
| "exec_reader p lib (R_jobs pt) c = Some (read_jobs pt c)"
| "exec_reader p lib (R_enqueue pt) c = locking Recv_mu c (read_enqueue pt c)"
| "exec_reader p lib (R_enqueue_abort pt) c =
    locking Recv_mu c ([], (Conn_abort_recv (DuplexEc errc_closed) c)\<lparr>c_reader := R_store_done\<rparr>)"
| "exec_reader p lib (R_ping pt) c = locking Send_mu c (read_ping pt c)"
| "exec_reader p lib R_store_done c = Some ([], c\<lparr>c_read_done := True, c_reader := R_notify_done\<rparr>)"
| "exec_reader p lib R_notify_done c = Some ([], notify_done (c\<lparr>c_reader := R_exit\<rparr>))"
| "exec_reader p lib _ c = None"

section \<open>Send side\<close>

definition Conn_write_out ::
  "('k, 'a) posix \<Rightarrow> ('h, 'r) crypto_lib \<Rightarrow> outbound \<Rightarrow> ('k, 'r, 'cb) conn \<Rightarrow>
   bool \<times> ('k, 'r, 'cb) conn" where
  "Conn_write_out p lib out c =
    (case Session_seal lib (c_sess c) (ob_pt out) (c_rng c) of
       (Inl ec, g) \<Rightarrow> (False, c\<lparr>c_rng := g\<rparr>)
     | (Inr sealed, g) \<Rightarrow>
         (case write_record (SocketStream p (c_sock c)) (ob_typ out) sealed (c_kernel c) of
            (ec, k) \<Rightarrow> (\<not> ec_fails ec, c\<lparr>c_rng := g, c_kernel := k\<rparr>)))"

text \<open>The first critical section of an iteration of \<open>write_loop\<close>, and the one of the drain loop.\<close>

definition write_lock :: "('k, 'r, 'cb) conn \<Rightarrow> ('k, 'r, 'cb) conn" where
  "write_lock c =
    (if \<not> (c_stop_send c \<or> c_send_q c \<noteq> []) then c\<lparr>c_writer := W_wait\<rparr>
     else case c_send_q c of
         out # q \<Rightarrow> notify_send (c\<lparr>c_send_q := q, c_writer := W_write out\<rparr>)
       | [] \<Rightarrow> c\<lparr>c_writer := W_flush\<rparr>)"

definition write_flush :: "('k, 'r, 'cb) conn \<Rightarrow> ('k, 'r, 'cb) conn" where
  "write_flush c =
    (case c_send_q c of
       out # q \<Rightarrow> c\<lparr>c_send_q := q, c_writer := W_flush_write out\<rparr>
     | [] \<Rightarrow> c\<lparr>c_writer := W_close\<rparr>)"

definition close_msg :: outbound where
  "close_msg = \<lparr>ob_typ = kMsgClose, ob_pt = []\<rparr>"

fun exec_writer ::
  "('k, 'a) posix \<Rightarrow> ('h, 'r) crypto_lib \<Rightarrow> writer_pc \<Rightarrow> ('k, 'r, 'cb) conn \<Rightarrow>
   (event list \<times> ('k, 'r, 'cb) conn) option" where
  "exec_writer p lib W_lock c = locking Send_mu c ([], write_lock c)"
| "exec_writer p lib (W_write out) c =
    (let (ok, c) = Conn_write_out p lib out c
     in Some ([Wrote out ok], c\<lparr>c_writer := if ok then W_lock else W_store_done\<rparr>))"
| "exec_writer p lib W_flush c = locking Send_mu c ([], write_flush c)"
| "exec_writer p lib (W_flush_write out) c =
    (let (ok, c) = Conn_write_out p lib out c
     in Some ([Wrote out ok], c\<lparr>c_writer := if ok then W_flush else W_store_done\<rparr>))"
| "exec_writer p lib W_close c =
    (let (ok, c) = Conn_write_out p lib close_msg c
     in Some ([Wrote close_msg ok], c\<lparr>c_writer := W_store_done\<rparr>))"
| "exec_writer p lib W_store_done c = Some ([], c\<lparr>c_write_done := True, c_writer := W_notify_done\<rparr>)"
| "exec_writer p lib W_notify_done c = Some ([], notify_done (c\<lparr>c_writer := W_exit\<rparr>))"
| "exec_writer p lib _ c = None"

section \<open>Callback delivery\<close>

definition deliver_drain :: "('k, 'r, 'cb) conn \<Rightarrow> ('k, 'r, 'cb) conn" where
  "deliver_drain c =
    (case c_msg_jobs c of
       pt # q \<Rightarrow> c\<lparr>c_msg_jobs := q, c_deliver := D_drain_call pt\<rparr>
     | [] \<Rightarrow> c\<lparr>c_deliver := D_exit\<rparr>)"

definition deliver_lock :: "('k, 'r, 'cb) conn \<Rightarrow> ('k, 'r, 'cb) conn" where
  "deliver_lock c =
    (if \<not> (c_deliver_stop c \<or> c_msg_jobs c \<noteq> []) then c\<lparr>c_deliver := D_wait\<rparr>
     else case c_msg_jobs c of
         pt # q \<Rightarrow> c\<lparr>c_msg_jobs := q, c_deliver := D_call pt\<rparr>
       | [] \<Rightarrow> deliver_drain c)"

fun exec_deliver ::
  "deliver_pc \<Rightarrow> ('k, 'r, 'cb) conn \<Rightarrow> (event list \<times> ('k, 'r, 'cb) conn) option" where
  "exec_deliver D_lock c = Some ([], deliver_lock c)"
| "exec_deliver (D_call pt) c =
    Some ([if pt \<noteq> [] then Callback pt else Skipped pt], c\<lparr>c_deliver := D_lock\<rparr>)"
| "exec_deliver D_drain c = Some ([], deliver_drain c)"
| "exec_deliver (D_drain_call pt) c = Some ([Callback pt], c\<lparr>c_deliver := D_drain\<rparr>)"
| "exec_deliver _ c = None"

section \<open>Callers\<close>

definition set_user :: "nat \<Rightarrow> user_pc \<Rightarrow> ('k, 'r, 'cb) conn \<Rightarrow> ('k, 'r, 'cb) conn" where
  "set_user u pc c = c\<lparr>c_users := (c_users c)(u := pc)\<rparr>"

datatype call = Call_send bytes "int option" | Call_recv "int option" | Call_shutdown "int option" | Call_destroy

text \<open>\<open>send_for\<close> up to the lock, and under \<open>send_mu_\<close> (\<open>expired\<close>: the time limit has passed).\<close>

definition Conn_send_for ::
  "nat \<Rightarrow> bytes \<Rightarrow> int option \<Rightarrow> ('k, 'r, 'cb) conn \<Rightarrow> event list \<times> ('k, 'r, 'cb) conn" where
  "Conn_send_for u payload timeout c =
    (if c_closed c then ([Returned u (Ret_send (DuplexEc errc_closed))], c)
     else if int_of_size (length payload) > max_message_bytes (c_cfg c) then
       ([Returned u (Ret_send (DuplexEc errc_message_too_large))], c)
     else ([], set_user u (U_send payload timeout) c))"

definition send_locked ::
  "nat \<Rightarrow> bytes \<Rightarrow> int option \<Rightarrow> bool \<Rightarrow> ('k, 'r, 'cb) conn \<Rightarrow> event list \<times> ('k, 'r, 'cb) conn" where
  "send_locked u payload timeout expired c =
    (let out = \<lparr>ob_typ = kMsgText, ob_pt = payload\<rparr> in
     if \<not> (c_stop_send c \<or> int_of_size (length (c_send_q c)) < send_queue_depth (c_cfg c)) then
       if expired then ([Returned u (Ret_send (DuplexEc errc_timed_out))], set_user u U_idle c)
       else ([], set_user u (U_send_wait payload timeout) c)
     else if c_stop_send c then
       ([Returned u (Ret_send (DuplexEc errc_closed))], set_user u U_idle c)
     else ([Accepted out, Returned u (Ret_send NoError)],
           notify_send ((set_user u U_idle c)\<lparr>c_send_q := c_send_q c @ [out]\<rparr>)))"

definition Conn_receive_for ::
  "nat \<Rightarrow> int option \<Rightarrow> ('k, 'r, 'cb) conn \<Rightarrow> event list \<times> ('k, 'r, 'cb) conn" where
  "Conn_receive_for u timeout c =
    (if on_message (c_cfg c) \<noteq> None then
       ([Returned u (Ret_recv (Inl (DuplexEc errc_receive_disabled)))], c)
     else ([], set_user u (U_recv timeout) c))"

definition receive_locked ::
  "nat \<Rightarrow> int option \<Rightarrow> bool \<Rightarrow> ('k, 'r, 'cb) conn \<Rightarrow> event list \<times> ('k, 'r, 'cb) conn" where
  "receive_locked u timeout expired c =
    (if \<not> (c_recv_closed c \<or> c_recv_q c \<noteq> []) then
       if expired then
         ([Returned u (Ret_recv (Inl (DuplexEc errc_timed_out)))], set_user u U_idle c)
       else ([], set_user u (U_recv_wait timeout) c)
     else case c_recv_q c of
         msg # q \<Rightarrow> ([Returned u (Ret_recv (Inr msg))], (set_user u U_idle c)\<lparr>c_recv_q := q\<rparr>)
       | [] \<Rightarrow> ([Returned u (Ret_recv (Inl (if ec_fails (c_recv_err c) then c_recv_err c
                                        else DuplexEc errc_closed)))], set_user u U_idle c))"

text \<open>\<open>shutdown\<close>: the exchange on entry, then its steps in order; the destructor goes on to join.\<close>

definition Conn_shutdown ::
  "nat \<Rightarrow> bool \<Rightarrow> int option \<Rightarrow> ('k, 'r, 'cb) conn \<Rightarrow> event list \<times> ('k, 'r, 'cb) conn" where
  "Conn_shutdown u dtor wait c =
    (if c_shutdown_started c then
       if dtor then ([], set_user u U_join c)
       else ([Returned u (Ret_shutdown (DuplexEc errc_closed))], c)
     else ([], set_user u (U_sd_close dtor wait) (c\<lparr>c_shutdown_started := True\<rparr>)))"

definition shutdown_stop :: "('k, 'r, 'cb) conn \<Rightarrow> ('k, 'r, 'cb) conn" where
  "shutdown_stop c = notify_send (c\<lparr>c_stop_send := True\<rparr>)"

definition shutdown_deliver :: "('k, 'r, 'cb) conn \<Rightarrow> ('k, 'r, 'cb) conn" where
  "shutdown_deliver c = notify_jobs (c\<lparr>c_deliver_stop := True\<rparr>)"

definition shutdown_sock :: "('k, 'a) posix \<Rightarrow> ('k, 'r, 'cb) conn \<Rightarrow> ('k, 'r, 'cb) conn" where
  "shutdown_sock p c =
    (let (sock, k) = TcpSocket_close p (c_sock c) (c_kernel c) in c\<lparr>c_sock := sock, c_kernel := k\<rparr>)"

definition shutdown_return ::
  "nat \<Rightarrow> bool \<Rightarrow> error_code \<Rightarrow> ('k, 'r, 'cb) conn \<Rightarrow> event list \<times> ('k, 'r, 'cb) conn" where
  "shutdown_return u dtor ec c =
    (if dtor then ([], set_user u U_join c)
     else ([Returned u (Ret_shutdown ec)], set_user u U_idle c))"

text \<open>\<open>Conn::~Conn\<close> joins the threads: it ends when all have returned.\<close>

definition joinable_done :: "('k, 'r, 'cb) conn \<Rightarrow> bool" where
  "joinable_done c \<longleftrightarrow> c_reader c = R_exit \<and> c_writer c = W_exit \<and> c_deliver c \<in> {D_none, D_exit}"

fun exec_call :: "nat \<Rightarrow> call \<Rightarrow> ('k, 'r, 'cb) conn \<Rightarrow> event list \<times> ('k, 'r, 'cb) conn" where
  "exec_call u (Call_send payload t) c = Conn_send_for u payload t c"
| "exec_call u (Call_recv t) c = Conn_receive_for u t c"
| "exec_call u (Call_shutdown t) c = Conn_shutdown u False t c"
| "exec_call u Call_destroy c = Conn_shutdown u True (Some 5000) c"

fun exec_user ::
  "('k, 'a) posix \<Rightarrow> nat \<Rightarrow> user_pc \<Rightarrow> ('k, 'r, 'cb) conn \<Rightarrow> (event list \<times> ('k, 'r, 'cb) conn) option" where
  "exec_user p u (U_send payload t) c = locking Send_mu c (send_locked u payload t False c)"
| "exec_user p u (U_recv t) c = locking Recv_mu c (receive_locked u t False c)"
| "exec_user p u (U_sd_close d w) c = Some ([], set_user u (U_sd_stop d w) (c\<lparr>c_closed := True\<rparr>))"
| "exec_user p u (U_sd_stop d w) c =
    locking Send_mu c ([], set_user u (U_sd_wtest d w) (shutdown_stop c))"
| "exec_user p u (U_sd_wtest d w) c =
    Some ([], set_user u (if c_write_done c then U_sd_deliver d w NoError else U_sd_wsleep d w) c)"
| "exec_user p u (U_sd_wsleep d w) c = Some ([], set_user u (U_sd_wwait d w) c)"
| "exec_user p u (U_sd_deliver d w ec) c = Some ([], set_user u (U_sd_sock d w ec) (shutdown_deliver c))"
| "exec_user p u (U_sd_sock d w ec) c = Some ([], set_user u (U_sd_rtest d w ec) (shutdown_sock p c))"
| "exec_user p u (U_sd_rtest d w ec) c =
    (if c_read_done c then Some (shutdown_return u d ec c)
     else Some ([], set_user u (U_sd_rsleep d w ec) c))"
| "exec_user p u (U_sd_rsleep d w ec) c = Some ([], set_user u (U_sd_rwait d w ec) c)"
| "exec_user p u U_join c =
    (if joinable_done c then Some ([Returned u Ret_joined], set_user u U_idle c) else None)"
| "exec_user p u _ c = None"

text \<open>The time limit of a blocked caller passes: the predicate is evaluated once more.\<close>

fun exec_timeout :: "nat \<Rightarrow> user_pc \<Rightarrow> ('k, 'r, 'cb) conn \<Rightarrow> (event list \<times> ('k, 'r, 'cb) conn) option" where
  "exec_timeout u (U_send_wait payload (Some t)) c =
    locking Send_mu c (send_locked u payload (Some t) True c)"
| "exec_timeout u (U_recv_wait (Some t)) c =
    locking Recv_mu c (receive_locked u (Some t) True c)"
| "exec_timeout u (U_sd_wwait d (Some t)) c =
    Some ([], set_user u (U_sd_deliver d (Some t)
                (if c_write_done c then NoError else DuplexEc errc_timed_out)) c)"
| "exec_timeout u (U_sd_rwait d (Some t) ec) c =
    Some (shutdown_return u d (if ec_fails ec then ec
                               else if c_read_done c then NoError else DuplexEc errc_timed_out) c)"
| "exec_timeout u _ c = None"

text \<open>Spurious wake-ups of every blocked thread.\<close>

definition spurious :: "('k, 'r, 'cb) conn \<Rightarrow> ('k, 'r, 'cb) conn" where
  "spurious c = notify_send (notify_recv (notify_jobs (notify_done c)))"

text \<open>
  The overloads without an error code, by the result of the call they make: they throw. \<open>std\<close> is the
  text the standard library gives for its own codes.
\<close>

definition Conn_send_throwing :: "(error_code \<Rightarrow> string) \<Rightarrow> error_code \<Rightarrow> Error + unit" where
  "Conn_send_throwing std ec = (if ec_fails ec then Inl (Error_of_code std ''send'' ec) else Inr ())"

definition Conn_receive_throwing :: "(error_code \<Rightarrow> string) \<Rightarrow> error_code + bytes \<Rightarrow> Error + bytes" where
  "Conn_receive_throwing std r =
    (case r of
       Inl ec \<Rightarrow> if ec_fails ec then Inl (Error_of_code std ''receive'' ec) else Inr []
     | Inr msg \<Rightarrow> Inr msg)"

definition Conn_close_throwing :: "(error_code \<Rightarrow> string) \<Rightarrow> error_code \<Rightarrow> Error + unit" where
  "Conn_close_throwing std ec =
    (if ec_fails ec \<and> ec \<noteq> DuplexEc errc_closed then Inl (Error_of_code std ''close'' ec) else Inr ())"

definition Conn_shutdown_throwing :: "(error_code \<Rightarrow> string) \<Rightarrow> error_code \<Rightarrow> Error + unit" where
  "Conn_shutdown_throwing std ec =
    (if ec_fails ec \<and> ec \<noteq> DuplexEc errc_closed then Inl (Error_of_code std ''shutdown'' ec) else Inr ())"

section \<open>The machine\<close>

datatype action =
    A_reader
  | A_writer
  | A_deliver
  | A_call nat call
  | A_user nat
  | A_timeout nat
  | A_spurious

fun exec ::
  "('k, 'a) posix \<Rightarrow> ('h, 'r) crypto_lib \<Rightarrow> action \<Rightarrow> ('k, 'r, 'cb) conn \<Rightarrow>
   (event list \<times> ('k, 'r, 'cb) conn) option" where
  "exec p lib A_reader c = exec_reader p lib (c_reader c) c"
| "exec p lib A_writer c = exec_writer p lib (c_writer c) c"
| "exec p lib A_deliver c = exec_deliver (c_deliver c) c"
| "exec p lib (A_call u op) c = (if c_users c u = U_idle then Some (exec_call u op c) else None)"
| "exec p lib (A_user u) c = exec_user p u (c_users c u) c"
| "exec p lib (A_timeout u) c = exec_timeout u (c_users c u) c"
| "exec p lib A_spurious c = Some ([], spurious c)"

text \<open>A schedule run to its end, \<open>None\<close> when one of its steps is not enabled.\<close>

fun run_schedule ::
  "('k, 'a) posix \<Rightarrow> ('h, 'r) crypto_lib \<Rightarrow> action list \<Rightarrow> ('k, 'r, 'cb) conn \<Rightarrow>
   (event list \<times> ('k, 'r, 'cb) conn) option" where
  "run_schedule p lib [] c = Some ([], c)"
| "run_schedule p lib (a # as) c =
    (case exec p lib a c of
       None \<Rightarrow> None
     | Some (es, c) \<Rightarrow> map_option (apfst ((@) es)) (run_schedule p lib as c))"

inductive conn_run ::
  "('k, 'a) posix \<Rightarrow> ('h, 'r) crypto_lib \<Rightarrow> ('k, 'r, 'cb) conn \<Rightarrow> action list \<Rightarrow> event list \<Rightarrow>
   ('k, 'r, 'cb) conn \<Rightarrow> bool" for p lib where
  run_nil: "conn_run p lib c [] [] c"
| run_step: "conn_run p lib c as es c1 \<Longrightarrow> exec p lib a c1 = Some (es', c2) \<Longrightarrow>
    conn_run p lib c (as @ [a]) (es @ es') c2"

section \<open>What each operation leaves alone\<close>

lemma locking_Some [simp]: "locking m c x = Some y \<longleftrightarrow> mutex_free m c \<and> x = y"
  by (simp add: locking_def)

lemma mutex_free_simps [simp]:
  "c_reader c = R_enqueue_abort pt \<Longrightarrow> \<not> mutex_free m c"
  "reader_holds (c_reader c) = [] \<Longrightarrow> mutex_free m c"
  by (cases m; simp add: mutex_free_def)+

lemma notify_send_sel [simp]:
  "c_sock (notify_send c) = c_sock c" "c_sess (notify_send c) = c_sess c"
  "c_cfg (notify_send c) = c_cfg c" "c_send_q (notify_send c) = c_send_q c"
  "c_stop_send (notify_send c) = c_stop_send c" "c_recv_q (notify_send c) = c_recv_q c"
  "c_recv_err (notify_send c) = c_recv_err c" "c_recv_closed (notify_send c) = c_recv_closed c"
  "c_msg_jobs (notify_send c) = c_msg_jobs c" "c_deliver_stop (notify_send c) = c_deliver_stop c"
  "c_callback_dropped (notify_send c) = c_callback_dropped c"
  "c_shutdown_started (notify_send c) = c_shutdown_started c"
  "c_closed (notify_send c) = c_closed c" "c_write_done (notify_send c) = c_write_done c"
  "c_read_done (notify_send c) = c_read_done c"
  "c_reader (notify_send c) = wake_send_reader (c_reader c)"
  "c_writer (notify_send c) = wake_writer (c_writer c)" "c_deliver (notify_send c) = c_deliver c"
  "c_users (notify_send c) = wake_send_user \<circ> c_users c"
  "c_kernel (notify_send c) = c_kernel c" "c_rng (notify_send c) = c_rng c"
  by (simp_all add: notify_send_def)

lemma notify_recv_sel [simp]:
  "c_sock (notify_recv c) = c_sock c" "c_sess (notify_recv c) = c_sess c"
  "c_cfg (notify_recv c) = c_cfg c" "c_send_q (notify_recv c) = c_send_q c"
  "c_stop_send (notify_recv c) = c_stop_send c" "c_recv_q (notify_recv c) = c_recv_q c"
  "c_recv_err (notify_recv c) = c_recv_err c" "c_recv_closed (notify_recv c) = c_recv_closed c"
  "c_msg_jobs (notify_recv c) = c_msg_jobs c" "c_deliver_stop (notify_recv c) = c_deliver_stop c"
  "c_callback_dropped (notify_recv c) = c_callback_dropped c"
  "c_shutdown_started (notify_recv c) = c_shutdown_started c"
  "c_closed (notify_recv c) = c_closed c" "c_write_done (notify_recv c) = c_write_done c"
  "c_read_done (notify_recv c) = c_read_done c"
  "c_reader (notify_recv c) = wake_recv_reader (c_reader c)"
  "c_writer (notify_recv c) = c_writer c" "c_deliver (notify_recv c) = c_deliver c"
  "c_users (notify_recv c) = wake_recv_user \<circ> c_users c"
  "c_kernel (notify_recv c) = c_kernel c" "c_rng (notify_recv c) = c_rng c"
  by (simp_all add: notify_recv_def)

lemma notify_jobs_sel [simp]:
  "c_sock (notify_jobs c) = c_sock c" "c_sess (notify_jobs c) = c_sess c"
  "c_cfg (notify_jobs c) = c_cfg c" "c_send_q (notify_jobs c) = c_send_q c"
  "c_stop_send (notify_jobs c) = c_stop_send c" "c_recv_q (notify_jobs c) = c_recv_q c"
  "c_recv_err (notify_jobs c) = c_recv_err c" "c_recv_closed (notify_jobs c) = c_recv_closed c"
  "c_msg_jobs (notify_jobs c) = c_msg_jobs c" "c_deliver_stop (notify_jobs c) = c_deliver_stop c"
  "c_callback_dropped (notify_jobs c) = c_callback_dropped c"
  "c_shutdown_started (notify_jobs c) = c_shutdown_started c"
  "c_closed (notify_jobs c) = c_closed c" "c_write_done (notify_jobs c) = c_write_done c"
  "c_read_done (notify_jobs c) = c_read_done c" "c_reader (notify_jobs c) = c_reader c"
  "c_writer (notify_jobs c) = c_writer c" "c_deliver (notify_jobs c) = wake_jobs (c_deliver c)"
  "c_users (notify_jobs c) = c_users c" "c_kernel (notify_jobs c) = c_kernel c"
  "c_rng (notify_jobs c) = c_rng c"
  by (simp_all add: notify_jobs_def)

lemma notify_done_sel [simp]:
  "c_sock (notify_done c) = c_sock c" "c_sess (notify_done c) = c_sess c"
  "c_cfg (notify_done c) = c_cfg c" "c_send_q (notify_done c) = c_send_q c"
  "c_stop_send (notify_done c) = c_stop_send c" "c_recv_q (notify_done c) = c_recv_q c"
  "c_recv_err (notify_done c) = c_recv_err c" "c_recv_closed (notify_done c) = c_recv_closed c"
  "c_msg_jobs (notify_done c) = c_msg_jobs c" "c_deliver_stop (notify_done c) = c_deliver_stop c"
  "c_callback_dropped (notify_done c) = c_callback_dropped c"
  "c_shutdown_started (notify_done c) = c_shutdown_started c"
  "c_closed (notify_done c) = c_closed c" "c_write_done (notify_done c) = c_write_done c"
  "c_read_done (notify_done c) = c_read_done c" "c_reader (notify_done c) = c_reader c"
  "c_writer (notify_done c) = c_writer c" "c_deliver (notify_done c) = c_deliver c"
  "c_users (notify_done c) = wake_done_user \<circ> c_users c"
  "c_kernel (notify_done c) = c_kernel c" "c_rng (notify_done c) = c_rng c"
  by (simp_all add: notify_done_def)

lemma set_user_sel [simp]:
  "c_sock (set_user u pc c) = c_sock c" "c_sess (set_user u pc c) = c_sess c"
  "c_cfg (set_user u pc c) = c_cfg c" "c_send_q (set_user u pc c) = c_send_q c"
  "c_stop_send (set_user u pc c) = c_stop_send c" "c_recv_q (set_user u pc c) = c_recv_q c"
  "c_recv_err (set_user u pc c) = c_recv_err c"
  "c_recv_closed (set_user u pc c) = c_recv_closed c"
  "c_msg_jobs (set_user u pc c) = c_msg_jobs c"
  "c_deliver_stop (set_user u pc c) = c_deliver_stop c"
  "c_callback_dropped (set_user u pc c) = c_callback_dropped c"
  "c_shutdown_started (set_user u pc c) = c_shutdown_started c"
  "c_closed (set_user u pc c) = c_closed c" "c_write_done (set_user u pc c) = c_write_done c"
  "c_read_done (set_user u pc c) = c_read_done c" "c_reader (set_user u pc c) = c_reader c"
  "c_writer (set_user u pc c) = c_writer c" "c_deliver (set_user u pc c) = c_deliver c"
  "c_users (set_user u pc c) = (c_users c)(u := pc)" "c_kernel (set_user u pc c) = c_kernel c"
  "c_rng (set_user u pc c) = c_rng c"
  by (simp_all add: set_user_def)

lemma Conn_abort_recv_sel [simp]:
  "c_recv_closed (Conn_abort_recv ec c)"
  "c_sock (Conn_abort_recv ec c) = c_sock c" "c_sess (Conn_abort_recv ec c) = c_sess c"
  "c_cfg (Conn_abort_recv ec c) = c_cfg c" "c_send_q (Conn_abort_recv ec c) = c_send_q c"
  "c_stop_send (Conn_abort_recv ec c) = c_stop_send c"
  "c_recv_q (Conn_abort_recv ec c) = c_recv_q c"
  "c_msg_jobs (Conn_abort_recv ec c) = c_msg_jobs c"
  "c_deliver_stop (Conn_abort_recv ec c) = c_deliver_stop c"
  "c_callback_dropped (Conn_abort_recv ec c) = c_callback_dropped c"
  "c_shutdown_started (Conn_abort_recv ec c) = c_shutdown_started c"
  "c_closed (Conn_abort_recv ec c) = c_closed c"
  "c_write_done (Conn_abort_recv ec c) = c_write_done c"
  "c_read_done (Conn_abort_recv ec c) = c_read_done c"
  "c_writer (Conn_abort_recv ec c) = c_writer c" "c_deliver (Conn_abort_recv ec c) = c_deliver c"
  "c_kernel (Conn_abort_recv ec c) = c_kernel c" "c_rng (Conn_abort_recv ec c) = c_rng c"
  by (simp_all add: Conn_abort_recv_def Let_def)

text \<open>No step changes the configuration or the session.\<close>

definition same_setup :: "('k, 'r, 'cb) conn \<Rightarrow> ('k, 'r, 'cb) conn \<Rightarrow> bool" where
  "same_setup c c' \<longleftrightarrow> c_cfg c' = c_cfg c \<and> c_sess c' = c_sess c"

lemma locked_setup:
  "send_locked u payload t x c = (es, c') \<Longrightarrow> same_setup c c'"
  "receive_locked u t x c = (es, c') \<Longrightarrow> same_setup c c'"
  "exec_call u op c = (es, c') \<Longrightarrow> same_setup c c'"
  by (auto simp: send_locked_def receive_locked_def same_setup_def Let_def split: if_splits list.splits)
    (cases op; auto simp: Conn_send_for_def Conn_receive_for_def Conn_shutdown_def split: if_splits)+

lemma exec_reader_setup: "exec_reader p lib pc c = Some (es, c') \<Longrightarrow> same_setup c c'"
  by (cases pc)
    (auto simp: read_one_def read_jobs_def read_enqueue_def read_ping_def same_setup_def Let_def
      split: prod.splits sum.splits if_splits)

lemma exec_writer_setup: "exec_writer p lib pc c = Some (es, c') \<Longrightarrow> same_setup c c'"
  by (cases pc)
    (auto simp: write_lock_def write_flush_def Conn_write_out_def same_setup_def Let_def
      split: prod.splits sum.splits if_splits list.splits)

lemma exec_user_setup: "exec_user p u pc c = Some (es, c') \<Longrightarrow> same_setup c c'"
  by (cases pc)
    (auto simp: shutdown_stop_def shutdown_deliver_def shutdown_sock_def shutdown_return_def Let_def
      same_setup_def dest!: locked_setup split: prod.splits if_splits)

lemma exec_timeout_setup: "exec_timeout u pc c = Some (es, c') \<Longrightarrow> same_setup c c'"
  by (cases "(u, pc, c)" rule: exec_timeout.cases)
    (auto simp: shutdown_return_def same_setup_def dest!: locked_setup split: if_splits)

lemma exec_deliver_setup: "exec_deliver pc c = Some (es, c') \<Longrightarrow> same_setup c c'"
  by (cases pc) (auto simp: deliver_lock_def deliver_drain_def same_setup_def split: list.splits)

lemma exec_setup: "exec p lib a c = Some (es, c') \<Longrightarrow> same_setup c c'"
  by (cases a)
    (auto dest: exec_reader_setup exec_writer_setup exec_user_setup exec_timeout_setup
      exec_deliver_setup locked_setup simp: spurious_def same_setup_def split: if_splits)

lemma conn_run_cfg:
  assumes "conn_run p lib c as es c'"
  shows "c_cfg c' = c_cfg c \<and> c_sess c' = c_sess c"
  using assms by induction (auto dest: exec_setup simp: same_setup_def)

lemma run_schedule_append:
  "run_schedule p lib (as @ as') c =
    (case run_schedule p lib as c of
       None \<Rightarrow> None
     | Some (es, c) \<Rightarrow> map_option (apfst ((@) es)) (run_schedule p lib as' c))"
  by (induction as arbitrary: c)
    (auto split: option.splits prod.splits simp: map_option_case)

text \<open>The runs are what the executable schedules compute.\<close>

lemma conn_run_iff: "conn_run p lib c as es c' \<longleftrightarrow> run_schedule p lib as c = Some (es, c')"
proof
  show "conn_run p lib c as es c' \<Longrightarrow> run_schedule p lib as c = Some (es, c')"
    by (induction rule: conn_run.induct) (auto simp: run_schedule_append)
next
  show "run_schedule p lib as c = Some (es, c') \<Longrightarrow> conn_run p lib c as es c'"
  proof (induction as arbitrary: es c' rule: rev_induct)
    case (snoc a as)
    then obtain es1 c1 es2 where "run_schedule p lib as c = Some (es1, c1)"
      and "exec p lib a c1 = Some (es2, c')" and "es = es1 @ es2"
      by (auto simp: run_schedule_append split: option.splits)
    with snoc.IH show ?case by (auto intro: run_step)
  qed (auto intro: run_nil)
qed

end
