(* ===== verification/Tdx_Conn_Send.thy ===== *)
theory Tdx_Conn_Send
  imports Tdx_Conn
begin

text \<open>
  The sending half of a connection. \<open>sender\<close> is the abstract specification: a bounded queue, a stop
  flag and the phases of the writer, without threads, locks or notifications. Every step of the
  machine of \<open>Tdx_Conn\<close> is a step of the specification (or leaves it alone), so the order, loss and
  bound properties are proved on the specification.
\<close>

section \<open>Specification\<close>

datatype phase = Sending "outbound option" | Flushing "outbound option" | Closing | Finished

record sender =
  s_queue :: "outbound list"
  s_stop :: bool
  s_phase :: phase

fun phase_of :: "writer_pc \<Rightarrow> phase" where
  "phase_of W_lock = Sending None"
| "phase_of W_wait = Sending None"
| "phase_of (W_write out) = Sending (Some out)"
| "phase_of W_flush = Flushing None"
| "phase_of (W_flush_write out) = Flushing (Some out)"
| "phase_of W_close = Closing"
| "phase_of _ = Finished"

definition sender_of :: "('k, 'r, 'cb) conn \<Rightarrow> sender" where
  "sender_of c = \<lparr>s_queue = c_send_q c, s_stop = c_stop_send c, s_phase = phase_of (c_writer c)\<rparr>"

text \<open>The events of the sending half.\<close>

fun is_send_event :: "event \<Rightarrow> bool" where
  "is_send_event (Accepted _) = True"
| "is_send_event (Wrote _ _) = True"
| "is_send_event _ = False"

definition send_events :: "event list \<Rightarrow> event list" where
  "send_events es = filter is_send_event es"

inductive sender_step :: "int \<Rightarrow> sender \<Rightarrow> event list \<Rightarrow> sender \<Rightarrow> bool" for depth where
  s_skip: "sender_step depth s [] s"
| s_accept: "\<not> s_stop s \<Longrightarrow> int_of_size (length (s_queue s)) < depth \<Longrightarrow> ob_typ out \<noteq> kMsgClose \<Longrightarrow>
    sender_step depth s [Accepted out] (s\<lparr>s_queue := s_queue s @ [out]\<rparr>)"
| s_stop: "sender_step depth s [] (s\<lparr>s_stop := True\<rparr>)"
| s_take: "s_phase s = Sending None \<Longrightarrow> s_queue s = out # q \<Longrightarrow>
    sender_step depth s [] (s\<lparr>s_queue := q, s_phase := Sending (Some out)\<rparr>)"
| s_flush: "s_phase s = Sending None \<Longrightarrow> s_queue s = [] \<Longrightarrow> s_stop s \<Longrightarrow>
    sender_step depth s [] (s\<lparr>s_phase := Flushing None\<rparr>)"
| s_flush_take: "s_phase s = Flushing None \<Longrightarrow> s_queue s = out # q \<Longrightarrow>
    sender_step depth s [] (s\<lparr>s_queue := q, s_phase := Flushing (Some out)\<rparr>)"
| s_flushed: "s_phase s = Flushing None \<Longrightarrow> s_queue s = [] \<Longrightarrow>
    sender_step depth s [] (s\<lparr>s_phase := Closing\<rparr>)"
| s_wrote: "s_phase s = Sending (Some out) \<Longrightarrow>
    sender_step depth s [Wrote out True] (s\<lparr>s_phase := Sending None\<rparr>)"
| s_flush_wrote: "s_phase s = Flushing (Some out) \<Longrightarrow>
    sender_step depth s [Wrote out True] (s\<lparr>s_phase := Flushing None\<rparr>)"
| s_failed: "s_phase s \<in> {Sending (Some out), Flushing (Some out)} \<Longrightarrow>
    sender_step depth s [Wrote out False] (s\<lparr>s_phase := Finished\<rparr>)"
| s_closed: "s_phase s = Closing \<Longrightarrow>
    sender_step depth s [Wrote close_msg ok] (s\<lparr>s_phase := Finished\<rparr>)"

inductive sender_run :: "int \<Rightarrow> sender \<Rightarrow> event list \<Rightarrow> sender \<Rightarrow> bool" for depth where
  sr_nil: "sender_run depth s [] s"
| sr_step: "sender_run depth s es s1 \<Longrightarrow> sender_step depth s1 es' s2 \<Longrightarrow> sender_run depth s (es @ es') s2"

section \<open>Refinement\<close>

lemma phase_of_wake [simp]: "phase_of (wake_writer pc) = phase_of pc"
  by (cases pc) simp_all

lemma send_events_simps [simp]:
  "send_events [] = []"
  "send_events (e # es) = (if is_send_event e then e # send_events es else send_events es)"
  "send_events (es @ es') = send_events es @ send_events es'"
  by (simp_all add: send_events_def)

lemma kMsg_distinct [simp]: "kMsgText \<noteq> kMsgClose" "kMsgPong \<noteq> kMsgClose" "kMsgText \<noteq> kMsgPong"
  "kMsgClose \<noteq> kMsgText" "kMsgPong \<noteq> kMsgText"
  by (simp_all add: kMsgText_def kMsgPong_def kMsgClose_def)

declare s_skip [simp]

lemma sender_of_write_out:
  "Conn_write_out p lib out c = (ok, c') \<Longrightarrow>
     sender_of (c'\<lparr>c_writer := pc\<rparr>) = (sender_of c)\<lparr>s_phase := phase_of pc\<rparr> \<and> c_cfg c' = c_cfg c"
  by (auto simp: Conn_write_out_def sender_of_def split: prod.splits sum.splits)

lemma ping_refines:
  "read_ping pt c = (es, c') \<Longrightarrow>
     sender_step (send_queue_depth (c_cfg c)) (sender_of c) (send_events es) (sender_of c')"
  using s_accept [of "sender_of c" "send_queue_depth (c_cfg c)" "\<lparr>ob_typ = kMsgPong, ob_pt = pt\<rparr>"]
  by (auto simp: read_ping_def Let_def sender_of_def split: if_splits)

lemma reader_refines:
  assumes "exec_reader p lib (c_reader c) c = Some (es, c')"
  shows "sender_step (send_queue_depth (c_cfg c)) (sender_of c) (send_events es) (sender_of c')"
  using assms ping_refines [of _ c es c']
  by (cases "c_reader c")
    (auto simp: read_one_def read_jobs_def read_enqueue_def sender_of_def Let_def
      split: prod.splits sum.splits if_splits)

lemma write_lock_refines: "sender_step d (sender_of c) [] (sender_of (write_lock c))"
  if "phase_of (c_writer c) = Sending None"
  using that s_take [of "sender_of c" _ _ d] s_flush [of "sender_of c" d]
  by (auto simp: write_lock_def sender_of_def s_skip split: list.splits)

lemma write_flush_refines: "sender_step d (sender_of c) [] (sender_of (write_flush c))"
  if "phase_of (c_writer c) = Flushing None"
  using that s_flush_take [of "sender_of c" _ _ d] s_flushed [of "sender_of c" d]
  by (auto simp: write_flush_def sender_of_def split: list.splits)

lemma writer_refines:
  assumes "exec_writer p lib (c_writer c) c = Some (es, c')"
  shows "sender_step d (sender_of c) (send_events es) (sender_of c')"
proof (cases "c_writer c")
  case (W_write out)
  obtain ok c1 where w: "Conn_write_out p lib out c = (ok, c1)" by fastforce
  have "s_phase (sender_of c) = Sending (Some out)" using W_write by (simp add: sender_of_def)
  with W_write w assms sender_of_write_out [OF w] show ?thesis
    using s_wrote [of "sender_of c" out d] s_failed [of "sender_of c" out d] by (cases ok) auto
next
  case (W_flush_write out)
  obtain ok c1 where w: "Conn_write_out p lib out c = (ok, c1)" by fastforce
  have "s_phase (sender_of c) = Flushing (Some out)" using W_flush_write by (simp add: sender_of_def)
  with W_flush_write w assms sender_of_write_out [OF w] show ?thesis
    using s_flush_wrote [of "sender_of c" out d] s_failed [of "sender_of c" out d] by (cases ok) auto
next
  case W_close
  obtain ok c1 where w: "Conn_write_out p lib close_msg c = (ok, c1)" by fastforce
  have "s_phase (sender_of c) = Closing" using W_close by (simp add: sender_of_def)
  with W_close w assms sender_of_write_out [OF w] show ?thesis
    using s_closed [of "sender_of c" d ok] by auto
qed (use assms write_lock_refines [of c d] write_flush_refines [of c d] in
    \<open>auto simp: sender_of_def split: if_splits\<close>)

lemma deliver_refines:
  assumes "exec_deliver (c_deliver c) c = Some (es, c')"
  shows "sender_step d (sender_of c) (send_events es) (sender_of c')"
  using assms by (cases "c_deliver c")
    (auto simp: deliver_lock_def deliver_drain_def sender_of_def split: list.splits)

lemma send_locked_refines:
  "send_locked u payload t x c = (es, c') \<Longrightarrow>
     sender_step (send_queue_depth (c_cfg c)) (sender_of c) (send_events es) (sender_of c')"
  using s_accept [of "sender_of c" "send_queue_depth (c_cfg c)" "\<lparr>ob_typ = kMsgText, ob_pt = payload\<rparr>"]
  by (auto simp: send_locked_def sender_of_def Let_def split: if_splits)

lemma receive_locked_refines:
  "receive_locked u t x c = (es, c') \<Longrightarrow> sender_step d (sender_of c) (send_events es) (sender_of c')"
  by (auto simp: receive_locked_def sender_of_def split: if_splits list.splits)

lemma call_refines:
  "exec_call u op c = (es, c') \<Longrightarrow> sender_step d (sender_of c) (send_events es) (sender_of c')"
  by (cases op) (auto simp: Conn_send_for_def Conn_receive_for_def Conn_shutdown_def sender_of_def
      split: if_splits)

lemma stop_refines: "sender_step d (sender_of c) [] (sender_of (set_user u pc (shutdown_stop c)))"
  using s_stop [of d "sender_of c"] by (simp add: sender_of_def shutdown_stop_def)

lemma user_refines:
  assumes "exec_user p u pc c = Some (es, c')"
  shows "sender_step (send_queue_depth (c_cfg c)) (sender_of c) (send_events es) (sender_of c')"
  using assms send_locked_refines [of u _ _ False c es c'] receive_locked_refines [of u _ False c es c']
    stop_refines [of "send_queue_depth (c_cfg c)" c u]
  by (cases pc) (auto simp: shutdown_deliver_def shutdown_sock_def shutdown_return_def sender_of_def
      Let_def split: if_splits prod.splits)

lemma timeout_refines:
  assumes "exec_timeout u pc c = Some (es, c')"
  shows "sender_step (send_queue_depth (c_cfg c)) (sender_of c) (send_events es) (sender_of c')"
  using assms send_locked_refines [of u _ _ True c es c'] receive_locked_refines [of u _ True c es c']
  by (cases "(u, pc, c)" rule: exec_timeout.cases)
    (auto simp: shutdown_return_def sender_of_def split: if_splits)

lemma exec_refines:
  assumes "exec p lib a c = Some (es, c')"
  shows "sender_step (send_queue_depth (c_cfg c)) (sender_of c) (send_events es) (sender_of c')"
proof (cases a)
  case A_spurious
  with assms show ?thesis by (auto simp: spurious_def sender_of_def)
qed (use assms reader_refines writer_refines deliver_refines call_refines user_refines timeout_refines
    in \<open>auto split: if_splits\<close>)

lemma conn_run_refines:
  assumes "conn_run p lib c as es c'"
  shows "sender_run (send_queue_depth (c_cfg c)) (sender_of c) (send_events es) (sender_of c')"
  using assms
proof induction
  case (run_step c as es c1 a es' c2)
  have "c_cfg c1 = c_cfg c" using conn_run_cfg [OF run_step.hyps(1)] by simp
  with run_step exec_refines [OF run_step.hyps(2)] show ?case by (simp add: sr_step)
qed (simp add: sr_nil)

section \<open>Properties of the specification\<close>

text \<open>The messages a connection has accepted, and the records it has tried to write.\<close>

fun accepted :: "event list \<Rightarrow> outbound list" where
  "accepted [] = []"
| "accepted (Accepted out # es) = out # accepted es"
| "accepted (_ # es) = accepted es"

fun wire :: "event list \<Rightarrow> (outbound \<times> bool) list" where
  "wire [] = []"
| "wire (Wrote out ok # es) = (out, ok) # wire es"
| "wire (_ # es) = wire es"

lemma accepted_append [simp]: "accepted (es @ es') = accepted es @ accepted es'"
  by (induction es rule: accepted.induct) simp_all

lemma wire_append [simp]: "wire (es @ es') = wire es @ wire es'"
  by (induction es rule: wire.induct) simp_all

lemma accepted_send_events [simp]: "accepted (send_events es) = accepted es"
  by (induction es rule: accepted.induct) simp_all

lemma wire_send_events [simp]: "wire (send_events es) = wire es"
  by (induction es rule: wire.induct) simp_all

fun in_hand :: "phase \<Rightarrow> outbound list" where
  "in_hand (Sending (Some out)) = [out]"
| "in_hand (Flushing (Some out)) = [out]"
| "in_hand _ = []"

definition sender_inv :: "event list \<Rightarrow> sender \<Rightarrow> bool" where
  "sender_inv es s \<longleftrightarrow>
    (\<forall>out \<in> set (accepted es). ob_typ out \<noteq> kMsgClose) \<and>
    (if s_phase s = Finished then
       (\<exists>sent out. wire es = map (\<lambda>m. (m, True)) sent @ [(out, False)] \<and>
          accepted es = sent @ [out] @ s_queue s) \<or>
       (\<exists>sent ok. wire es = map (\<lambda>m. (m, True)) sent @ [(close_msg, ok)] \<and> accepted es = sent \<and>
          s_queue s = [] \<and> s_stop s)
     else
       (\<exists>sent. wire es = map (\<lambda>m. (m, True)) sent \<and> accepted es = sent @ in_hand (s_phase s) @ s_queue s) \<and>
       ((\<exists>h. s_phase s = Flushing h) \<or> s_phase s = Closing \<longrightarrow> s_stop s) \<and>
       (s_phase s = Closing \<longrightarrow> s_queue s = []))"

lemma sender_step_inv:
  assumes "sender_step depth s es' s'" and "sender_inv es s"
  shows "sender_inv (es @ es') s'"
  using assms by (cases rule: sender_step.cases) (auto simp: sender_inv_def)

lemma sender_run_inv:
  assumes "sender_run depth s es s'" and "sender_inv [] s"
  shows "sender_inv es s'"
  using assms by (induction rule: sender_run.induct) (auto intro: sender_step_inv)

lemma sender_run_bound:
  assumes "sender_run depth s es s'" and "int (length (s_queue s)) \<le> depth" and "depth < 2 ^ 31"
  shows "int (length (s_queue s')) \<le> depth"
  using assms
proof (induction rule: sender_run.induct)
  case (sr_step s es s1 es' s2)
  then have b: "int (length (s_queue s1)) \<le> depth" by simp
  from sr_step.hyps(2) show ?case
  proof cases
    case (s_accept out)
    with b sr_step.prems(2) show ?thesis by (simp add: int_of_size_small)
  qed (use b in auto)
qed

lemma sender_inv_events [simp]: "sender_inv (send_events es) s = sender_inv es s"
  by (simp add: sender_inv_def)

lemma Conn_init_sender [simp]:
  "sender_of (Conn_init sock sess cfg k g) = \<lparr>s_queue = [], s_stop = False, s_phase = Sending None\<rparr>"
  by (simp add: sender_of_def Conn_init_def)

lemma conn_run_sender_inv:
  assumes "conn_run p lib (Conn_init sock sess cfg k g) as es c"
  shows "sender_inv es (sender_of c)"
proof -
  have "sender_inv [] (sender_of (Conn_init sock sess cfg k g))" by (simp add: sender_inv_def)
  from sender_run_inv [OF conn_run_refines [OF assms] this] show ?thesis by simp
qed

end
