(* ===== verification/Tdx_Conn_Recv.thy ===== *)
theory Tdx_Conn_Recv
  imports Tdx_Conn
begin

text \<open>
  The receiving half of a connection: what happens to every text message the reader has opened, on
  its way to \<open>receive_for\<close> or to the callback. \<open>receiver\<close> is the abstract specification, without
  threads, locks or notifications; every step of the machine is one of its steps, and the order,
  loss and bound properties are proved on it.
\<close>

section \<open>Views of a run\<close>

text \<open>
  The text messages opened, those queued or dropped, those queued, those dropped, those handed to a
  caller of \<open>receive_for\<close>, those taken off the callback queue.
\<close>

fun texts :: "event list \<Rightarrow> bytes list" where
  "texts [] = []"
| "texts (Got t pt # es) = (if t = kMsgText then pt # texts es else texts es)"
| "texts (_ # es) = texts es"

fun handled :: "event list \<Rightarrow> bytes list" where
  "handled [] = []"
| "handled (Queued pt # es) = pt # handled es"
| "handled (Dropped pt # es) = pt # handled es"
| "handled (_ # es) = handled es"

fun queued :: "event list \<Rightarrow> bytes list" where
  "queued [] = []"
| "queued (Queued pt # es) = pt # queued es"
| "queued (_ # es) = queued es"

fun dropped :: "event list \<Rightarrow> bytes list" where
  "dropped [] = []"
| "dropped (Dropped pt # es) = pt # dropped es"
| "dropped (_ # es) = dropped es"

fun delivered :: "event list \<Rightarrow> bytes list" where
  "delivered [] = []"
| "delivered (Returned u (Ret_recv (Inr pt)) # es) = pt # delivered es"
| "delivered (_ # es) = delivered es"

fun taken :: "event list \<Rightarrow> bytes list" where
  "taken [] = []"
| "taken (Callback pt # es) = pt # taken es"
| "taken (Skipped pt # es) = pt # taken es"
| "taken (_ # es) = taken es"

fun called :: "event list \<Rightarrow> bytes list" where
  "called [] = []"
| "called (Callback pt # es) = pt # called es"
| "called (_ # es) = called es"

lemma view_append [simp]:
  "texts (es @ es') = texts es @ texts es'"
  "handled (es @ es') = handled es @ handled es'"
  "queued (es @ es') = queued es @ queued es'"
  "dropped (es @ es') = dropped es @ dropped es'"
  "delivered (es @ es') = delivered es @ delivered es'"
  "taken (es @ es') = taken es @ taken es'"
  "called (es @ es') = called es @ called es'"
  subgoal by (induction es rule: texts.induct) simp_all
  subgoal by (induction es rule: handled.induct) simp_all
  subgoal by (induction es rule: queued.induct) simp_all
  subgoal by (induction es rule: dropped.induct) simp_all
  subgoal by (induction es rule: delivered.induct) simp_all
  subgoal by (induction es rule: taken.induct) simp_all
  subgoal by (induction es rule: called.induct) simp_all
  done

section \<open>Specification\<close>

text \<open>The reader between two records, holding a message for a queue, replying to a ping, ending.\<close>

datatype rphase =
    Reading
  | Holding_q bytes
  | Holding_j bytes
  | Replying
  | Aborting error_code
  | Ended
  | Stuck bytes

fun rphase_of :: "reader_pc \<Rightarrow> rphase" where
  "rphase_of R_read = Reading"
| "rphase_of (R_abort ec) = Aborting ec"
| "rphase_of (R_jobs pt) = Holding_j pt"
| "rphase_of (R_enqueue pt) = Holding_q pt"
| "rphase_of (R_enqueue_wait pt) = Holding_q pt"
| "rphase_of (R_ping pt) = Replying"
| "rphase_of (R_ping_wait pt) = Replying"
| "rphase_of (R_enqueue_abort pt) = Stuck pt"
| "rphase_of _ = Ended"

text \<open>The message the delivery thread has taken and not yet passed on.\<close>

fun deliver_hand :: "deliver_pc \<Rightarrow> bytes list" where
  "deliver_hand (D_call pt) = [pt]"
| "deliver_hand (D_drain_call pt) = [pt]"
| "deliver_hand _ = []"

record receiver =
  r_phase :: rphase
  r_queue :: "bytes list"
  r_jobs :: "bytes list"
  r_held :: "bytes list"
  r_closed :: bool
  r_err :: error_code
  r_dropped :: u64

definition receiver_of :: "('k, 'r, 'cb) conn \<Rightarrow> receiver" where
  "receiver_of c = \<lparr>r_phase = rphase_of (c_reader c), r_queue = c_recv_q c, r_jobs = c_msg_jobs c,
     r_held = deliver_hand (c_deliver c), r_closed = c_recv_closed c, r_err = c_recv_err c,
     r_dropped = c_callback_dropped c\<rparr>"

definition r_close :: "error_code \<Rightarrow> receiver \<Rightarrow> receiver" where
  "r_close ec s = (if r_closed s then s
     else s\<lparr>r_closed := True, r_err := if ec_fails ec then ec else DuplexEc errc_closed\<rparr>)"

fun is_recv_event :: "event \<Rightarrow> bool" where
  "is_recv_event (Got _ _) = True"
| "is_recv_event (Queued _) = True"
| "is_recv_event (Dropped _) = True"
| "is_recv_event (Callback _) = True"
| "is_recv_event (Skipped _) = True"
| "is_recv_event (Returned _ (Ret_recv (Inr _))) = True"
| "is_recv_event _ = False"

definition recv_events :: "event list \<Rightarrow> event list" where
  "recv_events es = filter is_recv_event es"

inductive receiver_step :: "'cb FrozenConfig \<Rightarrow> receiver \<Rightarrow> event list \<Rightarrow> receiver \<Rightarrow> bool" for cfg where
  r_skip: "receiver_step cfg s [] s"
| r_fail: "r_phase s = Reading \<Longrightarrow> receiver_step cfg s [] (s\<lparr>r_phase := Aborting ec\<rparr>)"
| r_got: "r_phase s = Reading \<Longrightarrow>
    receiver_step cfg s [Got t pt] (s\<lparr>r_phase := rphase_of (read_dispatch cfg t pt)\<rparr>)"
| r_abort: "r_phase s = Aborting ec \<Longrightarrow> receiver_step cfg s [] ((r_close ec s)\<lparr>r_phase := Ended\<rparr>)"
| r_enqueue: "r_phase s = Holding_q pt \<Longrightarrow> \<not> r_closed s \<Longrightarrow>
    int_of_size (length (r_queue s)) < receive_queue_depth cfg \<Longrightarrow>
    receiver_step cfg s [Queued pt] (s\<lparr>r_queue := r_queue s @ [pt], r_phase := Reading\<rparr>)"
| r_refuse: "r_phase s = Holding_q pt \<Longrightarrow> r_closed s \<Longrightarrow> receiver_step cfg s [] (s\<lparr>r_phase := Reading\<rparr>)"
| r_stuck: "r_phase s = Holding_q pt \<Longrightarrow> receive_queue_depth cfg \<le> int_of_size (length (r_queue s)) \<Longrightarrow>
    receiver_step cfg s [] (s\<lparr>r_phase := Stuck pt\<rparr>)"
| r_job: "r_phase s = Holding_j pt \<Longrightarrow> int_of_size (length (r_jobs s)) < on_message_buffer_depth cfg \<Longrightarrow>
    receiver_step cfg s [Queued pt] (s\<lparr>r_jobs := r_jobs s @ [pt], r_phase := Reading\<rparr>)"
| r_drop: "r_phase s = Holding_j pt \<Longrightarrow> \<not> disconnect_on_slow_callback_consumer cfg \<Longrightarrow>
    on_message_buffer_depth cfg \<le> int_of_size (length (r_jobs s)) \<Longrightarrow>
    receiver_step cfg s [Dropped pt] (s\<lparr>r_dropped := r_dropped s + 1, r_phase := Reading\<rparr>)"
| r_slow: "r_phase s = Holding_j pt \<Longrightarrow> disconnect_on_slow_callback_consumer cfg \<Longrightarrow>
    on_message_buffer_depth cfg \<le> int_of_size (length (r_jobs s)) \<Longrightarrow>
    receiver_step cfg s [] ((r_close (DuplexEc errc_slow_consumer) s)\<lparr>r_phase := Ended\<rparr>)"
| r_pong: "r_phase s = Replying \<Longrightarrow> receiver_step cfg s [] (s\<lparr>r_phase := Reading\<rparr>)"
| r_stop: "r_phase s = Replying \<Longrightarrow>
    receiver_step cfg s [] ((r_close (DuplexEc errc_closed) s)\<lparr>r_phase := Ended\<rparr>)"
| r_pop: "r_queue s = pt # q \<Longrightarrow>
    receiver_step cfg s [Returned u (Ret_recv (Inr pt))] (s\<lparr>r_queue := q\<rparr>)"
| r_take: "r_held s = [] \<Longrightarrow> r_jobs s = pt # q \<Longrightarrow>
    receiver_step cfg s [] (s\<lparr>r_held := [pt], r_jobs := q\<rparr>)"
| r_call: "r_held s = [pt] \<Longrightarrow> receiver_step cfg s [Callback pt] (s\<lparr>r_held := []\<rparr>)"
| r_skip_empty: "r_held s = [pt] \<Longrightarrow> pt = [] \<Longrightarrow> receiver_step cfg s [Skipped pt] (s\<lparr>r_held := []\<rparr>)"

inductive receiver_run :: "'cb FrozenConfig \<Rightarrow> receiver \<Rightarrow> event list \<Rightarrow> receiver \<Rightarrow> bool" for cfg where
  rr_nil: "receiver_run cfg s [] s"
| rr_step: "receiver_run cfg s es s1 \<Longrightarrow> receiver_step cfg s1 es' s2 \<Longrightarrow> receiver_run cfg s (es @ es') s2"

section \<open>Refinement\<close>

lemma rphase_of_wake [simp]:
  "rphase_of (wake_send_reader r) = rphase_of r" "rphase_of (wake_recv_reader r) = rphase_of r"
  by (cases r; simp)+

lemma deliver_hand_wake [simp]: "deliver_hand (wake_jobs d) = deliver_hand d"
  by (cases d) simp_all

lemma recv_events_simps [simp]:
  "recv_events [] = []"
  "recv_events (e # es) = (if is_recv_event e then e # recv_events es else recv_events es)"
  "recv_events (es @ es') = recv_events es @ recv_events es'"
  by (simp_all add: recv_events_def)

declare r_skip [simp]

lemma receiver_of_abort [simp]:
  "receiver_of ((Conn_abort_recv ec c)\<lparr>c_reader := R_store_done\<rparr>) = (r_close ec (receiver_of c))\<lparr>r_phase := Ended\<rparr>"
  by (simp add: receiver_of_def r_close_def Conn_abort_recv_def Let_def)

lemma read_one_recv:
  assumes "c_reader c = R_read" and "read_one p lib c = (es, c')"
  shows "receiver_step (c_cfg c) (receiver_of c) (recv_events es) (receiver_of c')"
proof -
  have ph: "r_phase (receiver_of c) = Reading" using assms(1) by (simp add: receiver_of_def)
  show ?thesis using assms r_fail [OF ph] r_got [OF ph]
    by (auto simp: read_one_def receiver_of_def split: prod.splits sum.splits)
qed

lemma read_jobs_recv:
  assumes "c_reader c = R_jobs pt" and "read_jobs pt c = (es, c')"
  shows "receiver_step (c_cfg c) (receiver_of c) (recv_events es) (receiver_of c')"
proof -
  have ph: "r_phase (receiver_of c) = Holding_j pt" using assms(1) by (simp add: receiver_of_def)
  show ?thesis using assms r_job [OF ph, of "c_cfg c"] r_drop [OF ph, of "c_cfg c"] r_slow [OF ph, of "c_cfg c"]
    by (auto simp: read_jobs_def simp del: Conn_abort_recv_sel split: if_splits)
      (auto simp: receiver_of_def)
qed

lemma read_enqueue_recv:
  assumes "c_reader c = R_enqueue pt" and "read_enqueue pt c = (es, c')"
  shows "receiver_step (c_cfg c) (receiver_of c) (recv_events es) (receiver_of c')"
proof -
  have ph: "r_phase (receiver_of c) = Holding_q pt" using assms(1) by (simp add: receiver_of_def)
  show ?thesis using assms r_enqueue [OF ph, of "c_cfg c"] r_refuse [OF ph, of "c_cfg c"] r_stuck [OF ph, of "c_cfg c"]
    by (auto simp: read_enqueue_def Let_def receiver_of_def split: if_splits)
qed

lemma read_ping_recv:
  assumes "c_reader c = R_ping pt" and "read_ping pt c = (es, c')"
  shows "receiver_step (c_cfg c) (receiver_of c) (recv_events es) (receiver_of c')"
proof -
  have ph: "r_phase (receiver_of c) = Replying" using assms(1) by (simp add: receiver_of_def)
  show ?thesis using assms r_pong [OF ph, of "c_cfg c"] r_stop [OF ph, of "c_cfg c"]
    by (auto simp: read_ping_def Let_def split: if_splits) (auto simp: receiver_of_def)
qed

lemma reader_recv:
  assumes "exec_reader p lib (c_reader c) c = Some (es, c')"
  shows "receiver_step (c_cfg c) (receiver_of c) (recv_events es) (receiver_of c')"
proof (cases "c_reader c")
  case (R_abort ec)
  then have "r_phase (receiver_of c) = Aborting ec" by (simp add: receiver_of_def)
  from r_abort [OF this] R_abort assms show ?thesis by auto
next
  case R_store_done
  with assms show ?thesis by (auto simp: receiver_of_def)
next
  case R_notify_done
  with assms show ?thesis by (auto simp: receiver_of_def)
qed (use assms read_one_recv read_jobs_recv read_enqueue_recv read_ping_recv in auto)

lemma writer_recv:
  assumes "exec_writer p lib (c_writer c) c = Some (es, c')"
  shows "receiver_step cfg (receiver_of c) (recv_events es) (receiver_of c')"
  using assms
  by (cases "c_writer c")
    (auto simp: write_lock_def write_flush_def Conn_write_out_def receiver_of_def Let_def
      split: prod.splits sum.splits list.splits if_splits)

lemma deliver_recv:
  assumes "exec_deliver (c_deliver c) c = Some (es, c')"
  shows "receiver_step cfg (receiver_of c) (recv_events es) (receiver_of c')"
  using assms r_take [of "receiver_of c" _ _ cfg] r_call [of "receiver_of c" _ cfg]
    r_skip_empty [of "receiver_of c" _ cfg]
  by (cases "c_deliver c")
    (auto simp: deliver_lock_def deliver_drain_def receiver_of_def split: list.splits if_splits)

lemma send_locked_recv:
  "send_locked u payload t x c = (es, c') \<Longrightarrow>
     receiver_step cfg (receiver_of c) (recv_events es) (receiver_of c')"
  by (auto simp: send_locked_def receiver_of_def Let_def split: if_splits)

lemma receive_locked_recv:
  "receive_locked u t x c = (es, c') \<Longrightarrow>
     receiver_step cfg (receiver_of c) (recv_events es) (receiver_of c')"
  using r_pop [of "receiver_of c" _ _ cfg u]
  by (auto simp: receive_locked_def receiver_of_def split: if_splits list.splits)

lemma call_recv:
  "exec_call u op c = (es, c') \<Longrightarrow> receiver_step cfg (receiver_of c) (recv_events es) (receiver_of c')"
  by (cases op) (auto simp: Conn_send_for_def Conn_receive_for_def Conn_shutdown_def receiver_of_def
      split: if_splits)

lemma user_recv:
  assumes "exec_user p u pc c = Some (es, c')"
  shows "receiver_step cfg (receiver_of c) (recv_events es) (receiver_of c')"
  using assms send_locked_recv [of u _ _ False c es c'] receive_locked_recv [of u _ False c es c']
  by (cases pc) (auto simp: shutdown_stop_def shutdown_deliver_def shutdown_sock_def
      shutdown_return_def receiver_of_def Let_def split: if_splits prod.splits)

lemma timeout_recv:
  assumes "exec_timeout u pc c = Some (es, c')"
  shows "receiver_step cfg (receiver_of c) (recv_events es) (receiver_of c')"
  using assms send_locked_recv [of u _ _ True c es c'] receive_locked_recv [of u _ True c es c']
  by (cases "(u, pc, c)" rule: exec_timeout.cases)
    (auto simp: shutdown_return_def receiver_of_def split: if_splits)

lemma exec_recv:
  assumes "exec p lib a c = Some (es, c')"
  shows "receiver_step (c_cfg c) (receiver_of c) (recv_events es) (receiver_of c')"
proof (cases a)
  case A_spurious
  with assms show ?thesis by (auto simp: spurious_def receiver_of_def)
qed (use assms reader_recv writer_recv deliver_recv call_recv user_recv timeout_recv
    in \<open>auto split: if_splits\<close>)

lemma conn_run_recv:
  assumes "conn_run p lib c as es c'"
  shows "receiver_run (c_cfg c) (receiver_of c) (recv_events es) (receiver_of c')"
  using assms
proof induction
  case (run_step c as es c1 a es' c2)
  have "c_cfg c1 = c_cfg c" using conn_run_cfg [OF run_step.hyps(1)] by simp
  with run_step exec_recv [OF run_step.hyps(2)] show ?case by (simp add: rr_step)
qed (simp add: rr_nil)

section \<open>Properties of the specification\<close>

lemma view_recv_events [simp]:
  "texts (recv_events es) = texts es"
  "handled (recv_events es) = handled es"
  "queued (recv_events es) = queued es"
  "dropped (recv_events es) = dropped es"
  "delivered (recv_events es) = delivered es"
  "taken (recv_events es) = taken es"
  "called (recv_events es) = called es"
  subgoal by (induction es rule: texts.induct) simp_all
  subgoal by (induction es rule: handled.induct) simp_all
  subgoal by (induction es rule: queued.induct) simp_all
  subgoal by (induction es rule: dropped.induct) simp_all
  subgoal by (induction es rule: delivered.induct) simp_all
  subgoal by (induction es rule: taken.induct) simp_all
  subgoal by (induction es rule: called.induct) simp_all
  done

fun phase_hand :: "rphase \<Rightarrow> bytes list" where
  "phase_hand (Holding_q pt) = [pt]"
| "phase_hand (Holding_j pt) = [pt]"
| "phase_hand (Stuck pt) = [pt]"
| "phase_hand _ = []"

text \<open>The one message that can be lost: too large, or met by a full callback queue.\<close>

definition may_lose :: "'cb FrozenConfig \<Rightarrow> bytes \<Rightarrow> bool" where
  "may_lose cfg pt \<longleftrightarrow> int_of_size (length pt) > max_message_bytes cfg \<or>
     on_message cfg \<noteq> None \<and> disconnect_on_slow_callback_consumer cfg"

definition ending :: "rphase \<Rightarrow> bool" where
  "ending ph \<longleftrightarrow> ph = Ended \<or> (\<exists>ec. ph = Aborting ec)"

definition close_inv :: "receiver \<Rightarrow> bool" where
  "close_inv s \<longleftrightarrow> (r_closed s \<longleftrightarrow> r_phase s = Ended) \<and> (r_closed s \<longrightarrow> ec_fails (r_err s))"

definition mode_inv :: "'cb FrozenConfig \<Rightarrow> rphase \<Rightarrow> bool" where
  "mode_inv cfg ph \<longleftrightarrow>
     (if on_message cfg = None then \<forall>pt. ph \<noteq> Holding_j pt
      else \<forall>pt. ph \<noteq> Holding_q pt \<and> ph \<noteq> Stuck pt)"

definition read_inv :: "'cb FrozenConfig \<Rightarrow> event list \<Rightarrow> receiver \<Rightarrow> bool" where
  "read_inv cfg es s \<longleftrightarrow>
    (\<exists>lost. texts es = handled es @ phase_hand (r_phase s) @ lost \<and>
       (lost = [] \<or> ending (r_phase s) \<and> (\<exists>pt. lost = [pt] \<and> may_lose cfg pt)))"

definition queue_inv :: "'cb FrozenConfig \<Rightarrow> event list \<Rightarrow> receiver \<Rightarrow> bool" where
  "queue_inv cfg es s \<longleftrightarrow>
    (if on_message cfg = None then
       queued es = delivered es @ r_queue s \<and> handled es = queued es \<and> dropped es = [] \<and>
       taken es = [] \<and> r_jobs s = [] \<and> r_held s = []
     else
       queued es = taken es @ r_held s @ r_jobs s \<and> delivered es = [] \<and> r_queue s = [])"

definition count_inv :: "event list \<Rightarrow> receiver \<Rightarrow> bool" where
  "count_inv es s \<longleftrightarrow> r_dropped s = word_of_nat (length (dropped es)) \<and>
     length (handled es) = length (queued es) + length (dropped es) \<and>
     filter (\<lambda>pt. pt \<noteq> []) (called es) = filter (\<lambda>pt. pt \<noteq> []) (taken es)"

lemma mode_dispatch: "mode_inv cfg (rphase_of (read_dispatch cfg t pt))"
  by (simp add: mode_inv_def read_dispatch_def)

lemma step_close_inv: "receiver_step cfg s es s' \<Longrightarrow> close_inv s \<Longrightarrow> close_inv s'"
  by (induction rule: receiver_step.induct)
    (auto simp: close_inv_def r_close_def read_dispatch_def split: if_splits)

lemma step_mode_inv: "receiver_step cfg s es s' \<Longrightarrow> mode_inv cfg (r_phase s) \<Longrightarrow> mode_inv cfg (r_phase s')"
  by (induction rule: receiver_step.induct) (auto simp: mode_inv_def read_dispatch_def split: if_splits)

lemma step_read_inv:
  assumes "receiver_step cfg s es' s'" and "close_inv s" and "mode_inv cfg (r_phase s)" and "read_inv cfg es s"
  shows "read_inv cfg (es @ es') s'"
  using assms
proof cases
  case (r_got t pt)
  with assms(4) have "texts es = handled es" by (auto simp: read_inv_def ending_def)
  with r_got show ?thesis
    by (cases "rphase_of (read_dispatch cfg t pt)")
      (auto simp: read_inv_def read_dispatch_def ending_def may_lose_def split: if_splits)
qed (auto simp: read_inv_def ending_def close_inv_def mode_inv_def may_lose_def r_close_def split: if_splits)

lemma step_queue_inv:
  assumes "receiver_step cfg s es' s'" and "mode_inv cfg (r_phase s)" and "queue_inv cfg es s"
  shows "queue_inv cfg (es @ es') s'"
  using assms
  by cases (cases "on_message cfg = None", auto simp: queue_inv_def mode_inv_def r_close_def)+

lemma step_count_inv:
  assumes "receiver_step cfg s es' s'" and "count_inv es s"
  shows "count_inv (es @ es') s'"
  using assms by cases (auto simp: count_inv_def r_close_def)

definition recv_inv :: "'cb FrozenConfig \<Rightarrow> event list \<Rightarrow> receiver \<Rightarrow> bool" where
  "recv_inv cfg es s \<longleftrightarrow> close_inv s \<and> mode_inv cfg (r_phase s) \<and> read_inv cfg es s \<and>
     queue_inv cfg es s \<and> count_inv es s"

lemma receiver_run_inv:
  assumes "receiver_run cfg s es s'" and "recv_inv cfg [] s"
  shows "recv_inv cfg es s'"
  using assms
  by (induction rule: receiver_run.induct)
    (auto simp: recv_inv_def intro: step_close_inv step_mode_inv step_read_inv step_queue_inv step_count_inv)

lemma receiver_run_bound:
  assumes "receiver_run cfg s es s'"
    and "int (length (r_queue s)) \<le> receive_queue_depth cfg" and "receive_queue_depth cfg < 2 ^ 31"
  shows "int (length (r_queue s')) \<le> receive_queue_depth cfg"
  using assms
proof (induction rule: receiver_run.induct)
  case (rr_step s es s1 es' s2)
  then have b: "int (length (r_queue s1)) \<le> receive_queue_depth cfg" by simp
  from rr_step.hyps(2) show ?case
  proof cases
    case (r_enqueue pt)
    with b rr_step.prems(2) show ?thesis by (simp add: int_of_size_small)
  qed (use b in \<open>auto simp: r_close_def\<close>)
qed

lemma receiver_run_jobs_bound:
  assumes "receiver_run cfg s es s'"
    and "int (length (r_jobs s)) \<le> max 0 (on_message_buffer_depth cfg)" and "on_message_buffer_depth cfg < 2 ^ 31"
  shows "int (length (r_jobs s')) \<le> max 0 (on_message_buffer_depth cfg)"
  using assms
proof (induction rule: receiver_run.induct)
  case (rr_step s es s1 es' s2)
  then have b: "int (length (r_jobs s1)) \<le> max 0 (on_message_buffer_depth cfg)" by simp
  from rr_step.hyps(2) show ?case
  proof cases
    case (r_job pt)
    with b rr_step.prems(2) show ?thesis by (simp add: int_of_size_small)
  qed (use b in \<open>auto simp: r_close_def\<close>)
qed

lemma receiver_run_latch:
  assumes "receiver_run cfg s es s'" and "close_inv s" and "r_closed s"
  shows "close_inv s' \<and> r_closed s' \<and> r_err s' = r_err s"
  using assms
proof (induction rule: receiver_run.induct)
  case (rr_step s es s1 es' s2)
  then have i: "close_inv s1" "r_closed s1" "r_err s1 = r_err s" by auto
  with step_close_inv [OF rr_step.hyps(2)] rr_step.hyps(2) show ?case
    by (auto elim!: receiver_step.cases simp: r_close_def)
qed simp

text \<open>The initial state of a connection.\<close>

lemma init_recv_inv: "recv_inv cfg [] (receiver_of (Conn_init sock sess cfg k g))"
  by (simp add: recv_inv_def close_inv_def mode_inv_def read_inv_def queue_inv_def count_inv_def
      receiver_of_def Conn_init_def)

lemma recv_inv_events [simp]: "recv_inv cfg (recv_events es) s = recv_inv cfg es s"
  by (simp add: recv_inv_def read_inv_def queue_inv_def count_inv_def)

lemma Conn_init_cfg [simp]: "c_cfg (Conn_init sock sess cfg k g) = cfg"
  by (simp add: Conn_init_def)

lemma conn_run_recv_inv:
  assumes "conn_run p lib (Conn_init sock sess cfg k g) as es c"
  shows "recv_inv cfg es (receiver_of c)"
proof -
  have "receiver_run cfg (receiver_of (Conn_init sock sess cfg k g)) (recv_events es) (receiver_of c)"
    using conn_run_recv [OF assms] by simp
  from receiver_run_inv [OF this init_recv_inv] show ?thesis by simp
qed

end
