(* ===== verification/Tdx_Conn_Wire.thy ===== *)
theory Tdx_Conn_Wire
  imports Tdx_Conn_Send Tdx_Conn_Recv
begin

text \<open>
  The connection on the wire: the records a connection writes and reads, as bytes of the two TCP
  streams, sealed and opened with the session key. \<open>conn_env\<close> collects what a connection relies on:
  the operating system's stream contract and the cryptographic library's contract.
\<close>

section \<open>Messages in a byte stream\<close>

text \<open>\<open>b\<close> is a sequence of records that open to the messages \<open>ms\<close>.\<close>

fun carries :: "(bytes \<Rightarrow> error_code + bytes) \<Rightarrow> (u8 \<times> bytes) list \<Rightarrow> bytes \<Rightarrow> bool" where
  "carries opn [] b \<longleftrightarrow> b = []"
| "carries opn ((t, pt) # ms) b \<longleftrightarrow>
     (\<exists>x r. b = record_bytes t x @ r \<and> record_fits x \<and> opn x = Inr pt \<and> carries opn ms r)"

lemma carries_append:
  "carries opn ms b \<Longrightarrow> carries opn ms' b' \<Longrightarrow> carries opn (ms @ ms') (b @ b')"
proof (induction opn ms b rule: carries.induct)
  case (2 opn t pt ms b)
  then obtain x r where "b = record_bytes t x @ r" "record_fits x" "opn x = Inr pt" "carries opn ms r"
    by auto
  with 2 have "carries opn (ms @ ms') (r @ b')" by blast
  with \<open>b = _\<close> \<open>record_fits x\<close> \<open>opn x = Inr pt\<close> show ?case by fastforce
qed simp

lemma carries_one: "record_fits x \<Longrightarrow> opn x = Inr pt \<Longrightarrow> carries opn [(t, pt)] (record_bytes t x)"
  by force

text \<open>Whoever reads records off a prefix of the stream reads a prefix of the messages.\<close>

lemma carries_prefix:
  assumes "carries opn ms b" and "carries opn ms' b'" and "prefix b' b"
  shows "prefix ms' ms"
  using assms
proof (induction ms' arbitrary: ms b b')
  case (Cons m ms')
  obtain t pt where m: "m = (t, pt)" by (cases m)
  obtain x r' where x: "b' = record_bytes t x @ r'" "record_fits x" "opn x = Inr pt" "carries opn ms' r'"
    using Cons.prems(2) m by auto
  obtain z where b: "b = record_bytes t x @ r' @ z" using Cons.prems(3) x by (auto elim!: prefixE)
  then have "ms \<noteq> []" using Cons.prems(1) by (auto simp: record_bytes_def put_be32_def)
  then obtain t2 pt2 ms2 where ms: "ms = (t2, pt2) # ms2" by (cases ms) auto
  with Cons.prems(1) obtain x2 r2 where
    x2: "b = record_bytes t2 x2 @ r2" "record_fits x2" "opn x2 = Inr pt2" "carries opn ms2 r2" by auto
  from b x2(1) have "record_bytes t x @ r' @ z = record_bytes t2 x2 @ r2" by simp
  from record_bytes_inj [OF this x(2) x2(2)] have "t = t2" "x = x2" "r2 = r' @ z" by auto
  with x x2 Cons.IH [of ms2 r2 r'] ms m show ?case by simp
qed simp

section \<open>What a connection relies on\<close>

fun gots :: "event list \<Rightarrow> (u8 \<times> bytes) list" where
  "gots [] = []"
| "gots (Got t pt # es) = (t, pt) # gots es"
| "gots (_ # es) = gots es"

lemma gots_append [simp]: "gots (es @ es') = gots es @ gots es'"
  by (induction es rule: gots.induct) simp_all

definition msgs :: "(outbound \<times> bool) list \<Rightarrow> (u8 \<times> bytes) list" where
  "msgs ws = map (\<lambda>(out, ok). (ob_typ out, ob_pt out)) ws"

lemma msgs_append [simp]: "msgs (ws @ ws') = msgs ws @ msgs ws'"
  by (simp add: msgs_def)

lemma texts_gots: "texts es = map snd (filter (\<lambda>(t, pt). t = kMsgText) (gots es))"
  by (induction es rule: gots.induct) auto

text \<open>The reader will read no further record.\<close>

definition halted :: "rphase \<Rightarrow> bool" where
  "halted ph \<longleftrightarrow> ending ph \<or> (\<exists>pt. ph = Stuck pt)"

lemma halted_step: "receiver_step cfg s es s' \<Longrightarrow> halted (r_phase s) \<Longrightarrow> halted (r_phase s')"
  by (erule receiver_step.cases) (auto simp: halted_def ending_def r_close_def)

lemma exec_halted:
  "exec p lib a c = Some (es, c') \<Longrightarrow> halted (rphase_of (c_reader c)) \<Longrightarrow> halted (rphase_of (c_reader c'))"
  using halted_step [OF exec_recv] by (fastforce simp: receiver_of_def)

lemma unfinished_all_ok:
  assumes "sender_inv es s" and "s_phase s \<noteq> Finished"
  shows "list_all snd (wire es)"
  using assms by (auto simp: sender_inv_def list_all_iff)

locale conn_env = posix_conn p fd inp out + crypto_api lib
  for p :: "('k, 'a) posix" and fd :: int and inp out :: "'k \<Rightarrow> bytes" and lib :: "('h, 'r) crypto_lib"
begin

definition sock_ok :: "('k, 'r, 'cb) conn \<Rightarrow> bool" where
  "sock_ok c \<longleftrightarrow> c_sock c \<in> {\<lparr>sock_fd = fd\<rparr>, \<lparr>sock_fd = kInvalidSocket\<rparr>}"

lemma write_out_wire:
  assumes "Conn_write_out p lib m c = (ok, c')" and "sock_ok c"
  shows "sock_ok c' \<and> inp (c_kernel c') = inp (c_kernel c) \<and>
    ((\<not> ok \<and> out (c_kernel c') = out (c_kernel c)) \<or>
     (\<exists>x. record_fits x \<and> Session_open lib (c_sess c) x = Inr (ob_pt m) \<and>
        prefix (out (c_kernel c)) (out (c_kernel c')) \<and>
        prefix (out (c_kernel c')) (out (c_kernel c) @ record_bytes (ob_typ m) x) \<and>
        (ok \<longrightarrow> out (c_kernel c') = out (c_kernel c) @ record_bytes (ob_typ m) x)))"
proof (cases "Session_seal lib (c_sess c) (ob_pt m) (c_rng c)")
  case (Pair r g)
  show ?thesis
  proof (cases r)
    case (Inl ec)
    with Pair assms show ?thesis by (auto simp: Conn_write_out_def sock_ok_def)
  next
    case (Inr x)
    with Pair have seal: "Session_seal lib (c_sess c) (ob_pt m) (c_rng c) = (Inr x, g)" by simp
    obtain ec k where w: "write_record (SocketStream p (c_sock c)) (ob_typ m) x (c_kernel c) = (ec, k)"
      by fastforce
    with seal assms(1) have c': "ok = (\<not> ec_fails ec)" "c' = c\<lparr>c_rng := g, c_kernel := k\<rparr>"
      by (auto simp: Conn_write_out_def)
    have x: "record_fits x" "Session_open lib (c_sess c) x = Inr (ob_pt m)"
      using seal_length [OF seal] open_seal [OF seal] by auto
    from assms(2) consider "c_sock c = \<lparr>sock_fd = fd\<rparr>" | "c_sock c = \<lparr>sock_fd = kInvalidSocket\<rparr>"
      by (auto simp: sock_ok_def)
    then show ?thesis
    proof cases
      case 1
      with open_write_record [of "ob_typ m" x "c_kernel c" ec k] w c' x assms(2) show ?thesis
        by (auto simp: sock_ok_def)
    next
      case 2
      with closed_write_record [of "ob_typ m" x "c_kernel c" ec k] w c' assms(2) show ?thesis
        by (auto simp: sock_ok_def)
    qed
  qed
qed

lemma shutdown_sock_wire:
  assumes "sock_ok c"
  shows "sock_ok (shutdown_sock p c) \<and> inp (c_kernel (shutdown_sock p c)) = inp (c_kernel c) \<and>
    out (c_kernel (shutdown_sock p c)) = out (c_kernel c)"
  using assms by (auto simp: shutdown_sock_def TcpSocket_close_def sock_ok_def close_inp close_out Let_def)

text \<open>One step on the streams: nothing, one record written, or one record read.\<close>

definition wire_step :: "('k, 'r, 'cb) conn \<Rightarrow> event list \<Rightarrow> ('k, 'r, 'cb) conn \<Rightarrow> bool" where
  "wire_step c es c' \<longleftrightarrow> sock_ok c' \<and>
    ((wire es = [] \<and> gots es = [] \<and> inp (c_kernel c') = inp (c_kernel c) \<and> out (c_kernel c') = out (c_kernel c)) \<or>
     (\<exists>m ok c1. es = [Wrote m ok] \<and> phase_of (c_writer c) \<noteq> Finished \<and> Conn_write_out p lib m c = (ok, c1) \<and>
        c_kernel c' = c_kernel c1) \<or>
     (wire es = [] \<and> c_reader c = R_read \<and> out (c_kernel c') = out (c_kernel c) \<and>
       (gots es = [] \<and> ending (rphase_of (c_reader c')) \<or>
        (\<exists>t pt x. gots es = [(t, pt)] \<and> record_fits x \<and> Session_open lib (c_sess c) x = Inr pt \<and>
           inp (c_kernel c) = record_bytes t x @ inp (c_kernel c')))))"

lemma read_one_wire:
  assumes "c_reader c = R_read" and "read_one p lib c = (es, c')" and "sock_ok c"
  shows "wire_step c es c'"
proof -
  obtain r k where r: "read_record (SocketStream p (c_sock c)) (c_kernel c) = (r, k)" by fastforce
  have k: "out k = out (c_kernel c) \<and>
      (\<forall>t x. r = Inr (t, x) \<longrightarrow> record_fits x \<and> inp (c_kernel c) = record_bytes t x @ inp k)"
    using assms(3) r open_read_record [of "c_kernel c" r k] closed_read_record [of "c_kernel c" r k]
    by (auto simp: sock_ok_def)
  show ?thesis
    using assms r k
    by (cases r) (auto simp: read_one_def wire_step_def sock_ok_def ending_def split: prod.splits sum.splits)
qed

lemma quiet_wire:
  assumes "wire es = []" "gots es = []" "c_sock c' = c_sock c" "c_kernel c' = c_kernel c" "sock_ok c"
  shows "wire_step c es c'"
  using assms by (simp add: wire_step_def sock_ok_def)

lemma reader_wire:
  assumes "exec_reader p lib (c_reader c) c = Some (es, c')" and "sock_ok c"
  shows "wire_step c es c'"
proof (cases "c_reader c = R_read")
  case True
  with assms read_one_wire show ?thesis by auto
next
  case False
  with assms(1) have "wire es = [] \<and> gots es = [] \<and> c_sock c' = c_sock c \<and> c_kernel c' = c_kernel c"
    by (cases "c_reader c")
      (auto simp: read_jobs_def read_enqueue_def read_ping_def Let_def split: if_splits)
  with quiet_wire assms(2) show ?thesis by blast
qed

lemma writer_wire:
  assumes "exec_writer p lib (c_writer c) c = Some (es, c')" and "sock_ok c"
  shows "wire_step c es c'"
proof -
  have w: "wire_step c [Wrote m ok] (c1\<lparr>c_writer := pc\<rparr>)"
    if "Conn_write_out p lib m c = (ok, c1)" "phase_of (c_writer c) \<noteq> Finished" for m ok c1 pc
    using that write_out_wire [OF that(1) assms(2)] by (auto simp: wire_step_def sock_ok_def)
  show ?thesis
  proof (cases "(\<exists>m. c_writer c \<in> {W_write m, W_flush_write m}) \<or> c_writer c = W_close")
    case True
    with assms(1) w show ?thesis by (auto split: prod.splits)
  next
    case False
    with assms(1) have "wire es = [] \<and> gots es = [] \<and> c_sock c' = c_sock c \<and> c_kernel c' = c_kernel c"
      by (cases "c_writer c")
        (auto simp: write_lock_def write_flush_def split: if_splits list.splits)
    with quiet_wire assms(2) show ?thesis by blast
  qed
qed

lemma locked_quiet:
  "send_locked u payload t x c = (es, c') \<Longrightarrow> wire es = [] \<and> gots es = [] \<and> c_sock c' = c_sock c \<and> c_kernel c' = c_kernel c"
  "receive_locked u t x c = (es, c') \<Longrightarrow> wire es = [] \<and> gots es = [] \<and> c_sock c' = c_sock c \<and> c_kernel c' = c_kernel c"
  by (auto simp: send_locked_def receive_locked_def Let_def split: if_splits list.splits)

lemma call_wire: "exec_call u op c = (es, c') \<Longrightarrow> sock_ok c \<Longrightarrow> wire_step c es c'"
  by (rule quiet_wire; cases op)
    (auto simp: Conn_send_for_def Conn_receive_for_def Conn_shutdown_def split: if_splits)

lemma deliver_wire:
  assumes "exec_deliver pc c = Some (es, c')" and "sock_ok c"
  shows "wire_step c es c'"
proof -
  from assms(1) have "wire es = [] \<and> gots es = [] \<and> c_sock c' = c_sock c \<and> c_kernel c' = c_kernel c"
    by (cases pc) (auto simp: deliver_lock_def deliver_drain_def split: list.splits if_splits)
  with quiet_wire assms(2) show ?thesis by blast
qed

lemma user_wire:
  assumes "exec_user p u pc c = Some (es, c')" and "sock_ok c"
  shows "wire_step c es c'"
proof (cases "\<exists>d w ec. pc = U_sd_sock d w ec")
  case True
  then obtain d w ec where "es = []" "c' = set_user u (U_sd_rtest d w ec) (shutdown_sock p c)"
    using assms(1) by auto
  with shutdown_sock_wire [OF assms(2)] show ?thesis by (simp add: wire_step_def sock_ok_def)
next
  case False
  with assms(1) have "wire es = [] \<and> gots es = [] \<and> c_sock c' = c_sock c \<and> c_kernel c' = c_kernel c"
    by (cases pc) (auto simp: shutdown_stop_def shutdown_deliver_def shutdown_return_def
        dest: locked_quiet split: if_splits)
  with quiet_wire assms(2) show ?thesis by blast
qed

lemma timeout_wire:
  assumes "exec_timeout u pc c = Some (es, c')" and "sock_ok c"
  shows "wire_step c es c'"
proof -
  from assms(1) have "wire es = [] \<and> gots es = [] \<and> c_sock c' = c_sock c \<and> c_kernel c' = c_kernel c"
    by (cases "(u, pc, c)" rule: exec_timeout.cases)
      (auto simp: shutdown_return_def dest: locked_quiet split: if_splits)
  with quiet_wire assms(2) show ?thesis by blast
qed

lemma exec_wire:
  assumes "exec p lib a c = Some (es, c')" and "sock_ok c"
  shows "wire_step c es c'"
proof (cases a)
  case A_spurious
  with assms show ?thesis by (auto simp: spurious_def intro: quiet_wire)
qed (use assms reader_wire writer_wire deliver_wire call_wire user_wire timeout_wire in \<open>auto split: if_splits\<close>)

text \<open>
  What is on the wire: while no write has failed exactly the messages written so far; after a
  failed one a prefix of a record sequence of messages that were taken from the queue.
\<close>

definition out_inv :: "bytes \<Rightarrow> event list \<Rightarrow> ('k, 'r, 'cb) conn \<Rightarrow> bool" where
  "out_inv out0 es c \<longleftrightarrow>
    (list_all snd (wire es) \<longrightarrow>
       (\<exists>d. out (c_kernel c) = out0 @ d \<and> carries (Session_open lib (c_sess c)) (msgs (wire es)) d)) \<and>
    (\<exists>ms d. prefix ms (msgs (wire es)) \<and> carries (Session_open lib (c_sess c)) ms d \<and>
       prefix out0 (out (c_kernel c)) \<and> prefix (out (c_kernel c)) (out0 @ d))"

definition in_inv :: "bytes \<Rightarrow> event list \<Rightarrow> ('k, 'r, 'cb) conn \<Rightarrow> bool" where
  "in_inv inp0 es c \<longleftrightarrow>
    (\<exists>b r. inp0 = b @ r \<and> carries (Session_open lib (c_sess c)) (gots es) b \<and>
       (\<not> halted (rphase_of (c_reader c)) \<longrightarrow> r = inp (c_kernel c)))"

lemma out_inv_step:
  assumes "wire_step c es' c'" and "c_sess c' = c_sess c" and "out_inv out0 es c" and "sock_ok c"
    and "phase_of (c_writer c) \<noteq> Finished \<longrightarrow> list_all snd (wire es)"
  shows "out_inv out0 (es @ es') c'"
proof (cases "\<exists>m ok. es' = [Wrote m ok]")
  case False
  with assms(1) have "wire es' = []" "out (c_kernel c') = out (c_kernel c)"
    by (auto simp: wire_step_def)
  with assms(2,3) show ?thesis by (simp add: out_inv_def)
next
  case True
  let ?opn = "Session_open lib (c_sess c)"
  obtain m ok c1 where es': "es' = [Wrote m ok]" and w: "Conn_write_out p lib m c = (ok, c1)"
    and k: "c_kernel c' = c_kernel c1" and ph: "phase_of (c_writer c) \<noteq> Finished"
    using True assms(1) by (auto simp: wire_step_def)
  have all: "list_all snd (wire es)" using ph assms(5) by blast
  then obtain d where d: "out (c_kernel c) = out0 @ d" "carries ?opn (msgs (wire es)) d"
    using assms(3) by (auto simp: out_inv_def)
  from write_out_wire [OF w assms(4)] show ?thesis
  proof (elim conjE disjE exE)
    assume "\<not> ok" "out (c_kernel c1) = out (c_kernel c)"
    with assms(3) es' k assms(2) show ?thesis
      by (auto simp: out_inv_def intro: prefix_order.trans [OF _ prefixI])
  next
    fix x
    assume x: "record_fits x" "?opn x = Inr (ob_pt m)"
      "prefix (out (c_kernel c)) (out (c_kernel c1))"
      "prefix (out (c_kernel c1)) (out (c_kernel c) @ record_bytes (ob_typ m) x)"
      and ok: "ok \<longrightarrow> out (c_kernel c1) = out (c_kernel c) @ record_bytes (ob_typ m) x"
    have "carries ?opn (msgs (wire (es @ es'))) (d @ record_bytes (ob_typ m) x)"
      using carries_append [OF d(2) carries_one [where opn = ?opn, OF x(1,2), of "ob_typ m"]] es' by (simp add: msgs_def)
    moreover have "prefix out0 (out (c_kernel c1))" using x(3) d(1) by (auto elim!: prefixE)
    moreover have "prefix (out (c_kernel c1)) (out0 @ d @ record_bytes (ob_typ m) x)" using x(4) d(1) by simp
    ultimately show ?thesis using ok d(1) k es' assms(2) by (auto simp: out_inv_def)
  qed
qed

lemma in_inv_step:
  assumes "wire_step c es' c'" and "c_sess c' = c_sess c" and "in_inv inp0 es c" and "sock_ok c"
    and "halted (rphase_of (c_reader c)) \<longrightarrow> halted (rphase_of (c_reader c'))"
  shows "in_inv inp0 (es @ es') c'"
proof -
  let ?opn = "Session_open lib (c_sess c)"
  obtain b r where b: "inp0 = b @ r" "carries ?opn (gots es) b"
      "\<not> halted (rphase_of (c_reader c)) \<longrightarrow> r = inp (c_kernel c)"
    using assms(3) by (auto simp: in_inv_def)
  from assms(1) consider (same) "gots es' = []" "inp (c_kernel c') = inp (c_kernel c)"
    | (failed) "gots es' = []" "ending (rphase_of (c_reader c'))"
    | (got) t pt x where "gots es' = [(t, pt)]" "c_reader c = R_read" "record_fits x" "?opn x = Inr pt"
        "inp (c_kernel c) = record_bytes t x @ inp (c_kernel c')"
    using write_out_wire [OF _ assms(4)] by (auto simp: wire_step_def)
  then show ?thesis
  proof cases
    case same
    with b assms(2,5) show ?thesis by (auto simp: in_inv_def)
  next
    case failed
    with b assms(2) show ?thesis by (auto simp: in_inv_def halted_def)
  next
    case (got t pt x)
    then have "r = record_bytes t x @ inp (c_kernel c')" using b(3) by (simp add: halted_def ending_def)
    with b(1) have "inp0 = (b @ record_bytes t x) @ inp (c_kernel c')" by simp
    moreover have "carries ?opn (gots (es @ es')) (b @ record_bytes t x)"
      using carries_append [OF b(2) carries_one [where opn = ?opn, OF got(3,4), of t]] got(1) by simp
    ultimately show ?thesis unfolding in_inv_def assms(2) by blast
  qed
qed

lemma conn_run_wire:
  assumes "conn_run p lib (Conn_init \<lparr>sock_fd = fd\<rparr> sess cfg k g) as es c"
  shows "sock_ok c \<and> out_inv (out k) es c \<and> in_inv (inp k) es c"
  using assms
proof (induction "Conn_init \<lparr>sock_fd = fd\<rparr> sess cfg k g" as es c rule: conn_run.induct)
  case run_nil
  show ?case
    by (auto simp: sock_ok_def out_inv_def in_inv_def Conn_init_def msgs_def)
next
  case (run_step as es c1 a es' c2)
  have sess: "c_sess c2 = c_sess c1" using exec_setup [OF run_step.hyps(3)] by (simp add: same_setup_def)
  have ok: "phase_of (c_writer c1) \<noteq> Finished \<longrightarrow> list_all snd (wire es)"
    using unfinished_all_ok [OF conn_run_sender_inv [OF run_step.hyps(1)]] by (simp add: sender_of_def)
  show ?case
    using exec_wire [OF run_step.hyps(3)] run_step.hyps(2) sess ok
      out_inv_step [of c1 es' c2] in_inv_step [of c1 es' c2] exec_halted [OF run_step.hyps(3)]
    by (auto simp: wire_step_def)
qed

end

section \<open>Two connections\<close>

definition text_payloads :: "outbound list \<Rightarrow> bytes list" where
  "text_payloads outs = map ob_pt (filter (\<lambda>m. ob_typ m = kMsgText) outs)"

lemma text_payloads_append [simp]: "text_payloads (a @ b) = text_payloads a @ text_payloads b"
  by (simp add: text_payloads_def)

text \<open>Of the texts on the wire every one was accepted, in this order.\<close>

lemma wire_texts_accepted:
  assumes "sender_inv es s"
  shows "prefix (map snd (filter (\<lambda>(t, pt). t = kMsgText) (msgs (wire es)))) (text_payloads (accepted es))"
proof -
  have ok: "map snd (filter (\<lambda>(t, pt). t = kMsgText) (msgs (map (\<lambda>m. (m, True)) sent))) = text_payloads sent"
    for sent by (induction sent) (auto simp: msgs_def text_payloads_def)
  have last: "map snd (filter (\<lambda>(t, pt). t = kMsgText) (msgs [(m, b)])) = text_payloads [m]" for m b
    by (simp add: msgs_def text_payloads_def)
  have "text_payloads [close_msg] = []" by (simp add: text_payloads_def close_msg_def)
  with assms show ?thesis
    by (auto simp: sender_inv_def ok last split: if_splits simp flip: append_Cons)
qed

lemma delivered_prefix:
  assumes "recv_inv cfg es s" and "on_message cfg = None"
  shows "prefix (delivered es) (texts es)"
  using assms by (auto simp: recv_inv_def read_inv_def queue_inv_def)

lemma prefix_filter: "prefix a b \<Longrightarrow> prefix (map f (filter P a)) (map f (filter P b))"
  by (auto elim!: prefixE)

lemma records_exchange:
  assumes A: "conn_env pA fdA inpA outA lib" and B: "conn_env pB fdB inpB outB lib"
    and rA: "conn_run pA lib (Conn_init \<lparr>sock_fd = fdA\<rparr> sess cfgA kA gA) asA esA cA"
    and rB: "conn_run pB lib (Conn_init \<lparr>sock_fd = fdB\<rparr> sess cfgB kB gB) asB esB cB"
    and d: "outA (c_kernel cA) = outA kA @ d" and "prefix (inpB kB) d"
  shows "prefix (gots esB) (msgs (wire esA))"
proof -
  let ?opn = "Session_open lib sess"
  have sess: "c_sess cA = sess" "c_sess cB = sess"
    using conn_run_cfg [OF rA] conn_run_cfg [OF rB] by (simp_all add: Conn_init_def)
  obtain ms d' where ms: "prefix ms (msgs (wire esA))" "carries ?opn ms d'"
      "prefix (outA (c_kernel cA)) (outA kA @ d')"
    using conn_env.conn_run_wire [OF A rA] sess unfolding conn_env.out_inv_def [OF A] by auto
  obtain b r where b: "inpB kB = b @ r" "carries ?opn (gots esB) b"
    using conn_env.conn_run_wire [OF B rB] sess unfolding conn_env.in_inv_def [OF B] by auto
  have "prefix b d'" using b(1) assms(6) ms(3) d by (auto elim!: prefixE)
  from prefix_order.trans [OF carries_prefix [OF ms(2) b(2) this] ms(1)] show ?thesis .
qed

lemma messages_exchange:
  assumes "conn_env pA fdA inpA outA lib" and "conn_env pB fdB inpB outB lib"
    and "conn_run pA lib (Conn_init \<lparr>sock_fd = fdA\<rparr> sess cfgA kA gA) asA esA cA"
    and "conn_run pB lib (Conn_init \<lparr>sock_fd = fdB\<rparr> sess cfgB kB gB) asB esB cB"
    and "outA (c_kernel cA) = outA kA @ d" and "prefix (inpB kB) d"
    and "on_message cfgB = None"
  shows "prefix (delivered esB) (text_payloads (accepted esA))"
proof -
  have g: "prefix (gots esB) (msgs (wire esA))" by (rule records_exchange [OF assms(1-6)])
  have "prefix (delivered esB) (texts esB)"
    using delivered_prefix [OF conn_run_recv_inv [OF assms(4)] assms(7)] .
  also have "prefix (texts esB) (map snd (filter (\<lambda>(t, pt). t = kMsgText) (msgs (wire esA))))"
    unfolding texts_gots by (rule prefix_filter [OF g])
  also have "prefix (map snd (filter (\<lambda>(t, pt). t = kMsgText) (msgs (wire esA)))) (text_payloads (accepted esA))"
    by (rule wire_texts_accepted [OF conn_run_sender_inv [OF assms(3)]])
  finally show ?thesis .
qed

text \<open>A run of the demonstration pair from its executed schedule.\<close>

lemma schedule_run:
  assumes "map_option f (run_schedule p lib as c) = Some y"
  obtains es c' where "conn_run p lib c as es c'" and "f (es, c') = y"
  using assms by (auto simp: conn_run_iff)

section \<open>A concrete pair of connections\<close>

definition wc_cfg :: "unit FrozenConfig" where
  "wc_cfg = (freeze_config None)\<lparr>send_queue_depth := 2, receive_queue_depth := 1\<rparr>"

definition wc_kernel :: "bytes list \<Rightarrow> script_kernel" where
  "wc_kernel segs = \<lparr>rx_segments = segs, tx_log = [], tx_limits = [], fd_table = {7}, next_fd = 8\<rparr>"

definition wc_conn :: "bytes list \<Rightarrow> (script_kernel, nat, unit) conn" where
  "wc_conn segs = Conn_init \<lparr>sock_fd = 7\<rparr> \<lparr>session_key = demo_key\<rparr> wc_cfg (wc_kernel segs) demo_rng"

text \<open>The record of the text \<open>[1, 2]\<close>, sealed with the demonstration library.\<close>

definition wc_record :: bytes where
  "wc_record = [0, 0, 0, 31, 1] @ replicate 12 3 @ [4, 7] @ replicate 12 3 @ replicate 4 0"

definition wc_send :: "action list" where
  "wc_send = [A_call 0 (Call_send [1, 2] None), A_user 0, A_writer, A_writer]"

definition wc_recv :: "action list" where
  "wc_recv = [A_reader, A_reader, A_call 0 (Call_recv None), A_user 0]"

interpretation demo: conn_env script_posix 7 "\<lambda>k. concat (rx_segments k)" tx_log demo_lib
  by (rule conn_env.intro [OF script.posix_conn_axioms demo.crypto_api_axioms])

text \<open>The record limit as a comparison of integers, which evaluates without counting to it.\<close>

lemma Session_seal_code [code]:
  "Session_seal lib sess plaintext g =
    (if int (length plaintext) > 1048547 then (Inl (DuplexEc errc_bad_frame), g)
     else (case random_bytes lib kNonceSize g of
         (Inl ec, g) \<Rightarrow> (Inl ec, g)
       | (Inr nonce, g) \<Rightarrow>
           if \<not> gcm_setkey lib (session_key sess) (length (session_key sess) * 8)
           then (Inl (DuplexEc errc_other), g)
           else (case gcm_crypt_and_tag lib (session_key sess) nonce plaintext of
               None \<Rightarrow> (Inl (DuplexEc errc_other), g)
             | Some (ct, tag) \<Rightarrow> (Inr (nonce @ ct @ tag), g))))"
  by (simp add: Session_seal_def Let_def kNonceSize_def kTagSize_def)

lemma write_record_code [code]:
  "write_record rw msg_type sealed s =
    (if int (length sealed) > 1048575 then (DuplexEc errc_bad_frame, s)
     else
       let n = (word_of_nat (1 + length sealed) :: u32);
           (ec, s1) = write_all rw (put_be32 n) s
       in if ec_fails ec then (ec, s1)
          else (let (ec, s2) = write_all rw [msg_type] s1
                in if ec_fails ec then (ec, s2) else write_all rw sealed s2))"
  by (simp add: write_record_def)

lemma wc_send_run:
  "map_option (\<lambda>(es, c). (es, tx_log (c_kernel c))) (run_schedule script_posix demo_lib wc_send (wc_conn [])) =
     Some ([Accepted \<lparr>ob_typ = 1, ob_pt = [1, 2]\<rparr>, Returned 0 (Ret_send NoError),
            Wrote \<lparr>ob_typ = 1, ob_pt = [1, 2]\<rparr> True], wc_record)"
  by code_simp

lemma wc_recv_run:
  "map_option fst (run_schedule script_posix demo_lib wc_recv (wc_conn [take 9 wc_record, drop 9 wc_record])) =
     Some [Got 1 [1, 2], Queued [1, 2], Returned 0 (Ret_recv (Inr [1, 2]))]"
  by code_simp

end
