(* ===== verification/Tdx_Conn_Props.thy ===== *)
theory Tdx_Conn_Props
  imports Tdx_Conn_Wire
begin

text \<open>
  The properties of a connection: order and completeness of both directions, bounds, errors,
  shutdown, and the two ways in which its reader can block for ever.
\<close>

section \<open>Shared facts\<close>

text \<open>After the stop flag is set nothing is accepted.\<close>

lemma sender_stopped:
  assumes "sender_run depth s es s'" and "s_stop s"
  shows "s_stop s' \<and> accepted es = []"
  using assms
proof (induction rule: sender_run.induct)
  case (sr_step s es s1 es' s2)
  then have "s_stop s1" "accepted es = []" by auto
  with sr_step.hyps(2) show ?case by (cases rule: sender_step.cases) auto
qed simp

lemma conn_run_stopped:
  assumes "conn_run p lib c as es c'" and "c_stop_send c"
  shows "c_stop_send c' \<and> accepted es = []"
  using sender_stopped [OF conn_run_refines [OF assms(1)]] assms(2) by (simp add: sender_of_def)

section \<open>One shutdown\<close>

fun in_shutdown :: "user_pc \<Rightarrow> bool" where
  "in_shutdown (U_sd_close _ _) = True"
| "in_shutdown (U_sd_stop _ _) = True"
| "in_shutdown (U_sd_wtest _ _) = True"
| "in_shutdown (U_sd_wsleep _ _) = True"
| "in_shutdown (U_sd_wwait _ _) = True"
| "in_shutdown (U_sd_deliver _ _ _) = True"
| "in_shutdown (U_sd_sock _ _ _) = True"
| "in_shutdown (U_sd_rtest _ _ _) = True"
| "in_shutdown (U_sd_rsleep _ _ _) = True"
| "in_shutdown (U_sd_rwait _ _ _) = True"
| "in_shutdown _ = False"

text \<open>The calls of \<open>shutdown\<close> that did the work, by their results.\<close>

fun shutdowns :: "event list \<Rightarrow> error_code list" where
  "shutdowns [] = []"
| "shutdowns (Returned u (Ret_shutdown ec) # es) =
     (if ec = DuplexEc errc_closed then shutdowns es else ec # shutdowns es)"
| "shutdowns (_ # es) = shutdowns es"

lemma shutdowns_append [simp]: "shutdowns (es @ es') = shutdowns es @ shutdowns es'"
  by (induction es rule: shutdowns.induct) simp_all

lemma in_shutdown_wake [simp]:
  "in_shutdown (wake_send_user pc) = in_shutdown pc"
  "in_shutdown (wake_recv_user pc) = in_shutdown pc"
  "in_shutdown (wake_done_user pc) = in_shutdown pc"
  by (cases pc; simp)+

text \<open>
  The result a shutdown in progress carries is never \<open>closed\<close>.
\<close>

fun carried :: "user_pc \<Rightarrow> error_code" where
  "carried (U_sd_deliver _ _ ec) = ec"
| "carried (U_sd_sock _ _ ec) = ec"
| "carried (U_sd_rtest _ _ ec) = ec"
| "carried (U_sd_rsleep _ _ ec) = ec"
| "carried (U_sd_rwait _ _ ec) = ec"
| "carried _ = NoError"

lemma carried_wake [simp]:
  "carried (wake_send_user pc) = carried pc"
  "carried (wake_recv_user pc) = carried pc"
  "carried (wake_done_user pc) = carried pc"
  by (cases pc; simp)+

definition shutdown_inv :: "event list \<Rightarrow> ('k, 'r, 'cb) conn \<Rightarrow> bool" where
  "shutdown_inv es c \<longleftrightarrow>
    (\<forall>u. carried (c_users c u) \<in> {NoError, DuplexEc errc_timed_out}) \<and>
    (if c_shutdown_started c then
       (\<forall>u v. in_shutdown (c_users c u) \<longrightarrow> in_shutdown (c_users c v) \<longrightarrow> u = v) \<and>
       ((\<exists>u. in_shutdown (c_users c u)) \<longrightarrow> shutdowns es = []) \<and> length (shutdowns es) < 2 \<and>
       set (shutdowns es) \<subseteq> {NoError, DuplexEc errc_timed_out}
     else (\<forall>u. \<not> in_shutdown (c_users c u)) \<and> shutdowns es = [])"

text \<open>Steps that leave the callers' part in shutdown as it is.\<close>

definition same_shutdown :: "('k, 'r, 'cb) conn \<Rightarrow> ('k, 'r, 'cb) conn \<Rightarrow> bool" where
  "same_shutdown c c' \<longleftrightarrow> c_shutdown_started c' = c_shutdown_started c \<and>
     (\<forall>u. in_shutdown (c_users c' u) = in_shutdown (c_users c u) \<and> carried (c_users c' u) = carried (c_users c u))"

lemma same_shutdown_inv:
  "same_shutdown c c' \<Longrightarrow> shutdowns es' = [] \<Longrightarrow> shutdown_inv es c \<Longrightarrow> shutdown_inv (es @ es') c'"
  by (simp add: same_shutdown_def shutdown_inv_def)

lemma Conn_abort_recv_users: "c_users (Conn_abort_recv ec c) = (if c_recv_closed c then c_users c else wake_recv_user \<circ> c_users c)"
  by (simp add: Conn_abort_recv_def Let_def)

lemma worker_shutdown:
  "exec_reader p lib rpc c = Some (es, c') \<Longrightarrow> same_shutdown c c' \<and> shutdowns es = []"
  "exec_writer p lib wpc c = Some (es, c') \<Longrightarrow> same_shutdown c c' \<and> shutdowns es = []"
  "exec_deliver dpc c = Some (es, c') \<Longrightarrow> same_shutdown c c' \<and> shutdowns es = []"
  subgoal by (cases rpc) (auto simp: same_shutdown_def read_one_def read_jobs_def read_enqueue_def
      read_ping_def Conn_abort_recv_users Let_def split: prod.splits sum.splits if_splits)
  subgoal by (cases wpc) (auto simp: same_shutdown_def write_lock_def write_flush_def Conn_write_out_def
      Let_def split: prod.splits sum.splits list.splits if_splits)
  subgoal by (cases dpc) (auto simp: same_shutdown_def deliver_lock_def deliver_drain_def split: list.splits if_splits)
  done

lemma locked_shutdown:
  "send_locked u payload t x c = (es, c') \<Longrightarrow> \<not> in_shutdown (c_users c u) \<Longrightarrow> carried (c_users c u) = NoError \<Longrightarrow>
     same_shutdown c c' \<and> shutdowns es = []"
  "receive_locked u t x c = (es, c') \<Longrightarrow> \<not> in_shutdown (c_users c u) \<Longrightarrow> carried (c_users c u) = NoError \<Longrightarrow>
     same_shutdown c c' \<and> shutdowns es = []"
  by (auto simp: send_locked_def receive_locked_def same_shutdown_def Let_def split: if_splits list.splits)

text \<open>One caller moves on inside, into or out of its shutdown.\<close>

lemma move_inv:
  assumes "shutdown_inv es c" and "in_shutdown (c_users c u)" and "in_shutdown pc"
    and "carried pc \<in> {NoError, DuplexEc errc_timed_out}"
    and "c_shutdown_started c' = c_shutdown_started c"
    and "\<And>v. v \<noteq> u \<Longrightarrow> in_shutdown (c_users c' v) = in_shutdown (c_users c v) \<and> carried (c_users c' v) = carried (c_users c v)"
    and "c_users c' u = pc"
  shows "shutdown_inv es c'"
proof -
  have "in_shutdown (c_users c' v) = in_shutdown (c_users c v)" for v
    using assms(2,3,6,7) by (cases "v = u") auto
  moreover have "carried (c_users c' v) \<in> {NoError, DuplexEc errc_timed_out}" for v
    using assms(1,4,6,7) by (cases "v = u") (auto simp: shutdown_inv_def)
  ultimately show ?thesis using assms(1,5) by (simp add: shutdown_inv_def)
qed

lemma return_inv:
  assumes "shutdown_inv es c" and "in_shutdown (c_users c u)" and "ec \<in> {NoError, DuplexEc errc_timed_out}"
    and "shutdown_return u d ec c = (es', c')"
  shows "shutdown_inv (es @ es') c'"
proof -
  have st: "c_shutdown_started c" and none: "shutdowns es = []"
    using assms(1,2) by (auto simp: shutdown_inv_def split: if_splits)
  have "\<not> in_shutdown (c_users c' v)" for v
    using assms(1,2,4) st by (auto simp: shutdown_return_def shutdown_inv_def split: if_splits)
  moreover have "carried (c_users c' v) \<in> {NoError, DuplexEc errc_timed_out}" for v
    using assms(1,4) by (auto simp: shutdown_return_def shutdown_inv_def split: if_splits)
  moreover have "c_shutdown_started c'" using st assms(4) by (auto simp: shutdown_return_def split: if_splits)
  moreover have "shutdowns es' \<in> {[], [ec]}" using assms(4) by (auto simp: shutdown_return_def split: if_splits)
  ultimately show ?thesis using none assms(3) by (auto simp: shutdown_inv_def)
qed

lemma call_shutdown_inv:
  assumes "shutdown_inv es c" and "c_users c u = U_idle" and "exec_call u op c = (es', c')"
  shows "shutdown_inv (es @ es') c'"
  using assms
  by (cases op) (auto simp: Conn_send_for_def Conn_receive_for_def Conn_shutdown_def shutdown_inv_def
      split: if_splits)

lemma user_shutdown_inv:
  assumes i: "shutdown_inv es c" and e: "exec_user p u (c_users c u) c = Some (es', c')"
  shows "shutdown_inv (es @ es') c'"
proof (cases "in_shutdown (c_users c u)")
  case False
  show ?thesis
  proof (cases "c_users c u = U_join")
    case True
    with i e show ?thesis
      by (auto simp: shutdown_inv_def split: if_splits)
  next
    case nj: False
    have "same_shutdown c c' \<and> shutdowns es' = []"
      using e False nj by (cases "c_users c u") (auto dest: locked_shutdown split: if_splits)
    with same_shutdown_inv i show ?thesis by blast
  qed
next
  case True
  have ec: "carried (c_users c u) \<in> {NoError, DuplexEc errc_timed_out}"
    using i by (auto simp: shutdown_inv_def)
  show ?thesis
  proof (cases "\<exists>d w ec. c_users c u = U_sd_rtest d w ec \<and> c_read_done c")
    case r: True
    then obtain d w x where "c_users c u = U_sd_rtest d w x" "shutdown_return u d x c = (es', c')"
      using e by auto
    with return_inv [OF i True] ec show ?thesis by auto
  next
    case r: False
    have "es' = [] \<and> in_shutdown (c_users c' u) \<and> carried (c_users c' u) \<in> {NoError, DuplexEc errc_timed_out} \<and>
        c_shutdown_started c' = c_shutdown_started c \<and>
        (\<forall>v. v \<noteq> u \<longrightarrow> in_shutdown (c_users c' v) = in_shutdown (c_users c v) \<and> carried (c_users c' v) = carried (c_users c v))"
      using e True r ec
      by (cases "c_users c u") (auto simp: shutdown_stop_def shutdown_deliver_def shutdown_sock_def Let_def
          split: if_splits prod.splits)
    with move_inv [OF i True, of "c_users c' u" c'] show ?thesis by simp
  qed
qed

lemma timeout_shutdown_inv:
  assumes i: "shutdown_inv es c" and e: "exec_timeout u (c_users c u) c = Some (es', c')"
  shows "shutdown_inv (es @ es') c'"
proof -
  have ec: "carried (c_users c u) \<in> {NoError, DuplexEc errc_timed_out}"
    using i by (auto simp: shutdown_inv_def)
  consider (call) "\<not> in_shutdown (c_users c u)" | (w) d t where "c_users c u = U_sd_wwait d (Some t)"
    | (r) d t ec where "c_users c u = U_sd_rwait d (Some t) ec"
    using e by (cases "(u, c_users c u, c)" rule: exec_timeout.cases) auto
  then show ?thesis
  proof cases
    case call
    have "same_shutdown c c' \<and> shutdowns es' = []"
      using e call by (cases "(u, c_users c u, c)" rule: exec_timeout.cases)
        (auto dest: locked_shutdown split: if_splits)
    with same_shutdown_inv i show ?thesis by blast
  next
    case (w d t)
    with e move_inv [OF i, of u "c_users c' u" c'] show ?thesis by auto
  next
    case (r d t x)
    with e ec return_inv [OF i, of u _ d es' c'] show ?thesis by (auto split: if_splits)
  qed
qed

lemma exec_shutdown_inv:
  assumes "shutdown_inv es c" and "exec p lib a c = Some (es', c')"
  shows "shutdown_inv (es @ es') c'"
proof (cases a)
  case A_spurious
  with assms have "same_shutdown c c' \<and> shutdowns es' = []" by (auto simp: spurious_def same_shutdown_def)
  with same_shutdown_inv assms(1) show ?thesis by blast
qed (use assms call_shutdown_inv user_shutdown_inv timeout_shutdown_inv
    in \<open>auto dest!: worker_shutdown intro: same_shutdown_inv split: if_splits\<close>)

lemma conn_run_shutdown_inv:
  assumes "conn_run p lib c as es c'" and "shutdown_inv [] c"
  shows "shutdown_inv es c'"
  using assms by (induction rule: conn_run.induct) (auto intro: exec_shutdown_inv)

section \<open>Draining\<close>

text \<open>How many steps the writer still needs once sending has stopped.\<close>

fun drain_steps :: "writer_pc \<Rightarrow> nat \<Rightarrow> nat" where
  "drain_steps W_lock n = 2 * n + 6"
| "drain_steps W_wait n = 2 * n + 7"
| "drain_steps (W_write _) n = 2 * n + 7"
| "drain_steps W_flush n = 2 * n + 5"
| "drain_steps (W_flush_write _) n = 2 * n + 6"
| "drain_steps W_close n = 4"
| "drain_steps W_store_done n = 2"
| "drain_steps W_notify_done n = 1"
| "drain_steps W_exit n = 0"

lemma write_out_frame:
  "Conn_write_out p lib m c = (ok, c') \<Longrightarrow> c_send_q c' = c_send_q c \<and> c_stop_send c' = c_stop_send c \<and>
     c_reader c' = c_reader c \<and> c_write_done c' = c_write_done c"
  by (auto simp: Conn_write_out_def split: prod.splits sum.splits)

lemma reader_holds_wake [simp]: "reader_holds (wake_send_reader r) = reader_holds r"
  by (cases r) simp_all

lemma mutex_free_wake [simp]: "mutex_free m (notify_send c) = mutex_free m c"
  by (simp add: mutex_free_def)

text \<open>While sending is stopped every step of the writer brings it closer to its end.\<close>

definition draining :: "('k, 'r, 'cb) conn \<Rightarrow> bool" where
  "draining c \<longleftrightarrow> c_stop_send c \<and> mutex_free Send_mu c \<and> c_writer c \<noteq> W_wait \<and>
     (c_writer c \<in> {W_notify_done, W_exit} \<longrightarrow> c_write_done c)"

lemma drain_step:
  assumes "draining c" and "c_writer c \<noteq> W_exit"
  shows "\<exists>es c'. exec p lib A_writer c = Some (es, c') \<and> draining c' \<and>
    drain_steps (c_writer c') (length (c_send_q c')) < drain_steps (c_writer c) (length (c_send_q c))"
proof (cases "(\<exists>m. c_writer c \<in> {W_write m, W_flush_write m}) \<or> c_writer c = W_close")
  case True
  then obtain m where m: "c_writer c = W_write m \<or> c_writer c = W_flush_write m \<or> c_writer c = W_close \<and> m = close_msg"
    by blast
  obtain ok c1 where w: "Conn_write_out p lib m c = (ok, c1)" by fastforce
  from m assms(1) w write_out_frame [OF w] show ?thesis
    by (elim disjE) (cases ok; simp add: draining_def mutex_free_def)+
next
  case False
  with assms show ?thesis
    by (cases "c_writer c"; cases "c_send_q c")
      (auto simp: draining_def write_lock_def write_flush_def mutex_free_def)
qed

lemma drains:
  assumes "draining c"
  shows "\<exists>as es c'. set as \<subseteq> {A_writer} \<and> length as \<le> drain_steps (c_writer c) (length (c_send_q c)) \<and>
    run_schedule p lib as c = Some (es, c') \<and> c_writer c' = W_exit \<and> c_write_done c'"
  using assms
proof (induction "drain_steps (c_writer c) (length (c_send_q c))" arbitrary: c rule: less_induct)
  case less
  show ?case
  proof (cases "c_writer c = W_exit")
    case True
    with less.prems show ?thesis by (intro exI [of _ "[]"]) (simp add: draining_def)
  next
    case False
    from drain_step [OF less.prems False, of p lib] obtain es c1 where
      s: "exec p lib A_writer c = Some (es, c1)" "draining c1"
        "drain_steps (c_writer c1) (length (c_send_q c1)) < drain_steps (c_writer c) (length (c_send_q c))" by blast
    from less.hyps [OF s(3,2)] obtain as es' c' where
      r: "set as \<subseteq> {A_writer}" "length as \<le> drain_steps (c_writer c1) (length (c_send_q c1))"
        "run_schedule p lib as c1 = Some (es', c')" "c_writer c' = W_exit" "c_write_done c'" by blast
    with s show ?thesis by (intro exI [of _ "A_writer # as"] exI [of _ "es @ es'"] exI [of _ c']) auto
  qed
qed

section \<open>Blocking for ever\<close>

text \<open>Only the reader itself notifies the condition variable it waits on for room.\<close>

lemma wake_enqueue_wait [simp]:
  "wake_send_reader r = R_enqueue_wait pt \<longleftrightarrow> r = R_enqueue_wait pt"
  "wake_send_reader r = R_enqueue_abort pt \<longleftrightarrow> r = R_enqueue_abort pt"
  "wake_recv_reader r = R_enqueue_abort pt \<longleftrightarrow> r = R_enqueue_abort pt"
  by (cases r; simp)+

lemma other_threads_reader:
  "exec_writer p lib wpc c = Some (es, c') \<Longrightarrow> c_reader c' \<in> {c_reader c, wake_send_reader (c_reader c)} \<and> c_read_done c' = c_read_done c"
  "exec_deliver dpc c = Some (es, c') \<Longrightarrow> c_reader c' = c_reader c \<and> c_read_done c' = c_read_done c"
  "exec_call u op c = (es, c') \<Longrightarrow> c_reader c' = c_reader c \<and> c_read_done c' = c_read_done c"
  "send_locked u payload t x c = (es, c') \<Longrightarrow> c_reader c' \<in> {c_reader c, wake_send_reader (c_reader c)} \<and> c_read_done c' = c_read_done c"
  "receive_locked u t x c = (es, c') \<Longrightarrow> c_reader c' = c_reader c \<and> c_read_done c' = c_read_done c"
  subgoal by (cases wpc) (auto simp: write_lock_def write_flush_def Conn_write_out_def Let_def
      split: prod.splits sum.splits list.splits if_splits)
  subgoal by (cases dpc) (auto simp: deliver_lock_def deliver_drain_def split: list.splits if_splits)
  subgoal by (cases op) (auto simp: Conn_send_for_def Conn_receive_for_def Conn_shutdown_def split: if_splits)
  subgoal by (auto simp: send_locked_def Let_def split: if_splits)
  subgoal by (auto simp: receive_locked_def split: if_splits list.splits)
  done

lemma user_reader:
  "exec_user p u pc c = Some (es, c') \<Longrightarrow>
     c_reader c' \<in> {c_reader c, wake_send_reader (c_reader c)} \<and> c_read_done c' = c_read_done c"
  by (cases pc) (auto simp: shutdown_stop_def shutdown_deliver_def shutdown_sock_def shutdown_return_def Let_def
      dest: other_threads_reader split: if_splits prod.splits)

lemma timeout_reader:
  "exec_timeout u pc c = Some (es, c') \<Longrightarrow>
     c_reader c' \<in> {c_reader c, wake_send_reader (c_reader c)} \<and> c_read_done c' = c_read_done c"
  by (cases "(u, pc, c)" rule: exec_timeout.cases)
    (auto simp: shutdown_return_def dest: other_threads_reader split: if_splits)

text \<open>A reader that waits for room, or for its own mutex, takes no further step.\<close>

definition blocked_reader :: "reader_pc \<Rightarrow> bool" where
  "blocked_reader r \<longleftrightarrow> (\<exists>pt. r = R_enqueue_wait pt \<or> r = R_enqueue_abort pt)"

lemma blocked_step:
  assumes "exec p lib a c = Some (es, c')" and "blocked_reader (c_reader c)"
    and "a = A_spurious \<longrightarrow> (\<exists>pt. c_reader c = R_enqueue_abort pt)"
  shows "c_reader c' = c_reader c \<and> c_read_done c' = c_read_done c"
proof (cases a)
  case A_spurious
  with assms show ?thesis by (auto simp: spurious_def)
qed (use assms in \<open>auto simp: blocked_reader_def dest!: other_threads_reader user_reader timeout_reader split: if_splits\<close>)

text \<open>Without the reader's flag no shutdown reports success.\<close>

lemma not_done_no_return:
  assumes "exec p lib a c = Some (es, c')" and "\<not> c_read_done c"
  shows "Returned u (Ret_shutdown NoError) \<notin> set es"
proof -
  have "Returned u (Ret_shutdown NoError) \<notin> set es" if "exec_reader p lib rpc c = Some (es, c')" for rpc
    using that by (cases rpc) (auto simp: read_one_def read_jobs_def read_enqueue_def read_ping_def Let_def
        split: prod.splits sum.splits if_splits)
  moreover have "Returned u (Ret_shutdown NoError) \<notin> set es" if "exec_writer p lib wpc c = Some (es, c')" for wpc
    using that by (cases wpc) (auto split: if_splits prod.splits)
  moreover have "Returned u (Ret_shutdown NoError) \<notin> set es" if "exec_deliver dpc c = Some (es, c')" for dpc
    using that by (cases dpc) (auto split: if_splits)
  moreover have "Returned u (Ret_shutdown NoError) \<notin> set es" if "exec_call v op c = (es, c')" for v op
    using that by (cases op) (auto simp: Conn_send_for_def Conn_receive_for_def Conn_shutdown_def split: if_splits)
  moreover have l: "Returned u (Ret_shutdown NoError) \<notin> set es"
    if "send_locked v pl t x c = (es, c') \<or> receive_locked v t x c = (es, c')" for v pl t x
    using that by (auto simp: send_locked_def receive_locked_def Let_def split: if_splits list.splits)
  moreover have "Returned u (Ret_shutdown NoError) \<notin> set es" if "exec_user p v pc c = Some (es, c')" for v pc
    using that assms(2) l by (cases pc) (auto split: if_splits)
  moreover have "Returned u (Ret_shutdown NoError) \<notin> set es" if "exec_timeout v pc c = Some (es, c')" for v pc
    using that assms(2) l by (cases "(v, pc, c)" rule: exec_timeout.cases)
      (auto simp: shutdown_return_def split: if_splits)
  ultimately show ?thesis using assms(1) by (cases a) (auto split: if_splits)
qed

lemma step_texts: "receiver_step cfg s es s' \<Longrightarrow> r_phase s \<noteq> Reading \<Longrightarrow> texts es = []"
  by (cases rule: receiver_step.cases) auto

lemma exec_texts:
  assumes "exec p lib a c = Some (es, c')" and "blocked_reader (c_reader c)"
  shows "texts es = []"
proof -
  have "r_phase (receiver_of c) \<noteq> Reading"
    using assms(2) by (auto simp: receiver_of_def blocked_reader_def)
  from step_texts [OF exec_recv [OF assms(1)] this] show ?thesis by simp
qed

lemma blocked_for_ever:
  assumes "conn_run p lib c as es c'" and "blocked_reader (c_reader c)" and "\<not> c_read_done c"
    and "A_spurious \<in> set as \<longrightarrow> (\<exists>pt. c_reader c = R_enqueue_abort pt)"
  shows "c_reader c' = c_reader c \<and> \<not> c_read_done c' \<and> texts es = [] \<and>
    (\<forall>u. Returned u (Ret_shutdown NoError) \<notin> set es)"
  using assms
proof (induction rule: conn_run.induct)
  case (run_step c as es c1 a es' c2)
  then have i: "c_reader c1 = c_reader c" "\<not> c_read_done c1" "texts es = []"
    "\<forall>u. Returned u (Ret_shutdown NoError) \<notin> set es" by auto
  with run_step.prems blocked_step [OF run_step.hyps(2)] not_done_no_return [OF run_step.hyps(2)]
    exec_texts [OF run_step.hyps(2)] show ?case by auto
qed simp

text \<open>The workers return nothing to callers.\<close>

lemma worker_no_return:
  "exec_reader p lib rpc c = Some (es, c') \<Longrightarrow> Returned u x \<notin> set es"
  "exec_writer p lib wpc c = Some (es, c') \<Longrightarrow> Returned u x \<notin> set es"
  "exec_deliver dpc c = Some (es, c') \<Longrightarrow> Returned u x \<notin> set es"
  subgoal by (cases rpc) (auto simp: read_one_def read_jobs_def read_enqueue_def read_ping_def Let_def
        split: prod.splits sum.splits if_splits)
  subgoal by (cases wpc) (auto split: if_splits prod.splits)
  subgoal by (cases dpc) (auto split: if_splits)
  done

text \<open>A connection whose reader has not returned is never joined.\<close>

lemma not_exited_no_join:
  assumes "exec p lib a c = Some (es, c')" and "c_reader c \<noteq> R_exit"
  shows "Returned u Ret_joined \<notin> set es"
proof -
  have l: "Returned u Ret_joined \<notin> set es"
    if "send_locked v pl t x c = (es, c') \<or> receive_locked v t x c = (es, c')" for v pl t x
    using that by (auto simp: send_locked_def receive_locked_def Let_def split: if_splits list.splits)
  have "Returned u Ret_joined \<notin> set es" if "exec_call v op c = (es, c')" for v op
    using that by (cases op) (auto simp: Conn_send_for_def Conn_receive_for_def Conn_shutdown_def split: if_splits)
  moreover have "Returned u Ret_joined \<notin> set es" if "exec_user p v pc c = Some (es, c')" for v pc
    using that assms(2) l by (cases pc) (auto simp: joinable_done_def shutdown_return_def split: if_splits)
  moreover have "Returned u Ret_joined \<notin> set es" if "exec_timeout v pc c = Some (es, c')" for v pc
    using that l by (cases "(v, pc, c)" rule: exec_timeout.cases) (auto simp: shutdown_return_def split: if_splits)
  ultimately show ?thesis using assms(1) by (cases a) (auto dest: worker_no_return split: if_splits)
qed

lemma never_joined:
  assumes "conn_run p lib c as es c'" and "c_reader c = R_enqueue_abort pt"
  shows "c_reader c' = R_enqueue_abort pt \<and> (\<forall>u. Returned u Ret_joined \<notin> set es)"
  using assms
proof (induction rule: conn_run.induct)
  case (run_step c as es c1 a es' c2)
  then have i: "c_reader c1 = R_enqueue_abort pt" "\<forall>u. Returned u Ret_joined \<notin> set es" by auto
  with blocked_step [OF run_step.hyps(2)] not_exited_no_join [OF run_step.hyps(2)]
  show ?case by (auto simp: blocked_reader_def)
qed simp

section \<open>The delivery thread\<close>

text \<open>
  The drain loop of \<open>deliver_loop\<close> is entered only with an empty queue and under the lock, so it
  takes no message: every message goes through the test for emptiness.
\<close>

fun in_drain :: "deliver_pc \<Rightarrow> bool" where
  "in_drain D_drain = True"
| "in_drain (D_drain_call _) = True"
| "in_drain _ = False"


lemma in_drain_wake [simp]: "in_drain (wake_jobs d) = in_drain d"
  by (cases d) simp_all






section \<open>The writer does not sleep through a stop\<close>

definition stop_inv :: "('k, 'r, 'cb) conn \<Rightarrow> bool" where
  "stop_inv c \<longleftrightarrow> (c_stop_send c \<longrightarrow> c_writer c \<noteq> W_wait) \<and>
     (c_writer c \<in> {W_notify_done, W_exit} \<longrightarrow> c_write_done c)"

lemma wake_writer_simps [simp]:
  "wake_writer w \<noteq> W_wait" "wake_writer w = W_notify_done \<longleftrightarrow> w = W_notify_done" "wake_writer w = W_exit \<longleftrightarrow> w = W_exit"
  by (cases w; simp)+

lemma reader_stop_inv: "exec_reader p lib pc c = Some (es, c') \<Longrightarrow> stop_inv c \<Longrightarrow> stop_inv c'"
  by (cases pc) (auto simp: stop_inv_def read_one_def read_jobs_def read_enqueue_def read_ping_def Let_def
      split: prod.splits sum.splits if_splits)

lemma writer_stop_inv:
  assumes "exec_writer p lib (c_writer c) c = Some (es, c')" and "stop_inv c"
  shows "stop_inv c'"
  using assms
  by (cases "c_writer c") (auto simp: stop_inv_def write_lock_def write_flush_def split: prod.splits list.splits if_splits)

lemma locked_stop_inv:
  "send_locked u payload t x c = (es, c') \<Longrightarrow> stop_inv c \<Longrightarrow> stop_inv c'"
  "receive_locked u t x c = (es, c') \<Longrightarrow> stop_inv c \<Longrightarrow> stop_inv c'"
  "exec_call u op c = (es, c') \<Longrightarrow> stop_inv c \<Longrightarrow> stop_inv c'"
  subgoal by (auto simp: stop_inv_def send_locked_def Let_def split: if_splits)
  subgoal by (auto simp: stop_inv_def receive_locked_def split: if_splits list.splits)
  subgoal by (cases op) (auto simp: stop_inv_def Conn_send_for_def Conn_receive_for_def Conn_shutdown_def split: if_splits)
  done

lemma user_stop_inv: "exec_user p u pc c = Some (es, c') \<Longrightarrow> stop_inv c \<Longrightarrow> stop_inv c'"
  by (cases pc) (auto simp: shutdown_return_def stop_inv_def shutdown_stop_def shutdown_deliver_def shutdown_sock_def
      Let_def split: if_splits prod.splits dest: locked_stop_inv [unfolded stop_inv_def])

lemma exec_stop_inv:
  assumes "exec p lib a c = Some (es, c')" and "stop_inv c"
  shows "stop_inv c'"
proof (cases a)
  case A_deliver
  with assms show ?thesis
    by (cases "c_deliver c") (auto simp: stop_inv_def deliver_lock_def deliver_drain_def split: list.splits if_splits)
next
  case (A_timeout u)
  with assms show ?thesis
    by (cases "(u, c_users c u, c)" rule: exec_timeout.cases)
      (auto simp: shutdown_return_def stop_inv_def dest: locked_stop_inv [unfolded stop_inv_def] split: if_splits)
next
  case A_spurious
  with assms show ?thesis by (auto simp: spurious_def stop_inv_def)
qed (use assms reader_stop_inv writer_stop_inv locked_stop_inv user_stop_inv in \<open>auto split: if_splits\<close>)

lemma conn_run_stop_inv:
  assumes "conn_run p lib c as es c'" and "stop_inv c"
  shows "stop_inv c'"
  using assms by (induction rule: conn_run.induct) (auto intro: exec_stop_inv)

lemma conn_run_append:
  assumes "conn_run p lib c as es c1" and "conn_run p lib c1 as' es' c2"
  shows "conn_run p lib c (as @ as') (es @ es') c2"
  using assms by (auto simp: conn_run_iff run_schedule_append)

lemma recv_error_source:
  "exec_user p v pc c = Some (es, c') \<Longrightarrow> Returned u (Ret_recv y) \<in> set es \<Longrightarrow>
     \<exists>t. pc = U_recv t \<and> receive_locked v t False c = (es, c')"
  "exec_timeout v pc c = Some (es, c') \<Longrightarrow> Returned u (Ret_recv y) \<in> set es \<Longrightarrow>
     \<exists>t. pc = U_recv_wait (Some t) \<and> receive_locked v (Some t) True c = (es, c')"
  subgoal by (cases pc) (auto simp: shutdown_return_def send_locked_def Let_def split: if_splits)
  subgoal by (cases "(v, pc, c)" rule: exec_timeout.cases)
      (auto simp: shutdown_return_def send_locked_def Let_def split: if_splits)
  done

text \<open>In callback mode no caller gets past the entry of \<open>receive_for\<close>.\<close>

fun in_receive :: "user_pc \<Rightarrow> bool" where
  "in_receive (U_recv _) = True"
| "in_receive (U_recv_wait _) = True"
| "in_receive _ = False"

definition mode_users :: "('k, 'r, 'cb) conn \<Rightarrow> bool" where
  "mode_users c \<longleftrightarrow> (on_message (c_cfg c) \<noteq> None \<longrightarrow> (\<forall>u. \<not> in_receive (c_users c u)))"

lemma in_receive_wake [simp]:
  "in_receive (wake_send_user pc) = in_receive pc"
  "in_receive (wake_recv_user pc) = in_receive pc"
  "in_receive (wake_done_user pc) = in_receive pc"
  by (cases pc; simp)+

lemma worker_receive:
  "exec_reader p lib rpc c = Some (es, c') \<Longrightarrow> in_receive (c_users c' u) = in_receive (c_users c u)"
  "exec_writer p lib wpc c = Some (es, c') \<Longrightarrow> in_receive (c_users c' u) = in_receive (c_users c u)"
  "exec_deliver dpc c = Some (es, c') \<Longrightarrow> in_receive (c_users c' u) = in_receive (c_users c u)"
  subgoal by (cases rpc) (auto simp: read_one_def read_jobs_def read_enqueue_def
      read_ping_def Conn_abort_recv_users Let_def split: prod.splits sum.splits if_splits)
  subgoal by (cases wpc) (auto simp: write_lock_def write_flush_def Conn_write_out_def
      Let_def split: prod.splits sum.splits list.splits if_splits)
  subgoal by (cases dpc) (auto simp: deliver_lock_def deliver_drain_def split: list.splits if_splits)
  done

lemma locked_receive:
  "send_locked u payload t x c = (es, c') \<Longrightarrow> in_receive (c_users c' v) \<Longrightarrow> in_receive (c_users c v)"
  "receive_locked u t x c = (es, c') \<Longrightarrow> in_receive (c_users c u) \<Longrightarrow> in_receive (c_users c' v) \<Longrightarrow> in_receive (c_users c v)"
  "exec_call u op c = (es, c') \<Longrightarrow> on_message (c_cfg c) \<noteq> None \<Longrightarrow> in_receive (c_users c' v) \<Longrightarrow> in_receive (c_users c v)"
  subgoal by (auto simp: send_locked_def Let_def split: if_splits)
  subgoal by (auto simp: receive_locked_def split: if_splits list.splits)
  subgoal by (cases op) (auto simp: Conn_send_for_def Conn_receive_for_def Conn_shutdown_def split: if_splits)
  done

lemma user_receive:
  "exec_user p u (c_users c u) c = Some (es, c') \<Longrightarrow> in_receive (c_users c' v) \<Longrightarrow> in_receive (c_users c v)"
  "exec_timeout u (c_users c u) c = Some (es, c') \<Longrightarrow> in_receive (c_users c' v) \<Longrightarrow> in_receive (c_users c v)"
  subgoal by (cases "c_users c u") (auto simp: shutdown_stop_def shutdown_deliver_def shutdown_sock_def shutdown_return_def
        Let_def dest: locked_receive split: if_splits prod.splits)
  subgoal by (cases "(u, c_users c u, c)" rule: exec_timeout.cases)
      (auto simp: shutdown_return_def dest: locked_receive split: if_splits)
  done

lemma exec_mode_users:
  assumes "exec p lib a c = Some (es, c')" and "mode_users c"
  shows "mode_users c'"
proof -
  have "c_cfg c' = c_cfg c" using exec_setup [OF assms(1)] by (simp add: same_setup_def)
  moreover have "in_receive (c_users c v)" if "in_receive (c_users c' v)" "on_message (c_cfg c) \<noteq> None" for v
    using assms(1) that by (cases a) (auto simp: spurious_def dest: worker_receive locked_receive user_receive split: if_splits)
  ultimately show ?thesis using assms(2) by (auto simp: mode_users_def)
qed

lemma conn_run_mode_users:
  assumes "conn_run p lib c as es c'" and "mode_users c"
  shows "mode_users c'"
  using assms by (induction rule: conn_run.induct) (auto intro: exec_mode_users)

section \<open>Properties\<close>

text \<open>
  C7. End to end: two connections that hold the same session key, the second reading (a prefix of)
  the bytes the first has put on the wire, under any schedules of their threads and callers. The
  records the second opens are a prefix of the records the first wrote, and the messages its
  callers receive are a prefix of the messages the first's callers successfully sent: in order,
  unchanged, nothing inserted or duplicated.
\<close>

theorem conn_end_to_end:
  assumes "conn_env pA fdA inpA outA lib" and "conn_env pB fdB inpB outB lib"
    and "conn_run pA lib (Conn_init \<lparr>sock_fd = fdA\<rparr> sess cfgA kA gA) asA esA cA"
    and "conn_run pB lib (Conn_init \<lparr>sock_fd = fdB\<rparr> sess cfgB kB gB) asB esB cB"
    and "outA (c_kernel cA) = outA kA @ d" and "prefix (inpB kB) d"
    and "on_message cfgB = None"
  shows "prefix (gots esB) (msgs (wire esA)) \<and> prefix (delivered esB) (text_payloads (accepted esA))"
  using records_exchange [OF assms(1-6)] messages_exchange [OF assms] by blast

theorem conn_end_to_end_witness:
  "\<exists>esA cA esB cB.
     conn_run script_posix demo_lib (wc_conn []) wc_send esA cA \<and>
     conn_run script_posix demo_lib (wc_conn [take 9 wc_record, drop 9 wc_record]) wc_recv esB cB \<and>
     delivered esB = [[1, 2]] \<and> prefix (delivered esB) (text_payloads (accepted esA))"
proof -
  obtain esA cA where A: "conn_run script_posix demo_lib (wc_conn []) wc_send esA cA"
    and o: "tx_log (c_kernel cA) = wc_record"
    by (rule schedule_run [OF wc_send_run]) auto
  obtain esB cB where B: "conn_run script_posix demo_lib (wc_conn [take 9 wc_record, drop 9 wc_record]) wc_recv esB cB"
    and e: "esB = [Got 1 [1, 2], Queued [1, 2], Returned 0 (Ret_recv (Inr [1, 2]))]"
    by (rule schedule_run [OF wc_recv_run]) auto
  have c: "on_message wc_cfg = None" by (simp add: wc_cfg_def freeze_config_def default_config_def)
  from conn_end_to_end [OF demo.conn_env_axioms demo.conn_env_axioms A [unfolded wc_conn_def] B [unfolded wc_conn_def]
      _ _ c, of wc_record] o
  have "prefix (delivered esB) (text_payloads (accepted esA))" by (simp add: wc_kernel_def)
  with A B e show ?thesis by (intro exI conjI) auto
qed

text \<open>
  C8. Sending loses nothing and keeps the order: at every moment of every run, the accepted
  messages are those written successfully, then the one the writer holds, then the queue; a failed
  write is the last one; and the close record is written only once, as the last record, after every
  accepted message has been written.
\<close>

theorem conn_send_order:
  assumes "conn_run p lib (Conn_init sock sess cfg k g) as es c"
  shows "\<exists>sent rest. accepted es = sent @ rest \<and>
    (wire es = map (\<lambda>m. (m, True)) sent \<and> rest = in_hand (phase_of (c_writer c)) @ c_send_q c \<or>
     (\<exists>m. wire es = map (\<lambda>m. (m, True)) sent @ [(m, False)] \<and> rest = m # c_send_q c) \<or>
     (\<exists>ok. wire es = map (\<lambda>m. (m, True)) sent @ [(close_msg, ok)] \<and> rest = [] \<and> c_send_q c = []))"
proof -
  have s: "s_queue (sender_of c) = c_send_q c" "s_phase (sender_of c) = phase_of (c_writer c)"
    by (simp_all add: sender_of_def)
  show ?thesis
  proof (cases "phase_of (c_writer c) = Finished")
    case True
    have "(\<exists>sent m. wire es = map (\<lambda>m. (m, True)) sent @ [(m, False)] \<and> accepted es = sent @ [m] @ c_send_q c) \<or>
        (\<exists>sent ok. wire es = map (\<lambda>m. (m, True)) sent @ [(close_msg, ok)] \<and> accepted es = sent \<and> c_send_q c = [])"
      using conn_run_sender_inv [OF assms] True unfolding sender_inv_def s by (simp only: simp_thms if_True) blast
    then show ?thesis
    proof (elim disjE exE conjE)
      fix sent m
      assume "wire es = map (\<lambda>m. (m, True)) sent @ [(m, False)]" "accepted es = sent @ [m] @ c_send_q c"
      then show ?thesis by (intro exI [of _ sent] exI [of _ "m # c_send_q c"]) simp
    next
      fix sent ok
      assume "wire es = map (\<lambda>m. (m, True)) sent @ [(close_msg, ok)]" "accepted es = sent" "c_send_q c = []"
      then show ?thesis by (intro exI [of _ sent] exI [of _ "[]"]) simp
    qed
  next
    case False
    then obtain sent where
      "wire es = map (\<lambda>m. (m, True)) sent" "accepted es = sent @ in_hand (phase_of (c_writer c)) @ c_send_q c"
      using conn_run_sender_inv [OF assms] unfolding sender_inv_def s by (simp only: if_False) blast
    then show ?thesis by blast
  qed
qed

theorem conn_send_order_witness:
  "\<exists>es c sent rest. conn_run script_posix demo_lib (wc_conn []) wc_send es c \<and> accepted es = sent @ rest \<and>
     accepted es = [\<lparr>ob_typ = 1, ob_pt = [1, 2]\<rparr>]"
proof -
  obtain es c where r: "conn_run script_posix demo_lib (wc_conn []) wc_send es c"
    and e: "accepted es = [\<lparr>ob_typ = 1, ob_pt = [1, 2]\<rparr>]"
    by (rule schedule_run [OF wc_send_run]) auto
  from conn_send_order [OF r [unfolded wc_conn_def]] r e show ?thesis by blast
qed

text \<open>
  C12. Receiving by \<open>receive_for\<close>: at every moment of every run the text messages opened so far are
  those handed to callers, then the receive queue, then the one the reader holds, in the order of
  arrival; at most one message is missing at the end, and only because it exceeded the size limit,
  which also ended the reader.
\<close>

theorem conn_receive_order:
  assumes "conn_run p lib (Conn_init sock sess cfg k g) as es c" and "on_message cfg = None"
  shows "\<exists>lost. texts es = delivered es @ c_recv_q c @ phase_hand (rphase_of (c_reader c)) @ lost \<and>
    (lost = [] \<or> ending (rphase_of (c_reader c)) \<and>
       (\<exists>pt. lost = [pt] \<and> int_of_size (length pt) > max_message_bytes cfg))"
  using conn_run_recv_inv [OF assms(1)] assms(2)
  by (auto simp: recv_inv_def read_inv_def queue_inv_def may_lose_def receiver_of_def)

theorem conn_receive_order_witness:
  "\<exists>es c lost. conn_run script_posix demo_lib (wc_conn [take 9 wc_record, drop 9 wc_record]) wc_recv es c \<and>
     texts es = [[1, 2]] \<and> texts es = delivered es @ c_recv_q c @ phase_hand (rphase_of (c_reader c)) @ lost"
proof -
  obtain es c where r: "conn_run script_posix demo_lib (wc_conn [take 9 wc_record, drop 9 wc_record]) wc_recv es c"
    and e: "es = [Got 1 [1, 2], Queued [1, 2], Returned 0 (Ret_recv (Inr [1, 2]))]"
    by (rule schedule_run [OF wc_recv_run]) auto
  have "on_message wc_cfg = None" by (simp add: wc_cfg_def freeze_config_def default_config_def)
  from conn_receive_order [OF r [unfolded wc_conn_def] this] obtain lost where
    "texts es = delivered es @ c_recv_q c @ phase_hand (rphase_of (c_reader c)) @ lost" by blast
  moreover have "texts es = [[1, 2]]" by (simp add: e kMsgText_def)
  ultimately show ?thesis using r by blast
qed







text \<open>
  C20. The queues are bounded: with a frozen configuration whose depths are machine integers, no
  schedule ever makes the send queue, the receive queue or the callback queue longer than its
  configured depth.
\<close>

theorem conn_queue_bounds:
  assumes "conn_run p lib (Conn_init sock sess cfg k g) as es c" and "config_ok cfg"
    and "send_queue_depth cfg < 2 ^ 31" and "receive_queue_depth cfg < 2 ^ 31"
    and "on_message_buffer_depth cfg < 2 ^ 31"
  shows "int (length (c_send_q c)) \<le> send_queue_depth cfg \<and>
    int (length (c_recv_q c)) \<le> receive_queue_depth cfg \<and>
    int (length (c_msg_jobs c)) \<le> max 0 (on_message_buffer_depth cfg)"
proof (intro conjI)
  note d = assms(2) [unfolded config_ok_def]
  show "int (length (c_send_q c)) \<le> send_queue_depth cfg"
    using sender_run_bound [OF conn_run_refines [OF assms(1)]] d assms(3) by (simp add: sender_of_def Conn_init_def)
  show "int (length (c_recv_q c)) \<le> receive_queue_depth cfg"
    using receiver_run_bound [OF conn_run_recv [OF assms(1)]] d assms(4) by (simp add: receiver_of_def Conn_init_def)
  show "int (length (c_msg_jobs c)) \<le> max 0 (on_message_buffer_depth cfg)"
    using receiver_run_jobs_bound [OF conn_run_recv [OF assms(1)]] assms(5) by (simp add: receiver_of_def Conn_init_def)
qed

theorem conn_queue_bounds_witness:
  "\<exists>es c. conn_run script_posix demo_lib (wc_conn []) wc_send es c \<and> int (length (c_send_q c)) \<le> 2"
proof -
  obtain es c where r: "conn_run script_posix demo_lib (wc_conn []) wc_send es c"
    by (rule schedule_run [OF wc_send_run]) auto
  have "config_ok wc_cfg" "send_queue_depth wc_cfg = 2" "receive_queue_depth wc_cfg = 1" "on_message_buffer_depth wc_cfg = 128"
    by (simp_all add: wc_cfg_def config_ok_def freeze_config_def default_config_def kCurrentProtocolVersion_def)
  with conn_queue_bounds [OF r [unfolded wc_conn_def]] r show ?thesis by auto
qed

text \<open>
  C22. Errors of \<open>receive_for\<close>. In callback mode it fails with \<open>receive_disabled\<close> and with nothing
  else. Otherwise it fails only with an empty queue: while the connection is open, with \<open>timed_out\<close>,
  at the end of the time limit of a call that was waiting; once it is closed, with the reader's error,
  whatever that is (it may be a \<open>timed_out\<close> of the socket). The reader's error is the first one and
  never changes.
\<close>

theorem conn_receive_errors:
  assumes "conn_run p lib (Conn_init sock sess cfg k g) as es c"
    and "exec p lib a c = Some (es', c')" and "Returned u (Ret_recv (Inl e)) \<in> set es'"
    and "conn_run p lib c as2 es2 c2"
  shows "(if on_message cfg \<noteq> None then e = DuplexEc errc_receive_disabled
      else c_recv_q c = [] \<and>
        (if c_recv_closed c then e = c_recv_err c \<and> ec_fails e
         else e = DuplexEc errc_timed_out \<and> a = A_timeout u \<and> (\<exists>t. c_users c u = U_recv_wait (Some t)))) \<and>
    (c_recv_closed c \<longrightarrow> c_recv_closed c2 \<and> c_recv_err c2 = c_recv_err c)"
proof
  have i: "close_inv (receiver_of c)" and cfg: "c_cfg c = cfg"
    using conn_run_recv_inv [OF assms(1)] conn_run_cfg [OF assms(1)] by (auto simp: recv_inv_def)
  from i have f: "c_recv_closed c \<Longrightarrow> ec_fails (c_recv_err c)" by (simp add: close_inv_def receiver_of_def)
  have m: "mode_users c" by (rule conn_run_mode_users [OF assms(1)]) (simp add: mode_users_def Conn_init_def)
  have l: "c_recv_q c = [] \<and> (if c_recv_closed c then e = c_recv_err c \<and> ec_fails e else e = DuplexEc errc_timed_out \<and> x \<and> v = u)"
    if "receive_locked v t x c = (es', c')" for v t x
    using that assms(3) f by (auto simp: receive_locked_def split: if_splits list.splits)
  show "if on_message cfg \<noteq> None then e = DuplexEc errc_receive_disabled
      else c_recv_q c = [] \<and>
        (if c_recv_closed c then e = c_recv_err c \<and> ec_fails e
         else e = DuplexEc errc_timed_out \<and> a = A_timeout u \<and> (\<exists>t. c_users c u = U_recv_wait (Some t)))"
  proof (cases a)
    case (A_call v op)
    with assms(2,3) cfg show ?thesis
      by (cases op) (auto simp: Conn_send_for_def Conn_receive_for_def Conn_shutdown_def split: if_splits)
  next
    case (A_user v)
    with assms(2,3) obtain t where t: "c_users c v = U_recv t" "receive_locked v t False c = (es', c')"
      using recv_error_source(1) [of p v "c_users c v" c es' c'] by fastforce
    with m cfg have "on_message cfg = None" by (metis in_receive.simps(1) mode_users_def)
    with l [OF t(2)] show ?thesis by (auto split: if_splits)
  next
    case (A_timeout v)
    with assms(2,3) obtain t where t: "c_users c v = U_recv_wait (Some t)" "receive_locked v (Some t) True c = (es', c')"
      using recv_error_source(2) [of v "c_users c v" c es' c'] by fastforce
    with m cfg have "on_message cfg = None" by (metis in_receive.simps(2) mode_users_def)
    with l [OF t(2)] t(1) A_timeout show ?thesis by (auto split: if_splits)
  qed (use assms(2,3) in \<open>auto dest: worker_no_return\<close>)
  show "c_recv_closed c \<longrightarrow> c_recv_closed c2 \<and> c_recv_err c2 = c_recv_err c"
    using receiver_run_latch [OF conn_run_recv [OF assms(4)] i] by (simp add: receiver_of_def)
qed

definition we_recv :: "action list" where
  "we_recv = [A_reader, A_reader, A_call 0 (Call_recv None)]"

lemma we_run:
  "map_option fst (run_schedule script_posix demo_lib we_recv (wc_conn [])) = Some []"
  "map_option fst (run_schedule script_posix demo_lib (we_recv @ [A_user 0]) (wc_conn [])) =
     Some [Returned 0 (Ret_recv (Inl (DuplexEc errc_closed)))]"
  by code_simp+

theorem conn_receive_errors_witness:
  "\<exists>c. conn_run script_posix demo_lib (wc_conn []) we_recv [] c \<and> c_recv_q c = [] \<and>
     c_recv_closed c \<and> DuplexEc errc_closed = c_recv_err c"
proof -
  obtain c where r: "conn_run script_posix demo_lib (wc_conn []) we_recv [] c"
    by (rule schedule_run [OF we_run(1)]) auto
  obtain es2 c2 where r2: "conn_run script_posix demo_lib (wc_conn []) (we_recv @ [A_user 0]) es2 c2"
    and e2: "es2 = [Returned 0 (Ret_recv (Inl (DuplexEc errc_closed)))]"
    by (rule schedule_run [OF we_run(2)]) auto
  from r r2 have x: "exec script_posix demo_lib (A_user 0) c = Some (es2, c2)"
    by (auto simp: conn_run_iff run_schedule_append split: option.splits)
  have "on_message wc_cfg = None" by (simp add: wc_cfg_def freeze_config_def default_config_def)
  with conn_receive_errors [OF r [unfolded wc_conn_def] x _ run_nil, of 0 "DuplexEc errc_closed"] r e2
  show ?thesis by (auto split: if_splits)
qed

text \<open>
  C24. Shutting down happens once: of any number of concurrent \<open>shutdown\<close>, \<open>close\<close> and destructor
  calls at most one does the work and reports success or a time-out, every other one is told
  \<open>closed\<close>; and once sending is stopped no message is accepted any more.
\<close>

theorem conn_shutdown_once:
  assumes "conn_run p lib (Conn_init sock sess cfg k g) as es c" and "conn_run p lib c as' es' c'"
  shows "length (shutdowns (es @ es')) \<le> 1 \<and> set (shutdowns (es @ es')) \<subseteq> {NoError, DuplexEc errc_timed_out} \<and>
    (c_stop_send c \<longrightarrow> accepted es' = [])"
proof -
  have "shutdown_inv (es @ es') c'"
    by (rule conn_run_shutdown_inv [OF conn_run_append [OF assms]]) (simp add: shutdown_inv_def Conn_init_def)
  then show ?thesis
    using conn_run_stopped [OF assms(2)] by (auto simp: shutdown_inv_def split: if_splits)
qed

definition ws_stop :: "action list" where
  "ws_stop = [A_call 0 (Call_send [1, 2] None), A_user 0, A_call 0 (Call_shutdown None), A_call 1 (Call_shutdown None),
     A_user 0, A_user 0]"

definition ws_finish :: "action list" where
  "ws_finish = [A_reader, A_reader, A_reader, A_reader] @ replicate 7 A_writer @ replicate 4 (A_user 0)"

lemma ws_run:
  "map_option fst (run_schedule script_posix demo_lib ws_stop (wc_conn [])) =
     Some [Accepted \<lparr>ob_typ = 1, ob_pt = [1, 2]\<rparr>, Returned 0 (Ret_send NoError), Returned 1 (Ret_shutdown (DuplexEc errc_closed))]"
  "map_option fst (run_schedule script_posix demo_lib (ws_stop @ ws_finish) (wc_conn [])) =
     Some [Accepted \<lparr>ob_typ = 1, ob_pt = [1, 2]\<rparr>, Returned 0 (Ret_send NoError), Returned 1 (Ret_shutdown (DuplexEc errc_closed)),
       Wrote \<lparr>ob_typ = 1, ob_pt = [1, 2]\<rparr> True, Wrote close_msg True, Returned 0 (Ret_shutdown NoError)]"
  by code_simp+

lemma ws_state:
  "map_option (\<lambda>(es, c). (c_stop_send c, mutex_free Send_mu c)) (run_schedule script_posix demo_lib ws_stop (wc_conn [])) =
     Some (True, True)"
  by code_simp

theorem conn_shutdown_once_witness:
  "\<exists>es c es' c'. conn_run script_posix demo_lib (wc_conn []) ws_stop es c \<and>
     conn_run script_posix demo_lib c ws_finish es' c' \<and> shutdowns (es @ es') = [NoError] \<and>
     length (shutdowns (es @ es')) \<le> 1"
proof -
  obtain es2 c' where r2: "conn_run script_posix demo_lib (wc_conn []) (ws_stop @ ws_finish) es2 c'"
    and e2: "shutdowns es2 = [NoError]"
    by (rule schedule_run [OF ws_run(2)]) auto
  from r2 obtain es c es' where "conn_run script_posix demo_lib (wc_conn []) ws_stop es c"
    "conn_run script_posix demo_lib c ws_finish es' c'" "es2 = es @ es'"
    by (auto simp: conn_run_iff run_schedule_append split: option.splits)
  with conn_shutdown_once [OF this(1) [unfolded wc_conn_def] this(2)] e2 show ?thesis by blast
qed

text \<open>
  C9. Shutting down flushes: from every reachable state in which sending is stopped and \<open>send_mu_\<close> is
  not held (it is held between steps only by a reader that has deadlocked with itself, see
  \<open>conn_shutdown_self_deadlock\<close>, and then the writer never ends), the writer alone reaches its end in at most \<open>2 n + 7\<close> steps for a queue
  of \<open>n\<close> messages and raises its flag; by then either every message ever accepted has been written,
  followed by the close record, or a write has failed.
\<close>

theorem conn_shutdown_flushes:
  assumes "conn_run p lib (Conn_init sock sess cfg k g) as es c" and "c_stop_send c" and "mutex_free Send_mu c"
  shows "\<exists>as' es' c'. set as' \<subseteq> {A_writer} \<and> length as' \<le> 2 * length (c_send_q c) + 7 \<and>
    conn_run p lib c as' es' c' \<and> c_writer c' = W_exit \<and> c_write_done c' \<and>
    ((\<exists>ok. wire (es @ es') = map (\<lambda>m. (m, True)) (accepted es) @ [(close_msg, ok)]) \<or>
     (\<exists>sent m rest. wire (es @ es') = map (\<lambda>m. (m, True)) sent @ [(m, False)] \<and> accepted es = sent @ m # rest))"
proof -
  have "stop_inv (Conn_init sock sess cfg k g)" by (simp add: stop_inv_def Conn_init_def)
  with conn_run_stop_inv [OF assms(1)] assms(2,3) have "draining c" by (auto simp: draining_def stop_inv_def)
  from drains [OF this, of p lib] obtain as' es' c' where
    a: "set as' \<subseteq> {A_writer}" "length as' \<le> drain_steps (c_writer c) (length (c_send_q c))"
      "conn_run p lib c as' es' c'" "c_writer c' = W_exit" "c_write_done c'"
    by (auto simp: conn_run_iff)
  have len: "drain_steps (c_writer c) (length (c_send_q c)) \<le> 2 * length (c_send_q c) + 7"
    by (cases "c_writer c") simp_all
  have acc: "accepted (es @ es') = accepted es" using conn_run_stopped [OF a(3) assms(2)] by simp
  have "s_phase (sender_of c') = Finished" using a(4) by (simp add: sender_of_def)
  then have "(\<exists>sent m. wire (es @ es') = map (\<lambda>m. (m, True)) sent @ [(m, False)] \<and> accepted es = sent @ [m] @ s_queue (sender_of c')) \<or>
      (\<exists>sent ok. wire (es @ es') = map (\<lambda>m. (m, True)) sent @ [(close_msg, ok)] \<and> accepted es = sent)"
    using conn_run_sender_inv [OF conn_run_append [OF assms(1) a(3)]]
    unfolding sender_inv_def acc by (simp only: simp_thms if_True) blast
  then have "(\<exists>ok. wire (es @ es') = map (\<lambda>m. (m, True)) (accepted es) @ [(close_msg, ok)]) \<or>
     (\<exists>sent m rest. wire (es @ es') = map (\<lambda>m. (m, True)) sent @ [(m, False)] \<and> accepted es = sent @ m # rest)"
    by (metis append_Cons append_Nil)
  with a len show ?thesis by (meson le_trans)
qed

theorem conn_shutdown_flushes_witness:
  "\<exists>es c as' es' c'. conn_run script_posix demo_lib (wc_conn []) ws_stop es c \<and> accepted es \<noteq> [] \<and>
     set as' \<subseteq> {A_writer} \<and> conn_run script_posix demo_lib c as' es' c' \<and> c_write_done c'"
proof -
  obtain es c where r: "conn_run script_posix demo_lib (wc_conn []) ws_stop es c" and s: "c_stop_send c" "mutex_free Send_mu c"
    by (rule schedule_run [OF ws_state]) auto
  obtain es1 c1 where "conn_run script_posix demo_lib (wc_conn []) ws_stop es1 c1" "accepted es1 \<noteq> []"
    by (rule schedule_run [OF ws_run(1)]) auto
  with r have "accepted es \<noteq> []" by (simp add: conn_run_iff)
  with conn_shutdown_flushes [OF r [unfolded wc_conn_def] s] r show ?thesis by blast
qed

text \<open>
  C36. A reader that has found the receive queue full is never woken: \<open>receive_for\<close> takes messages
  off the queue without notifying the condition variable, and neither does \<open>shutdown\<close>. From then
  on, unless the operating system wakes the thread spuriously, no run makes the reader go on, no
  further message is read, and no \<open>shutdown\<close> or \<open>close\<close> ever succeeds, however much room the queue
  has.
\<close>

theorem conn_reader_stalls:
  assumes "conn_run p lib c as es c'" and "c_reader c = R_enqueue_wait pt" and "\<not> c_read_done c"
    and "A_spurious \<notin> set as"
  shows "c_reader c' = R_enqueue_wait pt \<and> texts es = [] \<and> \<not> c_read_done c' \<and>
    (\<forall>u. Returned u (Ret_shutdown NoError) \<notin> set es)"
  using blocked_for_ever [OF assms(1)] assms(2-4) by (auto simp: blocked_reader_def)

definition wr_stall :: "action list" where
  "wr_stall = [A_reader, A_reader, A_reader, A_reader, A_call 0 (Call_recv None), A_user 0]"

lemma wr_run:
  "map_option (\<lambda>(es, c). (delivered es, c_reader c, c_recv_q c, c_read_done c))
     (run_schedule script_posix demo_lib wr_stall (wc_conn [wc_record, wc_record])) =
   Some ([[1, 2]], R_enqueue_wait [1, 2], [], False)"
  "map_option fst (run_schedule script_posix demo_lib (wr_stall @ [A_call 0 (Call_recv None), A_user 0])
     (wc_conn [wc_record, wc_record])) \<noteq> None"
  by code_simp+

theorem conn_reader_stalls_witness:
  "\<exists>es c es' c'. conn_run script_posix demo_lib (wc_conn [wc_record, wc_record]) wr_stall es c \<and> c_recv_q c = [] \<and>
     conn_run script_posix demo_lib c [A_call 0 (Call_recv None), A_user 0] es' c' \<and>
     c_reader c' = R_enqueue_wait [1, 2]"
proof -
  obtain es c where r: "conn_run script_posix demo_lib (wc_conn [wc_record, wc_record]) wr_stall es c"
    and s: "c_reader c = R_enqueue_wait [1, 2]" "\<not> c_read_done c" "c_recv_q c = []"
    by (rule schedule_run [OF wr_run(1)]) auto
  from wr_run(2) r obtain es' c' where
    r': "conn_run script_posix demo_lib c [A_call 0 (Call_recv None), A_user 0] es' c'"
    by (auto simp: conn_run_iff run_schedule_append split: option.splits)
  from conn_reader_stalls [OF r' s(1,2)] r r' s(3) show ?thesis by auto
qed

text \<open>
  C37. A text message that the reader holds when sending has been stopped and the receive queue is
  full blocks the connection for ever: the reader calls \<open>abort_recv\<close> inside the scopes of the locks
  of \<open>recv_mu_\<close> and \<open>send_mu_\<close>, and the lock of \<open>recv_mu_\<close> in it waits for the reader itself. In every
  run from there, spurious wake-ups included, the reader has no step, both mutexes stay taken, no
  \<open>shutdown\<close> or \<open>close\<close> ever succeeds and no destructor returns.
\<close>

theorem conn_shutdown_self_deadlock:
  assumes "c_reader c = R_enqueue pt" and "c_stop_send c" and "\<not> c_read_done c"
    and "receive_queue_depth (c_cfg c) \<le> int_of_size (length (c_recv_q c))"
    and "exec p lib A_reader c = Some (es1, c1)" and "conn_run p lib c1 as es c2"
  shows "exec p lib A_reader c2 = None \<and> \<not> mutex_free Recv_mu c2 \<and> \<not> mutex_free Send_mu c2 \<and> \<not> c_read_done c2 \<and>
    (\<forall>u. Returned u (Ret_shutdown NoError) \<notin> set es \<and> Returned u Ret_joined \<notin> set es)"
proof -
  have "c_reader c1 = R_enqueue_abort pt" "\<not> c_read_done c1"
    using assms(1-5) by (auto simp: read_enqueue_def Let_def)
  with blocked_for_ever [OF assms(6)] never_joined [OF assms(6)] show ?thesis
    by (auto simp: blocked_reader_def locking_def)
qed

definition wd_dead :: "action list" where
  "wd_dead = [A_reader, A_reader, A_reader, A_call 0 (Call_shutdown None), A_user 0, A_user 0]"

lemma wd_run:
  "map_option (\<lambda>(es, c). (c_reader c, c_stop_send c, c_read_done c, c_recv_q c, receive_queue_depth (c_cfg c)))
     (run_schedule script_posix demo_lib wd_dead (wc_conn [wc_record, wc_record])) =
   Some (R_enqueue [1, 2], True, False, [[1, 2]], 1)"
  by code_simp

theorem conn_shutdown_self_deadlock_witness:
  "\<exists>es c es1 c1. conn_run script_posix demo_lib (wc_conn [wc_record, wc_record]) wd_dead es c \<and>
     exec script_posix demo_lib A_reader c = Some (es1, c1) \<and> exec script_posix demo_lib A_reader c1 = None \<and>
     \<not> mutex_free Send_mu c1"
proof -
  obtain es c where r: "conn_run script_posix demo_lib (wc_conn [wc_record, wc_record]) wd_dead es c"
    and s: "c_reader c = R_enqueue [1, 2]" "c_stop_send c" "\<not> c_read_done c" "c_recv_q c = [[1, 2]]"
      "receive_queue_depth (c_cfg c) = 1"
    by (rule schedule_run [OF wd_run]) auto
  obtain es1 c1 where x: "exec script_posix demo_lib A_reader c = Some (es1, c1)"
    using s(1) by (cases "read_enqueue [1, 2] c") auto
  have "receive_queue_depth (c_cfg c) \<le> int_of_size (length (c_recv_q c))" using s by (simp add: int_of_size_small)
  from conn_shutdown_self_deadlock [OF s(1-3) this x run_nil] r x show ?thesis by blast
qed

end
