(* ===== verification/Tdx_Dial.thy ===== *)
theory Tdx_Dial
  imports Tdx_Conn_Wire
begin

text \<open>
  \<^verbatim>\<open>src/dial.cpp\<close>: making a connection out of an address (client) or an accepted socket (server):
  connect, handshake under a deadline, then the connection object. The result carries the new
  connection, in its initial state, or the error; the second component is the kernel state. The
  \<open>overall_timeout\<close> parameter is not used by the code.
\<close>

section \<open>Operations\<close>

text \<open>\<open>opts_ptr\<close>: null when there is neither a key nor a pinned fingerprint.\<close>

definition opts_ptr :: "'cb FrozenConfig \<Rightarrow> handshake_opts option" where
  "opts_ptr fc =
    (let hops = handshake_opts_of fc in
     if pre_shared_key hops = [] \<and> expected_peer_pubkey_sha256 hops = None then None else Some hops)"

definition dial_for ::
  "('k, 'a) posix \<Rightarrow> ('h, 'r) crypto_lib \<Rightarrow> string \<Rightarrow> 'cb Config option \<Rightarrow> 'r \<Rightarrow> 'r seal_rng \<Rightarrow> 'k \<Rightarrow>
   (error_code + ('k, 'r, 'cb) conn) \<times> 'k" where
  "dial_for p lib address cfg entropy g k =
    (let fc = freeze_config cfg in
     if \<not> supports_version (protocol_version fc) then (Inl (DuplexEc errc_unsupported_protocol), k)
     else (case TcpSocket_connect p address (dial_timeout fc) k of
         (Inl ec, k) \<Rightarrow> (Inl ec, k)
       | (Inr sock, k) \<Rightarrow>
           let k = (if handshake_timeout fc > 0 then TcpSocket_set_deadline p (handshake_timeout fc) sock k else k);
               (r, k) = client_handshake lib (SocketStream p sock) (protocol_version fc) (opts_ptr fc) entropy k;
               k = TcpSocket_clear_deadline p sock k
           in (case r of
                 Inl hec \<Rightarrow> (Inl hec, snd (TcpSocket_close p sock k))
               | Inr sess \<Rightarrow> (Inr (Conn_init sock sess fc k g), k))))"

definition serve_conn_for ::
  "('k, 'a) posix \<Rightarrow> ('h, 'r) crypto_lib \<Rightarrow> tcp_socket option \<Rightarrow> 'cb Config option \<Rightarrow> 'r \<Rightarrow> 'r seal_rng \<Rightarrow> 'k \<Rightarrow>
   (error_code + ('k, 'r, 'cb) conn) \<times> 'k" where
  "serve_conn_for p lib sock_opt cfg entropy g k =
    (case sock_opt of
       None \<Rightarrow> (Inl (DuplexEc errc_other), k)
     | Some sock \<Rightarrow>
         let fc = freeze_config cfg;
             k = (if handshake_timeout fc > 0 then TcpSocket_set_deadline p (handshake_timeout fc) sock k else k);
             (r, k) = server_handshake lib (SocketStream p sock) (opts_ptr fc) entropy k;
             k = TcpSocket_clear_deadline p sock k
         in (case r of
               Inl hec \<Rightarrow> (Inl hec, snd (TcpSocket_close p sock k))
             | Inr (sess, ver) \<Rightarrow> (Inr (Conn_init sock sess fc k g), k)))"

text \<open>The throwing overloads, by the result of the call they make.\<close>

definition dial_throwing :: "(error_code \<Rightarrow> string) \<Rightarrow> error_code + 'c \<Rightarrow> Error + 'c" where
  "dial_throwing std r = (case r of Inl ec \<Rightarrow> Inl (Error_of_code std ''dial'' ec) | Inr c \<Rightarrow> Inr c)"

definition serve_conn_throwing :: "(error_code \<Rightarrow> string) \<Rightarrow> error_code + 'c \<Rightarrow> Error + 'c" where
  "serve_conn_throwing std r = (case r of Inl ec \<Rightarrow> Inl (Error_of_code std ''handshake'' ec) | Inr c \<Rightarrow> Inr c)"

section \<open>Descriptors\<close>

lemma connect_valid: "TcpSocket_connect p address t k = (Inr sock, k') \<Longrightarrow> sock_fd sock \<noteq> kInvalidSocket"
  by (auto simp: TcpSocket_connect_def Let_def split: prod.splits option.splits if_splits)

context posix_fds
begin

lemma client_handshake_fds:
  "client_handshake lib (SocketStream p sock) v opts ent k = (r, k') \<Longrightarrow> live k' = live k"
  by (auto simp: client_handshake_def Let_def split: prod.splits sum.splits if_splits dest!: handshake_msg_fds)

lemma server_handshake_fds:
  "server_handshake lib (SocketStream p sock) opts ent k = (r, k') \<Longrightarrow> live k' = live k"
  by (auto simp: server_handshake_def Let_def split: prod.splits sum.splits if_splits dest!: handshake_msg_fds)

lemma close_fds: "sock_fd sock \<noteq> kInvalidSocket \<Longrightarrow> live (snd (TcpSocket_close p sock k)) = live k - {sock_fd sock}"
  by (simp add: TcpSocket_close_def)

lemma dial_fds:
  assumes "dial_for p lib address cfg ent g k = (r, k')"
  shows "case r of Inl ec \<Rightarrow> live k' = live k
    | Inr c \<Rightarrow> sock_fd (c_sock c) \<notin> live k \<and> live k' = insert (sock_fd (c_sock c)) (live k) \<and> c_kernel c = k'"
proof (cases "TcpSocket_connect p address (dial_timeout (freeze_config cfg)) k")
  case (Pair rc k1)
  show ?thesis
  proof (cases rc)
    case (Inl ec)
    with Pair assms connect_fds_balance [of address "dial_timeout (freeze_config cfg)" k rc k1] show ?thesis
      by (auto simp: dial_for_def Let_def split: if_splits)
  next
    case (Inr sock)
    have c: "sock_fd sock \<noteq> kInvalidSocket" "sock_fd sock \<notin> live k" "live k1 = insert (sock_fd sock) (live k)"
      using connect_fds_balance [OF Pair] connect_valid [of p address _ k sock k1] Pair Inr by auto
    define k2 where "k2 = (if handshake_timeout (freeze_config cfg) > 0
        then TcpSocket_set_deadline p (handshake_timeout (freeze_config cfg)) sock k1 else k1)"
    obtain rh k3 where h: "client_handshake lib (SocketStream p sock) (protocol_version (freeze_config cfg))
        (opts_ptr (freeze_config cfg)) ent k2 = (rh, k3)" by fastforce
    have l: "live k3 = insert (sock_fd sock) (live k)" using client_handshake_fds [OF h] c by (simp add: k2_def)
    show ?thesis
      using assms Pair Inr h l c close_fds [OF c(1)]
      by (auto simp: dial_for_def Let_def k2_def [symmetric] Conn_init_def split: if_splits sum.splits)
  qed
qed

lemma serve_conn_fds:
  assumes "serve_conn_for p lib (Some sock) cfg ent g k = (r, k')" and "sock_fd sock \<noteq> kInvalidSocket"
  shows "case r of Inl ec \<Rightarrow> live k' = live k - {sock_fd sock}
    | Inr c \<Rightarrow> live k' = live k \<and> c_sock c = sock \<and> c_kernel c = k'"
proof -
  define k2 where "k2 = (if handshake_timeout (freeze_config cfg) > 0
      then TcpSocket_set_deadline p (handshake_timeout (freeze_config cfg)) sock k else k)"
  obtain rh k3 where h: "server_handshake lib (SocketStream p sock) (opts_ptr (freeze_config cfg)) ent k2 = (rh, k3)"
    by fastforce
  have l: "live k3 = live k" using server_handshake_fds [OF h] by (simp add: k2_def)
  show ?thesis
    using assms h l close_fds [OF assms(2)]
    by (auto simp: serve_conn_for_def Let_def k2_def [symmetric] Conn_init_def split: if_splits sum.splits)
qed

end

section \<open>Two connected peers\<close>

text \<open>What \<open>dial_for\<close> and \<open>serve_conn_for\<close> have done when they succeed.\<close>

lemma dial_cases:
  assumes "dial_for p lib address cfg ent g k = (Inr c, k')"
    and "TcpSocket_connect p address (dial_timeout (freeze_config cfg)) k = (Inr sock, k1)"
  obtains k2 k3 sess where
    "client_handshake lib (SocketStream p sock) (protocol_version (freeze_config cfg)) (opts_ptr (freeze_config cfg)) ent k2
       = (Inr sess, k3)"
    and "k2 = TcpSocket_set_deadline p (handshake_timeout (freeze_config cfg)) sock k1"
    and "k' = TcpSocket_clear_deadline p sock k3" and "c = Conn_init sock sess (freeze_config cfg) k' g"
  using assms freeze_config_ok [of cfg] unfolding config_ok_def
  by (auto simp: dial_for_def Let_def split: if_splits sum.splits prod.splits)

lemma serve_cases:
  assumes "serve_conn_for p lib (Some sock) cfg ent g k = (Inr c, k')"
  obtains k2 k3 sess ver where
    "server_handshake lib (SocketStream p sock) (opts_ptr (freeze_config cfg)) ent k2 = (Inr (sess, ver), k3)"
    and "k2 = TcpSocket_set_deadline p (handshake_timeout (freeze_config cfg)) sock k"
    and "k' = TcpSocket_clear_deadline p sock k3" and "c = Conn_init sock sess (freeze_config cfg) k' g"
  using assms freeze_config_ok [of cfg] unfolding config_ok_def
  by (auto simp: serve_conn_for_def Let_def split: if_splits sum.splits prod.splits)

text \<open>On the streams, with the contract of a connection's descriptor.\<close>

lemma opts_psk_ptr: "opts_psk (opts_ptr fc) = auth_pre_shared_key (Config.handshake fc)"
  by (simp add: opts_psk_def opts_ptr_def handshake_opts_of_def Let_def)

lemma handshake_bytes_length: "length pub = 32 \<Longrightarrow> length (handshake_bytes v pub) = 38"
  by (simp add: handshake_bytes_def kMagic_def put_be16_def)

context conn_env
begin

lemma conn_duplex: "duplex_stream (SocketStream p \<lparr>sock_fd = fd\<rparr>) out inp"
  by (rule duplex_stream_axioms)

lemma dial_streams:
  assumes "dial_for p lib address cfg ent g k = (Inr c, k')"
    and "TcpSocket_connect p address (dial_timeout (freeze_config cfg)) k = (Inr \<lparr>sock_fd = fd\<rparr>, k1)"
  obtains s0 s1 sess h hr where
    "client_handshake lib (SocketStream p \<lparr>sock_fd = fd\<rparr>) (protocol_version (freeze_config cfg)) (opts_ptr (freeze_config cfg)) ent s0
       = (Inr sess, s1)"
    and "out s1 = out s0 @ h" "inp s0 = hr @ inp s1" "length h = 38" "length hr = 38"
    and "out s0 = out k1" "inp s0 = inp k1" "out s1 = out k'" "inp s1 = inp k'"
    and "c = Conn_init \<lparr>sock_fd = fd\<rparr> sess (freeze_config cfg) k' g"
proof (rule dial_cases [OF assms])
  fix k2 k3 sess
  assume h: "client_handshake lib (SocketStream p \<lparr>sock_fd = fd\<rparr>) (protocol_version (freeze_config cfg))
      (opts_ptr (freeze_config cfg)) ent k2 = (Inr sess, k3)"
    and k2: "k2 = TcpSocket_set_deadline p (handshake_timeout (freeze_config cfg)) \<lparr>sock_fd = fd\<rparr> k1"
    and k': "k' = TcpSocket_clear_deadline p \<lparr>sock_fd = fd\<rparr> k3"
    and c: "c = Conn_init \<lparr>sock_fd = fd\<rparr> sess (freeze_config cfg) k' g"
  show thesis
    using client_handshake_wire [OF h] that [OF h _ _ _ _ _ _ _ _ c] handshake_bytes_length
      deadline_streams(1) [of "handshake_timeout (freeze_config cfg)" k1] deadline_streams(2) [of k3] k2 k' by metis
qed

lemma serve_streams:
  assumes "serve_conn_for p lib (Some \<lparr>sock_fd = fd\<rparr>) cfg ent g k = (Inr c, k')"
  obtains s0 s1 sess ver h hr where
    "server_handshake lib (SocketStream p \<lparr>sock_fd = fd\<rparr>) (opts_ptr (freeze_config cfg)) ent s0 = (Inr (sess, ver), s1)"
    and "out s1 = out s0 @ h" "inp s0 = hr @ inp s1" "length h = 38" "length hr = 38"
    and "out s0 = out k" "inp s0 = inp k" "out s1 = out k'" "inp s1 = inp k'"
    and "c = Conn_init \<lparr>sock_fd = fd\<rparr> sess (freeze_config cfg) k' g"
proof (rule serve_cases [OF assms])
  fix k2 k3 sess ver
  assume h: "server_handshake lib (SocketStream p \<lparr>sock_fd = fd\<rparr>) (opts_ptr (freeze_config cfg)) ent k2 = (Inr (sess, ver), k3)"
    and k2: "k2 = TcpSocket_set_deadline p (handshake_timeout (freeze_config cfg)) \<lparr>sock_fd = fd\<rparr> k"
    and k': "k' = TcpSocket_clear_deadline p \<lparr>sock_fd = fd\<rparr> k3"
    and c: "c = Conn_init \<lparr>sock_fd = fd\<rparr> sess (freeze_config cfg) k' g"
  show thesis
    using server_handshake_wire [OF h] that [OF h _ _ _ _ _ _ _ _ c] handshake_bytes_length
      deadline_streams(1) [of "handshake_timeout (freeze_config cfg)" k] deadline_streams(2) [of k3] k2 k' by metis
qed

lemma conn_run_grows:
  assumes "conn_run p lib (Conn_init \<lparr>sock_fd = fd\<rparr> sess cfg k g) as es c"
  obtains d where "out (c_kernel c) = out k @ d"
  using conn_run_wire [OF assms] by (auto simp: out_inv_def elim!: prefixE)

end

text \<open>Peeling the handshake off both streams.\<close>

lemma peel_prefix: "length h = length h' \<Longrightarrow> prefix (h' @ r) (h @ d) \<longleftrightarrow> h = h' \<and> prefix r d"
  by (auto simp: prefix_def)

lemma dialled_pair:
  assumes A: "conn_env pA fdA inpA outA lib" and B: "conn_env pB fdB inpB outB lib"
    and con: "TcpSocket_connect pA addr (dial_timeout (freeze_config cfgA)) k0 = (Inr \<lparr>sock_fd = fdA\<rparr>, kA)"
    and dA: "dial_for pA lib addr cfgA entA gA k0 = (Inr cA0, kA1)"
    and dB: "serve_conn_for pB lib (Some \<lparr>sock_fd = fdB\<rparr>) cfgB entB gB kB = (Inr cB0, kB1)"
    and psk: "auth_pre_shared_key (Config.handshake (freeze_config cfgA)) = auth_pre_shared_key (Config.handshake (freeze_config cfgB))"
    and rA: "conn_run pA lib cA0 asA esA cA" and rB: "conn_run pB lib cB0 asB esB cB"
    and oA: "outA (c_kernel cA) = outA kA @ wA" "prefix (inpB kB) wA"
    and oB: "outB (c_kernel cB) = outB kB @ wB" "prefix (inpA kA) wB"
  shows "\<exists>sess dA dB. cA0 = Conn_init \<lparr>sock_fd = fdA\<rparr> sess (freeze_config cfgA) kA1 gA \<and>
    cB0 = Conn_init \<lparr>sock_fd = fdB\<rparr> sess (freeze_config cfgB) kB1 gB \<and> length (session_key sess) = 32 \<and>
    outA (c_kernel cA) = outA kA1 @ dA \<and> prefix (inpB kB1) dA \<and>
    outB (c_kernel cB) = outB kB1 @ dB \<and> prefix (inpA kA1) dB"
proof -
  have duplA: "duplex_stream (SocketStream pA \<lparr>sock_fd = fdA\<rparr>) outA inpA"
    and duplB: "duplex_stream (SocketStream pB \<lparr>sock_fd = fdB\<rparr>) outB inpB"
    using conn_env.conn_duplex [OF A] conn_env.conn_duplex [OF B] .
  from conn_env.dial_streams [OF A dA con] obtain s0 s1 sessA hA rA' where
    hsA: "client_handshake lib (SocketStream pA \<lparr>sock_fd = fdA\<rparr>) (protocol_version (freeze_config cfgA))
        (opts_ptr (freeze_config cfgA)) entA s0 = (Inr sessA, s1)"
    and a: "outA s1 = outA s0 @ hA" "inpA s0 = rA' @ inpA s1" "length hA = 38" "length rA' = 38"
      "outA s0 = outA kA" "inpA s0 = inpA kA" "outA s1 = outA kA1" "inpA s1 = inpA kA1"
    and cA0: "cA0 = Conn_init \<lparr>sock_fd = fdA\<rparr> sessA (freeze_config cfgA) kA1 gA" .
  from conn_env.serve_streams [OF B dB] obtain t0 t1 sessB ver hB rB' where
    hsB: "server_handshake lib (SocketStream pB \<lparr>sock_fd = fdB\<rparr>) (opts_ptr (freeze_config cfgB)) entB t0 = (Inr (sessB, ver), t1)"
    and b: "outB t1 = outB t0 @ hB" "inpB t0 = rB' @ inpB t1" "length hB = 38" "length rB' = 38"
      "outB t0 = outB kB" "inpB t0 = inpB kB" "outB t1 = outB kB1" "inpB t1 = inpB kB1"
    and cB0: "cB0 = Conn_init \<lparr>sock_fd = fdB\<rparr> sessB (freeze_config cfgB) kB1 gB" .
  obtain dA where dA: "outA (c_kernel cA) = outA kA1 @ dA"
    using conn_env.conn_run_grows [OF A rA [unfolded cA0]] .
  obtain dB where dB: "outB (c_kernel cB) = outB kB1 @ dB"
    using conn_env.conn_run_grows [OF B rB [unfolded cB0]] .
  have pA: "hA = rB'" "prefix (inpB kB1) dA"
    using oA dA a b peel_prefix [of hA rB' "inpB kB1" dA] by auto
  have pB: "hB = rA'" "prefix (inpA kA1) dB"
    using oB dB a b peel_prefix [of hB rA' "inpA kA1" dB] by auto
  have "sessB = sessA \<and> length (session_key sessA) = 32"
    using handshake_keys_agree [OF conn_env.axioms(2) [OF A] duplA duplB hsA hsB a(1) _ b(1), of "inpB t1" "inpA s1"]
      b(2) a(2) pA(1) pB(1) psk opts_psk_ptr by metis
  with cA0 cB0 dA dB pA(2) pB(2) show ?thesis by blast
qed

section \<open>Properties\<close>

text \<open>
  C35. No descriptor leaks while a connection is being made: when \<open>dial_for\<close> fails, for any reason
  from the protocol version to the handshake, the open descriptors are those before the call; when
  it succeeds exactly the new connection's socket is added. \<open>serve_conn_for\<close> closes the socket it
  was given when the handshake fails and keeps it in the connection otherwise.
\<close>

theorem dial_serve_no_fd_leak:
  assumes "posix_fds p live" and "sock_fd sock \<noteq> kInvalidSocket"
  shows "(case dial_for p lib address cfg ent g k of
       (Inl ec, k') \<Rightarrow> live k' = live k
     | (Inr c, k') \<Rightarrow> sock_fd (c_sock c) \<notin> live k \<and> live k' = insert (sock_fd (c_sock c)) (live k)) \<and>
    (case serve_conn_for p lib (Some sock) cfg ent g k of
       (Inl ec, k') \<Rightarrow> live k' = live k - {sock_fd sock}
     | (Inr c, k') \<Rightarrow> live k' = live k \<and> c_sock c = sock)"
proof
  obtain r k' where d: "dial_for p lib address cfg ent g k = (r, k')" by fastforce
  from posix_fds.dial_fds [OF assms(1) d] d
  show "case dial_for p lib address cfg ent g k of
       (Inl ec, k') \<Rightarrow> live k' = live k
     | (Inr c, k') \<Rightarrow> sock_fd (c_sock c) \<notin> live k \<and> live k' = insert (sock_fd (c_sock c)) (live k)"
    by (cases r) simp_all
  obtain r k' where d: "serve_conn_for p lib (Some sock) cfg ent g k = (r, k')" by fastforce
  from posix_fds.serve_conn_fds [OF assms(1) d assms(2)] d
  show "case serve_conn_for p lib (Some sock) cfg ent g k of
       (Inl ec, k') \<Rightarrow> live k' = live k - {sock_fd sock}
     | (Inr c, k') \<Rightarrow> live k' = live k \<and> c_sock c = sock"
    by (cases r) simp_all
qed

definition wf_kernel :: script_kernel where
  "wf_kernel = \<lparr>rx_segments = [[84, 68, 88, 50]], tx_log = [], tx_limits = [], fd_table = {}, next_fd = 7\<rparr>"

lemma wf_run:
  "map_prod (\<lambda>r. case r of Inl ec \<Rightarrow> Some ec | Inr c \<Rightarrow> None) (\<lambda>k. True)
     (dial_for script_posix demo_lib ''10.0.0.1:80'' (None :: unit Config option) 3 demo_rng wf_kernel) = (Some (DuplexEc errc_bad_handshake), True)"
  by code_simp

theorem dial_serve_no_fd_leak_witness:
  "\<exists>k'. dial_for script_posix demo_lib ''10.0.0.1:80'' (None :: unit Config option) 3 demo_rng wf_kernel =
     (Inl (DuplexEc errc_bad_handshake), k') \<and> fd_table k' = fd_table wf_kernel"
proof -
  obtain k' where "dial_for script_posix demo_lib ''10.0.0.1:80'' (None :: unit Config option) 3 demo_rng wf_kernel =
     (Inl (DuplexEc errc_bad_handshake), k')"
    using wf_run by (cases "dial_for script_posix demo_lib ''10.0.0.1:80'' (None :: unit Config option) 3 demo_rng wf_kernel")
      (auto split: sum.splits)
  with dial_serve_no_fd_leak [OF script.posix_fds_axioms, where sock = "\<lparr>sock_fd = 5\<rparr>" and lib = demo_lib
      and address = "''10.0.0.1:80''" and cfg = "None :: unit Config option" and ent = 3 and g = demo_rng and k = wf_kernel]
  show ?thesis by (auto simp: kInvalidSocket_def split: prod.splits)
qed

end
