(* ===== verification/Tdx_Server.thy ===== *)
theory Tdx_Server
  imports Tdx_Dial "HOL-Library.Multiset"
begin

text \<open>
  The server of \<^verbatim>\<open>src/server.cpp\<close>: a listener, a stop flag and one worker thread per accepted socket.
  The accept loop, the workers, the connections they serve and the callers of \<open>stop\<close> and \<open>close\<close>
  interleave; a step is what a thread does between two accesses to shared state, and a handshake is one
  step, as reading a record is one in \<open>Tdx_Conn\<close>. A connected worker runs the machine of \<open>Tdx_Conn\<close>:
  the user's callback is any sequence of calls on the connection, from the worker (caller 0) and from
  threads it starts, and it has returned when the worker calls the destructor. Threads that have returned
  stay in \<open>workers_\<close> until they are joined. One call of \<open>serve\<close> is modelled.
\<close>

section \<open>State\<close>

text \<open>Where a worker is: before its handshake, serving the connection on the socket it was given, returned.\<close>

datatype ('k, 'r, 'cb) worker = Wk_start tcp_socket | Wk_connected tcp_socket "('k, 'r, 'cb) conn" | Wk_exit

text \<open>
  Where \<open>serve\<close> is: at its loop test (with \<open>ec\<close>), in \<open>accept\<close> with the listener it read, after an
  accept, after a failed one, joining the workers, returned.
\<close>

datatype serve_pc =
    S_none
  | S_loop error_code
  | S_accept tcp_listener
  | S_accepted tcp_socket
  | S_failed error_code
  | S_join error_code
  | S_ret error_code

text \<open>\<open>sv_closing\<close>: callers of \<open>close\<close> between its two statements.\<close>

record ('k, 'r, 'cb) server =
  sv_cfg :: "'cb Config"
  sv_ln :: tcp_listener
  sv_stopping :: bool
  sv_workers :: "('k, 'r, 'cb) worker list"
  sv_serve :: serve_pc
  sv_closing :: nat
  sv_kernel :: 'k

definition Server_init :: "tcp_listener \<Rightarrow> 'cb Config \<Rightarrow> 'k \<Rightarrow> ('k, 'r, 'cb) server" where
  "Server_init ln cfg k = \<lparr>sv_cfg = cfg, sv_ln = ln, sv_stopping = False, sv_workers = [],
     sv_serve = S_none, sv_closing = 0, sv_kernel = k\<rparr>"

section \<open>Operations\<close>

definition Server_listen ::
  "('k, 'a) posix \<Rightarrow> string \<Rightarrow> string \<Rightarrow> 'cb Config option \<Rightarrow> 'k \<Rightarrow>
   (error_code + ('k, 'r, 'cb) server) \<times> 'k" where
  "Server_listen p network addr cfg k =
    (if network \<noteq> ''tcp'' \<and> network \<noteq> ''tcp4'' \<and> network \<noteq> ''tcp6'' then (Inl (DuplexEc errc_other), k)
     else
       (case TcpListener_listen p addr k of
          (Inl ec, k) \<Rightarrow> (Inl ec, k)
        | (Inr ln, k) \<Rightarrow>
            let c = (case cfg of Some c \<Rightarrow> c | None \<Rightarrow> default_config)
            in (Inr (Server_init ln c k), k)))"

definition Server_listen_throwing :: "(error_code \<Rightarrow> string) \<Rightarrow> error_code + 's \<Rightarrow> Error + 's" where
  "Server_listen_throwing std r = (case r of Inl ec \<Rightarrow> Inl (Error_of_code std ''listen'' ec) | Inr s \<Rightarrow> Inr s)"

definition Server_addr :: "('k, 'r, 'cb) server \<Rightarrow> string" where
  "Server_addr s = ln_addr (sv_ln s)"

datatype server_event =
    Ev_accept tcp_socket
  | Ev_connect tcp_socket
  | Ev_reject tcp_socket error_code
  | Ev_done tcp_socket
  | Ev_return error_code

text \<open>\<open>close\<close> (and \<open>stop\<close>): its two statements.\<close>

definition Server_close_flag :: "('k, 'r, 'cb) server \<Rightarrow> ('k, 'r, 'cb) server" where
  "Server_close_flag s = s\<lparr>sv_stopping := True, sv_closing := Suc (sv_closing s)\<rparr>"

definition Server_close_ln :: "('k, 'a) posix \<Rightarrow> ('k, 'r, 'cb) server \<Rightarrow> ('k, 'r, 'cb) server option" where
  "Server_close_ln p s =
    (if sv_closing s = 0 then None
     else
       let (ln, k) = TcpListener_close p (sv_ln s) (sv_kernel s)
       in Some (s\<lparr>sv_ln := ln, sv_kernel := k, sv_closing := sv_closing s - 1\<rparr>))"

text \<open>\<open>serve\<close> up to its loop (\<open>on_connect\<close>: whether a callback was given), and its steps.\<close>

definition Server_serve :: "bool \<Rightarrow> ('k, 'r, 'cb) server \<Rightarrow> (server_event list \<times> ('k, 'r, 'cb) server) option" where
  "Server_serve on_connect s =
    (if sv_serve s \<noteq> S_none then None
     else if \<not> on_connect then
       Some ([Ev_return (DuplexEc errc_other)], s\<lparr>sv_serve := S_ret (DuplexEc errc_other)\<rparr>)
     else Some ([], s\<lparr>sv_serve := S_loop NoError\<rparr>))"

definition workers_done :: "('k, 'r, 'cb) server \<Rightarrow> bool" where
  "workers_done s \<longleftrightarrow> list_all (\<lambda>w. case w of Wk_exit \<Rightarrow> True | _ \<Rightarrow> False) (sv_workers s)"

fun serve_step ::
  "('k, 'a) posix \<Rightarrow> serve_pc \<Rightarrow> ('k, 'r, 'cb) server \<Rightarrow> (server_event list \<times> ('k, 'r, 'cb) server) option" where
  "serve_step p (S_loop ec) s =
    Some ([], s\<lparr>sv_serve := if sv_stopping s then S_join ec else S_accept (sv_ln s)\<rparr>)"
| "serve_step p (S_accept ln) s =
    (if TcpListener_accept_blocks p ln (sv_kernel s) then None
     else case TcpListener_accept p ln (sv_kernel s) of
       (Inl ec, k) \<Rightarrow> Some ([], s\<lparr>sv_kernel := k, sv_serve := S_failed ec\<rparr>)
     | (Inr sock, k) \<Rightarrow> Some ([Ev_accept sock], s\<lparr>sv_kernel := k, sv_serve := S_accepted sock\<rparr>))"
| "serve_step p (S_failed ec) s =
    Some ([], s\<lparr>sv_serve := S_join (if sv_stopping s then DuplexEc errc_canceled else ec)\<rparr>)"
| "serve_step p (S_accepted sock) s =
    Some ([], s\<lparr>sv_workers := sv_workers s @ [Wk_start sock], sv_serve := S_loop NoError\<rparr>)"
| "serve_step p (S_join ec) s =
    (if workers_done s then Some ([Ev_return ec], s\<lparr>sv_workers := [], sv_serve := S_ret ec\<rparr>) else None)"
| "serve_step p _ s = None"

text \<open>The overload without an error code throws on an error while the server is not being stopped.\<close>

definition Server_serve_throwing :: "(error_code \<Rightarrow> string) \<Rightarrow> bool \<Rightarrow> error_code \<Rightarrow> Error + unit" where
  "Server_serve_throwing std stopping ec =
    (if ec_fails ec \<and> ec \<noteq> DuplexEc errc_closed \<and> \<not> stopping then Inl (Error_of_code std ''serve'' ec)
     else Inr ())"

text \<open>The body of a worker: the handshake.\<close>

fun worker_step ::
  "('k, 'a) posix \<Rightarrow> ('h, 'r) crypto_lib \<Rightarrow> 'cb Config \<Rightarrow> 'r \<Rightarrow> 'r seal_rng \<Rightarrow>
   ('k, 'r, 'cb) worker \<Rightarrow> 'k \<Rightarrow> (server_event list \<times> ('k, 'r, 'cb) worker \<times> 'k) option" where
  "worker_step p lib cfg ent g (Wk_start sock) k =
    (case serve_conn_for p lib (Some sock) (Some cfg) ent g k of
       (Inl hec, k) \<Rightarrow> Some ([Ev_reject sock hec], Wk_exit, k)
     | (Inr c, k) \<Rightarrow> Some ([Ev_connect sock], Wk_connected sock c, k))"
| "worker_step p lib cfg ent g _ k = None"

text \<open>
  Then the callback on the connection, and the end of the scope of \<open>conn\<close>: one step of the connection
  machine on the kernel all threads share. Only the worker destroys the connection; when the destructor
  has joined the connection's threads the socket is destroyed with the other members and the worker
  returns.
\<close>

fun callback_may :: "action \<Rightarrow> bool" where
  "callback_may (A_call u Call_destroy) \<longleftrightarrow> u = 0"
| "callback_may _ \<longleftrightarrow> True"

fun callback_step ::
  "('k, 'a) posix \<Rightarrow> ('h, 'r) crypto_lib \<Rightarrow> action \<Rightarrow>
   ('k, 'r, 'cb) worker \<Rightarrow> 'k \<Rightarrow> (server_event list \<times> ('k, 'r, 'cb) worker \<times> 'k) option" where
  "callback_step p lib a (Wk_connected sock c) k =
    (if \<not> callback_may a then None
     else case exec p lib a (c\<lparr>c_kernel := k\<rparr>) of
       None \<Rightarrow> None
     | Some (es, c) \<Rightarrow>
         if Returned 0 Ret_joined \<in> set es then
           Some ([Ev_done sock], Wk_exit, TcpSocket_destroy p (c_sock c) (c_kernel c))
         else Some ([], Wk_connected sock c, c_kernel c))"
| "callback_step p lib a _ k = None"

section \<open>The machine\<close>

datatype 'r server_act =
    Sv_serve bool
  | Sv_step
  | Sv_worker nat 'r "'r seal_rng"
  | Sv_conn nat action
  | Sv_stop
  | Sv_close

text \<open>Worker \<open>i\<close> takes a step \<open>f\<close> of its own.\<close>

definition on_worker ::
  "nat \<Rightarrow> (('k, 'r, 'cb) worker \<Rightarrow> 'k \<Rightarrow> (server_event list \<times> ('k, 'r, 'cb) worker \<times> 'k) option) \<Rightarrow>
   ('k, 'r, 'cb) server \<Rightarrow> (server_event list \<times> ('k, 'r, 'cb) server) option" where
  "on_worker i f s =
    (if i < length (sv_workers s) then
       map_option (\<lambda>(es, w, k). (es, s\<lparr>sv_workers := (sv_workers s)[i := w], sv_kernel := k\<rparr>))
         (f (sv_workers s ! i) (sv_kernel s))
     else None)"

fun server_exec ::
  "('k, 'a) posix \<Rightarrow> ('h, 'r) crypto_lib \<Rightarrow> 'r server_act \<Rightarrow>
   ('k, 'r, 'cb) server \<Rightarrow> (server_event list \<times> ('k, 'r, 'cb) server) option" where
  "server_exec p lib (Sv_serve b) s = Server_serve b s"
| "server_exec p lib Sv_step s = serve_step p (sv_serve s) s"
| "server_exec p lib (Sv_worker i ent g) s = on_worker i (worker_step p lib (sv_cfg s) ent g) s"
| "server_exec p lib (Sv_conn i a) s = on_worker i (callback_step p lib a) s"
| "server_exec p lib Sv_stop s = Some ([], Server_close_flag s)"
| "server_exec p lib Sv_close s = map_option (Pair []) (Server_close_ln p s)"

fun server_run ::
  "('k, 'a) posix \<Rightarrow> ('h, 'r) crypto_lib \<Rightarrow> 'r server_act list \<Rightarrow>
   ('k, 'r, 'cb) server \<Rightarrow> (server_event list \<times> ('k, 'r, 'cb) server) option" where
  "server_run p lib [] s = Some ([], s)"
| "server_run p lib (a # as) s =
    Option.bind (server_exec p lib a s) (\<lambda>(es, s). map_option (apfst ((@) es)) (server_run p lib as s))"

text \<open>
  \<open>close\<close> run to its end, and \<open>~Server\<close>: \<open>stop\<close>, \<open>close\<close>, then the joins (\<open>None\<close>: it waits for a worker
  that has not returned).
\<close>

definition Server_close :: "('k, 'a) posix \<Rightarrow> ('k, 'r, 'cb) server \<Rightarrow> ('k, 'r, 'cb) server" where
  "Server_close p s =
    (let (ln, k) = TcpListener_close p (sv_ln s) (sv_kernel s)
     in s\<lparr>sv_stopping := True, sv_ln := ln, sv_kernel := k\<rparr>)"

definition Server_stop :: "('k, 'a) posix \<Rightarrow> ('k, 'r, 'cb) server \<Rightarrow> ('k, 'r, 'cb) server" where
  "Server_stop p s = Server_close p s"

definition Server_destroy :: "('k, 'a) posix \<Rightarrow> ('k, 'r, 'cb) server \<Rightarrow> ('k, 'r, 'cb) server option" where
  "Server_destroy p s = (let s = Server_close p (Server_stop p s) in if workers_done s then Some s else None)"

text \<open>The two statements of \<open>close\<close> in a row are the call.\<close>

lemma close_steps: "Server_close_ln p (Server_close_flag s) = Some (Server_close p s)"
  by (simp add: Server_close_ln_def Server_close_flag_def Server_close_def split: prod.splits)

lemma workers_done_iff: "workers_done s \<longleftrightarrow> (\<forall>w \<in> set (sv_workers s). w = Wk_exit)"
proof -
  have "(case w of Wk_exit \<Rightarrow> True | _ \<Rightarrow> False) \<longleftrightarrow> w = Wk_exit" for w :: "('a, 'b, 'c) worker" by (cases w) simp_all
  then show ?thesis by (simp add: workers_done_def list_all_iff)
qed

text \<open>An invariant that every step keeps holds after every run; events may enter it.\<close>

lemma server_run_induct:
  assumes "server_run p lib as s = Some (es, s')" and "P [] s"
    and step: "\<And>a es0 s0 es1 s1. P es0 s0 \<Longrightarrow> server_exec p lib a s0 = Some (es1, s1) \<Longrightarrow> P (es0 @ es1) s1"
  shows "P es s'"
proof -
  have "P es0 s \<Longrightarrow> server_run p lib as s = Some (es, s') \<Longrightarrow> P (es0 @ es) s'" for es0
  proof (induction as arbitrary: es0 s es)
    case (Cons a as)
    from Cons.prems(2) obtain es1 s1 es2 where a: "server_exec p lib a s = Some (es1, s1)"
      and r: "server_run p lib as s1 = Some (es2, s')" and es: "es = es1 @ es2"
      by (auto simp: bind_eq_Some_conv)
    from Cons.IH [OF step [OF Cons.prems(1) a] r] es show ?case by simp
  qed simp
  from this [OF assms(2,1)] show ?thesis by simp
qed

text \<open>Adding up what each element of a list contributes.\<close>

definition tally :: "('x \<Rightarrow> 'y multiset) \<Rightarrow> 'x list \<Rightarrow> 'y multiset" where
  "tally f xs = \<Sum>\<^sub># (mset (map f xs))"

lemma tally_simps [simp]: "tally f [] = {#}" "tally f (x # xs) = f x + tally f xs" "tally f (xs @ ys) = tally f xs + tally f ys"
  by (simp_all add: tally_def)

lemma tally_empty: "(\<And>x. x \<in> set xs \<Longrightarrow> f x = {#}) \<Longrightarrow> tally f xs = {#}"
  by (induction xs) simp_all

lemma tally_exit: "\<forall>w \<in> set ws. w = z \<Longrightarrow> f z = {#} \<Longrightarrow> tally f ws = {#}"
  by (rule tally_empty) simp

lemma tally_mem: "x \<in> set xs \<Longrightarrow> f x \<subseteq># tally f xs"
  by (induction xs) (auto intro: subset_mset.add_increasing)

lemma tally_update: "i < length xs \<Longrightarrow> tally f (xs[i := x]) + f (xs ! i) = tally f xs + f x"
  by (induction xs arbitrary: i) (auto simp: nth_Cons ac_simps split: nat.splits)

lemma multiset_swap:
  assumes "a + w = b + w'" and "t' + w = t + (w' :: 'x multiset)"
  shows "t + a = t' + b"
proof -
  have "(t + a) + w' = t' + (a + w)" using assms(2) by (simp add: ac_simps)
  also have "\<dots> = (t' + b) + w'" using assms(1) by (simp add: ac_simps)
  finally show ?thesis by simp
qed

section \<open>Descriptors\<close>

text \<open>The descriptors a worker, the accept loop and the server hold.\<close>

primrec worker_fds :: "('k, 'r, 'cb) worker \<Rightarrow> int multiset" where
  "worker_fds (Wk_start sock) = {#sock_fd sock#}"
| "worker_fds (Wk_connected sock c) =
    (if sock_fd (c_sock c) = kInvalidSocket then {#} else {#sock_fd (c_sock c)#})"
| "worker_fds Wk_exit = {#}"

definition listener_fds :: "tcp_listener \<Rightarrow> int multiset" where
  "listener_fds ln = (if ln_fd ln = kInvalidSocket then {#} else {#ln_fd ln#})"

primrec pc_fds :: "serve_pc \<Rightarrow> int multiset" where
  "pc_fds S_none = {#}"
| "pc_fds (S_loop ec) = {#}"
| "pc_fds (S_accept ln) = {#}"
| "pc_fds (S_accepted sock) = {#sock_fd sock#}"
| "pc_fds (S_failed ec) = {#}"
| "pc_fds (S_join ec) = {#}"
| "pc_fds (S_ret ec) = {#}"

definition owned_fds :: "('k, 'r, 'cb) server \<Rightarrow> int multiset" where
  "owned_fds s = listener_fds (sv_ln s) + pc_fds (sv_serve s) + tally worker_fds (sv_workers s)"

text \<open>Each owned once, none by the rest of the process, all open, and nothing else new.\<close>

definition fds_inv :: "('k \<Rightarrow> int set) \<Rightarrow> int set \<Rightarrow> ('k, 'r, 'cb) server \<Rightarrow> bool" where
  "fds_inv live base s \<longleftrightarrow> (\<forall>fd. count (owned_fds s) fd \<le> 1) \<and> set_mset (owned_fds s) \<inter> base = {} \<and>
     live (sv_kernel s) = base \<union> set_mset (owned_fds s) \<and> kInvalidSocket \<notin># owned_fds s"

text \<open>The three ways a step may change what is owned.\<close>

lemma fds_same:
  "fds_inv live base s \<Longrightarrow> owned_fds s' = owned_fds s \<Longrightarrow> live (sv_kernel s') = live (sv_kernel s) \<Longrightarrow> fds_inv live base s'"
  by (simp add: fds_inv_def)

lemma fds_gain:
  assumes "fds_inv live base s" and "owned_fds s' = add_mset fd (owned_fds s)"
    and "live (sv_kernel s') = insert fd (live (sv_kernel s))" and "fd \<notin> live (sv_kernel s)" and "fd \<noteq> kInvalidSocket"
  shows "fds_inv live base s'"
  using assms by (auto simp: fds_inv_def not_in_iff)

lemma fds_lose:
  assumes "fds_inv live base s" and "owned_fds s = add_mset fd (owned_fds s')"
    and "live (sv_kernel s') = live (sv_kernel s) - {fd}"
  shows "fds_inv live base s'"
proof -
  have one: "count (owned_fds s) x \<le> 1" for x using assms(1) by (simp add: fds_inv_def)
  have "fd \<notin># owned_fds s'" using one [of fd] assms(2) by (simp add: not_in_iff)
  moreover have "count (owned_fds s') x \<le> 1" for x using one [of x] assms(2) by (auto split: if_splits)
  ultimately show ?thesis using assms by (auto simp: fds_inv_def)
qed

text \<open>A step of a connection leaves its socket and the open descriptors alone, or closes the socket.\<close>

definition conn_fds :: "('k \<Rightarrow> int set) \<Rightarrow> ('k, 'r, 'cb) conn \<Rightarrow> ('k, 'r, 'cb) conn \<Rightarrow> bool" where
  "conn_fds live c c' \<longleftrightarrow>
     c_sock c' = c_sock c \<and> live (c_kernel c') = live (c_kernel c) \<or>
     sock_fd (c_sock c) \<noteq> kInvalidSocket \<and> sock_fd (c_sock c') = kInvalidSocket \<and>
       live (c_kernel c') = live (c_kernel c) - {sock_fd (c_sock c)}"

lemma conn_fds_same: "c_sock c' = c_sock c \<Longrightarrow> c_kernel c' = c_kernel c \<Longrightarrow> conn_fds live c c'"
  by (simp add: conn_fds_def)

lemma locked_kernel:
  "send_locked u payload t x c = (es, c') \<Longrightarrow> c_sock c' = c_sock c \<and> c_kernel c' = c_kernel c"
  "receive_locked u t x c = (es, c') \<Longrightarrow> c_sock c' = c_sock c \<and> c_kernel c' = c_kernel c"
  "exec_call u op c = (es, c') \<Longrightarrow> c_sock c' = c_sock c \<and> c_kernel c' = c_kernel c"
  subgoal by (auto simp: send_locked_def Let_def split: if_splits)
  subgoal by (auto simp: receive_locked_def split: if_splits list.splits)
  subgoal by (cases op) (auto simp: Conn_send_for_def Conn_receive_for_def Conn_shutdown_def split: if_splits)
  done

context posix_fds
begin

lemma read_one_fds:
  assumes "read_one p lib c = (es, c')"
  shows "conn_fds live c c'"
proof -
  obtain r k where r: "read_record (SocketStream p (c_sock c)) (c_kernel c) = (r, k)" by fastforce
  have "c_sock c' = c_sock c \<and> c_kernel c' = k"
    using assms r by (auto simp: read_one_def split: sum.splits prod.splits)
  with record_fds(2) [OF r] show ?thesis by (simp add: conn_fds_def)
qed

lemma reader_conn_fds: "exec_reader p lib pc c = Some (es, c') \<Longrightarrow> conn_fds live c c'"
  by (cases pc) (auto simp: read_jobs_def read_enqueue_def read_ping_def Let_def
      dest!: read_one_fds intro: conn_fds_same split: prod.splits if_splits)

lemma write_out_fds:
  assumes "Conn_write_out p lib out c = (ok, c')"
  shows "conn_fds live c (c'\<lparr>c_writer := w\<rparr>)"
proof -
  obtain r g where s: "Session_seal lib (c_sess c) (ob_pt out) (c_rng c) = (r, g)" by fastforce
  show ?thesis
  proof (cases r)
    case (Inl ec)
    with assms s show ?thesis by (auto simp: Conn_write_out_def intro!: conn_fds_same)
  next
    case (Inr sealed)
    obtain ec k where x: "write_record (SocketStream p (c_sock c)) (ob_typ out) sealed (c_kernel c) = (ec, k)" by fastforce
    with assms s Inr have "c' = c\<lparr>c_rng := g, c_kernel := k\<rparr>" by (simp add: Conn_write_out_def)
    with record_fds(1) [OF x] show ?thesis by (simp add: conn_fds_def)
  qed
qed

lemma writer_conn_fds: "exec_writer p lib pc c = Some (es, c') \<Longrightarrow> conn_fds live c c'"
  by (cases pc) (auto simp: write_lock_def write_flush_def split: prod.splits list.splits if_splits
      intro: write_out_fds conn_fds_same)

lemma user_conn_fds: "exec_user p u pc c = Some (es, c') \<Longrightarrow> conn_fds live c c'"
  by (cases pc) (auto simp: conn_fds_def shutdown_stop_def shutdown_deliver_def shutdown_sock_def shutdown_return_def
      TcpSocket_close_def Let_def dest!: locked_kernel split: prod.splits if_splits)

lemma timeout_conn_fds: "exec_timeout u pc c = Some (es, c') \<Longrightarrow> conn_fds live c c'"
  by (cases "(u, pc, c)" rule: exec_timeout.cases)
    (auto simp: shutdown_return_def dest!: locked_kernel intro!: conn_fds_same split: if_splits)

lemma deliver_conn_fds: "exec_deliver pc c = Some (es, c') \<Longrightarrow> conn_fds live c c'"
  by (cases pc) (auto simp: deliver_lock_def deliver_drain_def intro!: conn_fds_same split: list.splits if_splits)

lemma exec_conn_fds:
  assumes "exec p lib a c = Some (es, c')"
  shows "conn_fds live c c'"
proof (cases a)
  case (A_call u op)
  with assms locked_kernel(3) [of u op c es c'] show ?thesis by (simp add: conn_fds_same split: if_splits)
next
  case A_spurious
  with assms show ?thesis by (auto simp: spurious_def intro!: conn_fds_same)
qed (use assms reader_conn_fds writer_conn_fds deliver_conn_fds user_conn_fds timeout_conn_fds in simp_all)

text \<open>A step of a callback keeps the worker's descriptor or closes it.\<close>

lemma callback_fds:
  assumes "callback_step p lib a w k = Some (es, w', k')"
  shows "worker_fds w' = worker_fds w \<and> live k' = live k \<or>
    (\<exists>fd. worker_fds w = {#fd#} \<and> worker_fds w' = {#} \<and> live k' = live k - {fd})"
proof -
  from assms obtain sock c es1 c1 where w: "w = Wk_connected sock c" and e: "exec p lib a (c\<lparr>c_kernel := k\<rparr>) = Some (es1, c1)"
    and r: "w' = Wk_exit \<and> k' = TcpSocket_destroy p (c_sock c1) (c_kernel c1) \<or> w' = Wk_connected sock c1 \<and> k' = c_kernel c1"
    by (cases w) (auto split: if_splits option.splits)
  note d = exec_conn_fds [OF e, unfolded conn_fds_def, simplified]
  from r show ?thesis
  proof (elim disjE conjE)
    assume "w' = Wk_exit" "k' = TcpSocket_destroy p (c_sock c1) (c_kernel c1)"
    with d w show ?thesis by (elim disjE conjE) (simp_all add: TcpSocket_destroy_def TcpSocket_close_def)
  next
    assume "w' = Wk_connected sock c1" "k' = c_kernel c1"
    with d w show ?thesis by (elim disjE conjE) simp_all
  qed
qed

lemma accept_fds:
  assumes "TcpListener_accept p ln k = (r, k')"
  shows "case r of Inl ec \<Rightarrow> live k' = live k
    | Inr sock \<Rightarrow> sock_fd sock \<notin> live k \<and> sock_fd sock \<noteq> kInvalidSocket \<and> live k' = insert (sock_fd sock) (live k)"
  using assms
  by (auto simp: TcpListener_accept_def kInvalidSocket_def split: if_splits prod.splits dest: accept_ok accept_err)

lemma serve_step_fds:
  assumes inv: "fds_inv live base s" and step: "serve_step p (sv_serve s) s = Some (es, s')"
  shows "fds_inv live base s'"
proof (cases "sv_serve s")
  case (S_accept ln)
  have b: "\<not> TcpListener_accept_blocks p ln (sv_kernel s)" using step S_accept by auto
  obtain r k' where r: "TcpListener_accept p ln (sv_kernel s) = (r, k')" by fastforce
  show ?thesis
  proof (cases r)
    case (Inl ec)
    with step r S_accept b have "s' = s\<lparr>sv_kernel := k', sv_serve := S_failed ec\<rparr>" by simp
    with Inl S_accept accept_fds [OF r] show ?thesis
      by (intro fds_same [OF inv]) (simp_all add: owned_fds_def)
  next
    case (Inr sock)
    with step r S_accept b have "s' = s\<lparr>sv_kernel := k', sv_serve := S_accepted sock\<rparr>" by simp
    with Inr S_accept accept_fds [OF r] show ?thesis
      by (intro fds_gain [OF inv, where fd = "sock_fd sock"]) (simp_all add: owned_fds_def)
  qed
next
  case (S_join ec)
  with step have w: "\<forall>w \<in> set (sv_workers s). w = Wk_exit" and s': "s' = s\<lparr>sv_workers := [], sv_serve := S_ret ec\<rparr>"
    by (simp_all add: workers_done_iff split: if_splits)
  with tally_exit [of "sv_workers s" Wk_exit worker_fds] S_join show ?thesis
    by (intro fds_same [OF inv]) (simp_all add: owned_fds_def)
qed (use step in \<open>auto intro!: fds_same [OF inv] simp: owned_fds_def\<close>)

lemma on_worker_fds:
  assumes inv: "fds_inv live base s" and step: "on_worker i f s = Some (es, s')"
    and f: "\<And>es w k. f (sv_workers s ! i) (sv_kernel s) = Some (es, w, k) \<Longrightarrow> i < length (sv_workers s) \<Longrightarrow>
      worker_fds w = worker_fds (sv_workers s ! i) \<and> live k = live (sv_kernel s) \<or>
      (\<exists>fd. worker_fds (sv_workers s ! i) = {#fd#} \<and> worker_fds w = {#} \<and> live k = live (sv_kernel s) - {fd})"
  shows "fds_inv live base s'"
proof -
  from step obtain w k where i: "i < length (sv_workers s)"
    and w: "f (sv_workers s ! i) (sv_kernel s) = Some (es, w, k)"
    and s': "s' = s\<lparr>sv_workers := (sv_workers s)[i := w], sv_kernel := k\<rparr>"
    by (auto simp: on_worker_def split: if_splits)
  have own: "owned_fds s' + worker_fds (sv_workers s ! i) = owned_fds s + worker_fds w"
    using tally_update [OF i, of worker_fds w] by (simp add: s' owned_fds_def ac_simps)
  from f [OF w i] show ?thesis
  proof (elim disjE exE conjE)
    assume "worker_fds w = worker_fds (sv_workers s ! i)" "live k = live (sv_kernel s)"
    with own show ?thesis by (intro fds_same [OF inv]) (simp_all add: s')
  next
    fix fd
    assume "worker_fds (sv_workers s ! i) = {#fd#}" "worker_fds w = {#}" "live k = live (sv_kernel s) - {fd}"
    with own show ?thesis by (intro fds_lose [OF inv, where fd = fd]) (simp_all add: s')
  qed
qed

lemma handshake_fds:
  assumes inv: "fds_inv live base s" and i: "i < length (sv_workers s)"
    and step: "worker_step p lib cfg ent g (sv_workers s ! i) (sv_kernel s) = Some (es, w, k)"
  shows "worker_fds w = worker_fds (sv_workers s ! i) \<and> live k = live (sv_kernel s) \<or>
    (\<exists>fd. worker_fds (sv_workers s ! i) = {#fd#} \<and> worker_fds w = {#} \<and> live k = live (sv_kernel s) - {fd})"
proof -
  from step obtain sock where w: "sv_workers s ! i = Wk_start sock" by (cases "sv_workers s ! i") auto
  obtain r k' where r: "serve_conn_for p lib (Some sock) (Some cfg) ent g (sv_kernel s) = (r, k')" by fastforce
  have "sock_fd sock \<in># owned_fds s"
    using w tally_mem [OF nth_mem [OF i], of worker_fds] by (simp add: owned_fds_def)
  with inv have "sock_fd sock \<noteq> kInvalidSocket" by (auto simp: fds_inv_def)
  with serve_conn_fds [OF r this] step r w show ?thesis by (cases r) auto
qed

lemma close_fds_inv:
  assumes inv: "fds_inv live base s"
  shows "fds_inv live base (Server_close p s) \<and> (Server_close_ln p s = Some s' \<longrightarrow> fds_inv live base s')"
proof (cases "ln_fd (sv_ln s) = kInvalidSocket")
  case True
  then show ?thesis
    by (auto intro!: fds_same [OF inv] simp: Server_close_def Server_close_ln_def TcpListener_close_def owned_fds_def
        listener_fds_def split: if_splits)
next
  case False
  then show ?thesis
    by (auto intro!: fds_lose [OF inv, where fd = "ln_fd (sv_ln s)"]
        simp: Server_close_def Server_close_ln_def TcpListener_close_def owned_fds_def listener_fds_def split: if_splits)
qed

lemma exec_fds:
  assumes "fds_inv live base s" and "server_exec p lib a s = Some (es, s')"
  shows "fds_inv live base s'"
proof (cases a)
  case (Sv_serve b)
  with assms show ?thesis
    by (auto intro!: fds_same [OF assms(1)] simp: Server_serve_def owned_fds_def split: if_splits)
next
  case Sv_step
  with assms serve_step_fds show ?thesis by simp
next
  case (Sv_worker i ent g)
  with assms(2) on_worker_fds [OF assms(1) _ handshake_fds [OF assms(1)]] show ?thesis by simp
next
  case (Sv_conn i b)
  with assms(2) on_worker_fds [OF assms(1) _ callback_fds] show ?thesis by simp
next
  case Sv_stop
  with assms show ?thesis by (auto intro!: fds_same [OF assms(1)] simp: Server_close_flag_def owned_fds_def)
next
  case Sv_close
  with assms close_fds_inv [OF assms(1)] show ?thesis by auto
qed

lemma listen_inv:
  assumes "Server_listen p network addr cfg k = (Inr s, k')"
  shows "fds_inv live (live k) s \<and> sv_kernel s = k'"
proof -
  obtain ln where l: "TcpListener_listen p addr k = (Inr ln, k')" and s: "s = Server_init ln (case cfg of Some c \<Rightarrow> c | None \<Rightarrow> default_config) k'"
    using assms by (auto simp: Server_listen_def split: if_splits prod.splits sum.splits)
  have "ln_fd ln \<noteq> kInvalidSocket"
    using l by (auto simp: TcpListener_listen_def Let_def split: prod.splits option.splits if_splits)
  with listen_fds_balance [OF l] s show ?thesis
    by (auto simp: fds_inv_def owned_fds_def listener_fds_def Server_init_def)
qed

end

section \<open>Who is served\<close>

text \<open>Sockets accepted, connected, rejected and finished, by the events; waiting and in the callback, by the state.\<close>

fun ev_accepted :: "server_event \<Rightarrow> tcp_socket multiset" where
  "ev_accepted (Ev_accept sock) = {#sock#}" | "ev_accepted _ = {#}"

fun ev_connected :: "server_event \<Rightarrow> tcp_socket multiset" where
  "ev_connected (Ev_connect sock) = {#sock#}" | "ev_connected _ = {#}"

fun ev_rejected :: "server_event \<Rightarrow> tcp_socket multiset" where
  "ev_rejected (Ev_reject sock ec) = {#sock#}" | "ev_rejected _ = {#}"

fun ev_finished :: "server_event \<Rightarrow> tcp_socket multiset" where
  "ev_finished (Ev_done sock) = {#sock#}" | "ev_finished _ = {#}"

fun worker_waiting :: "('k, 'r, 'cb) worker \<Rightarrow> tcp_socket multiset" where
  "worker_waiting (Wk_start sock) = {#sock#}" | "worker_waiting _ = {#}"

fun worker_serving :: "('k, 'r, 'cb) worker \<Rightarrow> tcp_socket multiset" where
  "worker_serving (Wk_connected sock c) = {#sock#}" | "worker_serving _ = {#}"

fun pc_waiting :: "serve_pc \<Rightarrow> tcp_socket multiset" where
  "pc_waiting (S_accepted sock) = {#sock#}" | "pc_waiting _ = {#}"

definition socks_inv :: "server_event list \<Rightarrow> ('k, 'r, 'cb) server \<Rightarrow> bool" where
  "socks_inv es s \<longleftrightarrow>
     tally ev_accepted es = tally ev_connected es + tally ev_rejected es +
       pc_waiting (sv_serve s) + tally worker_waiting (sv_workers s) \<and>
     tally ev_connected es = tally ev_finished es + tally worker_serving (sv_workers s)"

text \<open>The error codes \<open>serve\<close> can hold: those of a stopped server, and what \<open>accept\<close> reports otherwise.\<close>

definition stop_code :: "('k, 'a) posix \<Rightarrow> bool \<Rightarrow> error_code \<Rightarrow> bool" where
  "stop_code p stopping ec \<longleftrightarrow>
     stopping \<and> ec \<in> {NoError, DuplexEc errc_canceled} \<or> (\<exists>k. ec = last_socket_error p k)"

fun pc_inv :: "('k, 'a) posix \<Rightarrow> bool \<Rightarrow> bool \<Rightarrow> serve_pc \<Rightarrow> bool" where
  "pc_inv p stopping idle S_none \<longleftrightarrow> idle"
| "pc_inv p stopping idle (S_loop ec) \<longleftrightarrow> ec = NoError"
| "pc_inv p stopping idle (S_accept ln) \<longleftrightarrow> ln_fd ln \<noteq> kInvalidSocket"
| "pc_inv p stopping idle (S_accepted sock) \<longleftrightarrow> True"
| "pc_inv p stopping idle (S_failed ec) \<longleftrightarrow> (\<exists>k. ec = last_socket_error p k)"
| "pc_inv p stopping idle (S_join ec) \<longleftrightarrow> stop_code p stopping ec"
| "pc_inv p stopping idle (S_ret ec) \<longleftrightarrow> idle \<and> (stop_code p stopping ec \<or> ec = DuplexEc errc_other)"

definition server_inv :: "('k, 'a) posix \<Rightarrow> server_event list \<Rightarrow> ('k, 'r, 'cb) server \<Rightarrow> bool" where
  "server_inv p es s \<longleftrightarrow> socks_inv es s \<and> pc_inv p (sv_stopping s) (sv_workers s = []) (sv_serve s) \<and>
     (ln_fd (sv_ln s) = kInvalidSocket \<longrightarrow> sv_stopping s) \<and> (0 < sv_closing s \<longrightarrow> sv_stopping s)"

lemma server_inv_init: "ln_fd ln \<noteq> kInvalidSocket \<Longrightarrow> server_inv p [] (Server_init ln cfg k)"
  by (simp add: server_inv_def socks_inv_def Server_init_def)

lemma pc_inv_stop: "pc_inv p stopping idle pc \<Longrightarrow> pc_inv p True idle pc"
  by (cases pc) (auto simp: stop_code_def)

lemma serve_step_inv:
  assumes inv: "server_inv p es s" and step: "serve_step p (sv_serve s) s = Some (es', s')"
  shows "server_inv p (es @ es') s'"
proof (cases "sv_serve s")
  case (S_accept ln)
  have ln: "ln_fd ln \<noteq> kInvalidSocket" using inv S_accept by (simp add: server_inv_def)
  have b: "\<not> TcpListener_accept_blocks p ln (sv_kernel s)" using step S_accept by auto
  obtain r k' where r: "TcpListener_accept p ln (sv_kernel s) = (r, k')" by fastforce
  show ?thesis
  proof (cases r)
    case (Inl ec)
    with r ln have "\<exists>k. ec = last_socket_error p k"
      by (auto simp: TcpListener_accept_def split: if_splits prod.splits)
    with Inl inv step r S_accept b show ?thesis by (auto simp: server_inv_def socks_inv_def)
  next
    case (Inr sock)
    with inv step r S_accept b show ?thesis by (auto simp: server_inv_def socks_inv_def)
  qed
next
  case (S_join ec)
  with step have "\<forall>w \<in> set (sv_workers s). w = Wk_exit" and "es' = [Ev_return ec]"
    and "s' = s\<lparr>sv_workers := [], sv_serve := S_ret ec\<rparr>"
    by (simp_all add: workers_done_iff split: if_splits)
  with inv S_join tally_exit [of "sv_workers s" Wk_exit worker_waiting]
    tally_exit [of "sv_workers s" Wk_exit worker_serving]
  show ?thesis by (simp add: server_inv_def socks_inv_def)
qed (use inv step in \<open>auto simp: server_inv_def socks_inv_def stop_code_def\<close>)

text \<open>What a step of a worker has to add up to.\<close>

definition tallies ::
  "server_event list \<Rightarrow> ('k, 'r, 'cb) worker \<Rightarrow> ('k, 'r, 'cb) worker \<Rightarrow> bool" where
  "tallies es w w' \<longleftrightarrow> tally ev_accepted es = {#} \<and>
     worker_waiting w = tally ev_connected es + tally ev_rejected es + worker_waiting w' \<and>
     tally ev_connected es + worker_serving w = tally ev_finished es + worker_serving w'"

lemma worker_step_tallies: "worker_step p lib cfg ent g w k = Some (es, w', k') \<Longrightarrow> tallies es w w'"
  by (cases w) (auto simp: tallies_def split: prod.splits sum.splits)

lemma callback_step_tallies: "callback_step p lib a w k = Some (es, w', k') \<Longrightarrow> tallies es w w'"
  by (cases w) (auto simp: tallies_def split: if_splits option.splits)

lemma on_worker_inv:
  assumes inv: "server_inv p es s" and step: "on_worker i f s = Some (es', s')"
    and f: "\<And>es w k. f (sv_workers s ! i) (sv_kernel s) = Some (es, w, k) \<Longrightarrow> tallies es (sv_workers s ! i) w"
  shows "server_inv p (es @ es') s'"
proof -
  from step obtain w k where i: "i < length (sv_workers s)"
    and w: "f (sv_workers s ! i) (sv_kernel s) = Some (es', w, k)"
    and s': "s' = s\<lparr>sv_workers := (sv_workers s)[i := w], sv_kernel := k\<rparr>"
    by (auto simp: on_worker_def split: if_splits)
  note x = f [OF w, unfolded tallies_def]
  have "tally worker_waiting (sv_workers s) =
      tally worker_waiting ((sv_workers s)[i := w]) + (tally ev_connected es' + tally ev_rejected es')"
    using tally_update [OF i, of worker_waiting w] x by (simp add: ac_simps)
  moreover have "tally worker_serving (sv_workers s) + tally ev_connected es' =
      tally worker_serving ((sv_workers s)[i := w]) + tally ev_finished es'"
    using multiset_swap [OF _ tally_update [OF i, of worker_serving w]] x by blast
  ultimately show ?thesis using inv i x by (auto simp: s' server_inv_def socks_inv_def ac_simps)
qed

lemma exec_inv:
  assumes "server_inv p es s" and "server_exec p lib a s = Some (es', s')"
  shows "server_inv p (es @ es') s'"
proof (cases a)
  case (Sv_serve b)
  with assms show ?thesis by (auto simp: Server_serve_def server_inv_def socks_inv_def split: if_splits)
next
  case Sv_step
  with assms serve_step_inv show ?thesis by simp
next
  case (Sv_worker i ent g)
  with assms(2) show ?thesis by (auto intro: on_worker_inv [OF assms(1)] worker_step_tallies)
next
  case (Sv_conn i a)
  with assms(2) show ?thesis by (auto intro: on_worker_inv [OF assms(1)] callback_step_tallies)
next
  case Sv_stop
  with assms pc_inv_stop show ?thesis by (auto simp: Server_close_flag_def server_inv_def socks_inv_def)
next
  case Sv_close
  with assms show ?thesis by (auto simp: Server_close_ln_def server_inv_def socks_inv_def split: if_splits prod.splits)
qed

section \<open>Stopping\<close>

text \<open>How many steps the accept loop and the handshakes of a stopped server have left.\<close>

fun pc_weight :: "serve_pc \<Rightarrow> nat" where
  "pc_weight (S_accept ln) = 5"
| "pc_weight (S_accepted sock) = 4"
| "pc_weight (S_loop ec) = 2"
| "pc_weight (S_failed ec) = 2"
| "pc_weight (S_join ec) = 1"
| "pc_weight _ = 0"

fun worker_weight :: "('k, 'r, 'cb) worker \<Rightarrow> nat" where
  "worker_weight (Wk_start sock) = 1" | "worker_weight _ = 0"

definition server_weight :: "('k, 'r, 'cb) server \<Rightarrow> nat" where
  "server_weight s = pc_weight (sv_serve s) + sum_list (map worker_weight (sv_workers s))"

fun is_work :: "'r server_act \<Rightarrow> bool" where
  "is_work Sv_step \<longleftrightarrow> True" | "is_work (Sv_worker i ent g) \<longleftrightarrow> True" | "is_work _ \<longleftrightarrow> False"

definition stopping_run :: "('k, 'r, 'cb) server \<Rightarrow> bool" where
  "stopping_run s \<longleftrightarrow> sv_stopping s \<and> sv_serve s \<noteq> S_none"

text \<open>The two reasons to wait: \<open>accept\<close> does not return, or a callback has not returned.\<close>

definition in_accept :: "('k, 'a) posix \<Rightarrow> ('k, 'r, 'cb) server \<Rightarrow> bool" where
  "in_accept p s \<longleftrightarrow>
    (case sv_serve s of S_accept ln \<Rightarrow> TcpListener_accept_blocks p ln (sv_kernel s) | _ \<Rightarrow> False)"

definition in_callback :: "('k, 'r, 'cb) server \<Rightarrow> bool" where
  "in_callback s \<longleftrightarrow> list_ex (\<lambda>w. case w of Wk_connected sock c \<Rightarrow> True | _ \<Rightarrow> False) (sv_workers s)"

lemma update_weight:
  "i < length ws \<Longrightarrow> sum_list (map worker_weight (ws[i := w])) + worker_weight (ws ! i) =
     sum_list (map worker_weight ws) + worker_weight w"
  by (induction ws arbitrary: i) (auto simp: nth_Cons split: nat.splits)

lemma workers_weight_bound: "sum_list (map worker_weight ws) \<le> length ws"
proof (induction ws)
  case (Cons w ws)
  then show ?case by (cases w) simp_all
qed simp

lemma server_weight_bound: "server_weight s \<le> 5 + length (sv_workers s)"
  using workers_weight_bound [of "sv_workers s"] by (cases "sv_serve s") (simp_all add: server_weight_def)

lemma worker_step_weight:
  "worker_step p lib cfg ent g w k = Some (es, w', k') \<Longrightarrow> Suc (worker_weight w') \<le> worker_weight w"
  by (cases w) (auto split: prod.splits sum.splits)

lemma callback_step_weight: "callback_step p lib a w k = Some (es, w', k') \<Longrightarrow> 0 + worker_weight w' \<le> worker_weight w"
  by (cases w) (auto split: if_splits option.splits)

lemma on_worker_weight:
  assumes "on_worker i f s = Some (es, s')"
    and f: "\<And>es w k. f (sv_workers s ! i) (sv_kernel s) = Some (es, w, k) \<Longrightarrow> n + worker_weight w \<le> worker_weight (sv_workers s ! i)"
  shows "sv_stopping s' = sv_stopping s \<and> sv_serve s' = sv_serve s \<and> n + server_weight s' \<le> server_weight s"
proof -
  from assms(1) obtain w k where i: "i < length (sv_workers s)"
    and w: "f (sv_workers s ! i) (sv_kernel s) = Some (es, w, k)"
    and s': "s' = s\<lparr>sv_workers := (sv_workers s)[i := w], sv_kernel := k\<rparr>"
    by (auto simp: on_worker_def split: if_splits)
  from update_weight [OF i, of w] f [OF w] show ?thesis by (simp add: s' server_weight_def)
qed

lemma exec_weight:
  assumes "stopping_run s" and "server_exec p lib a s = Some (es, s')"
  shows "stopping_run s' \<and> (if is_work a then 1 else 0) + server_weight s' \<le> server_weight s"
proof (cases a)
  case Sv_step
  with assms show ?thesis
    by (cases "sv_serve s") (auto simp: stopping_run_def server_weight_def split: prod.splits sum.splits if_splits)
next
  case (Sv_worker i ent g)
  with assms on_worker_weight [of i "worker_step p lib (sv_cfg s) ent g" s es s' 1] worker_step_weight
  show ?thesis by (fastforce simp: stopping_run_def)
next
  case (Sv_conn i b)
  with assms on_worker_weight [of i "callback_step p lib b" s es s' 0] callback_step_weight
  show ?thesis by (fastforce simp: stopping_run_def)
qed (use assms in \<open>auto simp: Server_serve_def stopping_run_def server_weight_def Server_close_flag_def Server_close_ln_def
    split: if_splits prod.splits\<close>)

lemma run_weight:
  assumes "stopping_run s" and "server_run p lib as s = Some (es, s')"
  shows "stopping_run s' \<and> length (filter is_work as) + server_weight s' \<le> server_weight s"
  using assms
proof (induction as arbitrary: s es)
  case (Cons a as)
  from Cons.prems(2) obtain es1 s1 es2 where a: "server_exec p lib a s = Some (es1, s1)"
    and r: "server_run p lib as s1 = Some (es2, s')" by (auto simp: bind_eq_Some_conv)
  from exec_weight [OF Cons.prems(1) a] Cons.IH [OF _ r] show ?case by (auto split: if_splits)
qed simp

lemma stopping_enabled:
  assumes "stopping_run s" and "\<nexists>ec. sv_serve s = S_ret ec" and "\<not> in_accept p s" and "\<not> in_callback s"
  shows "\<exists>a. is_work a \<and> server_exec p lib a s \<noteq> None"
proof (cases "server_exec p lib Sv_step s")
  case None
  with assms obtain ec where "sv_serve s = S_join ec"
    by (cases "sv_serve s") (auto simp: stopping_run_def in_accept_def split: prod.splits sum.splits if_splits)
  with None obtain i where i: "i < length (sv_workers s)" "sv_workers s ! i \<noteq> Wk_exit"
    by (auto simp: workers_done_iff in_set_conv_nth split: if_splits)
  with assms(4) obtain sock where "sv_workers s ! i = Wk_start sock"
    by (cases "sv_workers s ! i") (auto simp: in_callback_def list_ex_iff dest!: bspec [OF _ nth_mem [OF i(1)]])
  with i have "server_exec p lib (Sv_worker i ent g) s \<noteq> None" for ent g
    by (auto simp: on_worker_def split: prod.splits sum.splits)
  then show ?thesis by (intro exI [of _ "Sv_worker i undefined undefined"]) simp
next
  case (Some a)
  then show ?thesis by (intro exI [of _ Sv_step]) simp
qed

text \<open>So the accept loop and the handshakes alone bring \<open>serve\<close> to its end, or to one of the two waits.\<close>

lemma stopping_ends:
  assumes "stopping_run s"
  shows "\<exists>as es s'. list_all is_work as \<and> server_run p lib as s = Some (es, s') \<and>
    ((\<exists>ec. sv_serve s' = S_ret ec) \<or> in_accept p s' \<or> in_callback s')"
  using assms
proof (induction "server_weight s" arbitrary: s rule: less_induct)
  case less
  show ?case
  proof (cases "(\<exists>ec. sv_serve s = S_ret ec) \<or> in_accept p s \<or> in_callback s")
    case True
    then show ?thesis by (intro exI [of _ "[]"]) auto
  next
    case False
    with stopping_enabled [OF less.prems] obtain a es1 s1 where
      a: "is_work a" "server_exec p lib a s = Some (es1, s1)" by (metis (no_types, lifting) not_None_eq surj_pair)
    with exec_weight [OF less.prems a(2)] less.hyps [of s1] obtain as es s' where
      "list_all is_work as" "server_run p lib as s1 = Some (es, s')"
      "(\<exists>ec. sv_serve s' = S_ret ec) \<or> in_accept p s' \<or> in_callback s'" by auto
    with a show ?thesis by (intro exI [of _ "a # as"] exI [of _ "es1 @ es"] exI [of _ s']) auto
  qed
qed

lemma listen_server_inv: "Server_listen p network addr cfg k = (Inr s, k') \<Longrightarrow> server_inv p [] s"
  by (auto simp: Server_listen_def TcpListener_listen_def Let_def intro!: server_inv_init
      split: if_splits prod.splits sum.splits option.splits)

lemma run_server_inv:
  "Server_listen p network addr cfg k = (Inr s0, k') \<Longrightarrow> server_run p lib as s0 = Some (es, s) \<Longrightarrow> server_inv p es s"
  using server_run_induct [where P = "server_inv p"] listen_server_inv exec_inv by metis

context posix_fds
begin

lemma run_fds:
  "Server_listen p network addr cfg k = (Inr s0, k') \<Longrightarrow> server_run p lib as s0 = Some (es, s) \<Longrightarrow> fds_inv live (live k) s"
  using server_run_induct [where P = "\<lambda>_. fds_inv live (live k)"] listen_inv exec_fds by metis

lemma destroy_fds:
  assumes "fds_inv live base s" and "sv_workers s = []" and "pc_fds (sv_serve s) = {#}"
  shows "\<exists>s'. Server_destroy p s = Some s' \<and> live (sv_kernel s') = base"
proof -
  define s' where "s' = Server_close p (Server_stop p s)"
  have "sv_workers s' = []" "sv_serve s' = sv_serve s" "ln_fd (sv_ln s') = kInvalidSocket"
    by (simp_all add: s'_def Server_stop_def Server_close_def TcpListener_close_def assms(2))
  moreover have "fds_inv live base s'"
    unfolding s'_def Server_stop_def using close_fds_inv assms(1) by blast
  ultimately show ?thesis
    using assms(3) by (auto simp: Server_destroy_def Let_def s'_def [symmetric] workers_done_iff fds_inv_def owned_fds_def listener_fds_def)
qed

end

section \<open>A server that serves two peers\<close>

text \<open>
  The first peer completes the handshake, the second hangs up; then the server is stopped, and the
  callback of the first returns at once: its connection is destroyed while it is being joined.
\<close>

definition sv_demo_kernel :: script_kernel where
  "sv_demo_kernel = \<lparr>rx_segments = [[84, 68, 88, 49, 0, 1] @ replicate 32 3], tx_log = [], tx_limits = [],
     fd_table = {3}, next_fd = 7\<rparr>"

definition sv_demo_acts where
  "sv_demo_acts = [Sv_serve True, Sv_step, Sv_step, Sv_step, Sv_step, Sv_worker 0 9 demo_rng, Sv_step, Sv_step,
     Sv_worker 1 5 demo_rng, Sv_stop, Sv_step, Sv_close, Sv_conn 0 (A_call 0 Call_destroy)] @
     map (Sv_conn 0) ([A_user 0, A_user 0] @ replicate 5 A_writer @ replicate 4 A_reader @ replicate 5 (A_user 0)) @
     [Sv_step]"

definition sv_demo_summary where
  "sv_demo_summary s = (sv_serve s, sv_stopping s, ln_fd (sv_ln s), length (sv_workers s), fd_table (sv_kernel s))"

lemma sv_demo_run:
  "(case Server_listen script_posix ''tcp'' '':80'' (None :: unit Config option) sv_demo_kernel of
      (Inl ec, k) \<Rightarrow> None
    | (Inr s, k) \<Rightarrow> map_option (map_prod id sv_demo_summary) (server_run script_posix demo_lib sv_demo_acts s)) =
   Some ([Ev_accept \<lparr>sock_fd = 8\<rparr>, Ev_connect \<lparr>sock_fd = 8\<rparr>, Ev_accept \<lparr>sock_fd = 9\<rparr>,
      Ev_reject \<lparr>sock_fd = 9\<rparr> (DuplexEc errc_closed), Ev_done \<lparr>sock_fd = 8\<rparr>, Ev_return NoError],
     (S_ret NoError, True, -1, 0, {3}))"
  by code_simp

text \<open>The state after the first \<open>n\<close> steps of the demonstration.\<close>

lemma sv_demo_stopped:
  "(case Server_listen script_posix ''tcp'' '':80'' (None :: unit Config option) sv_demo_kernel of
      (Inl ec, k) \<Rightarrow> None
    | (Inr s, k) \<Rightarrow> Option.bind (server_run script_posix demo_lib (take 10 sv_demo_acts) s)
        (\<lambda>(es, s). map_option (\<lambda>(es', s'). (sv_demo_summary s, server_weight s, sv_demo_summary s'))
          (server_run script_posix demo_lib (drop 10 sv_demo_acts) s))) =
   Some ((S_loop NoError, True, 7, 2, {3, 7, 8}), 2, (S_ret NoError, True, -1, 0, {3}))"
  by code_simp

section \<open>Properties\<close>

text \<open>
  C11. A server never leaks or doubly closes a descriptor: under every interleaving of the accept loop, the
  workers, the connections they serve with all their threads and callers, and \<open>stop\<close>, the descriptors open
  beyond those of the rest of the process are exactly the listener (until it is closed), the socket just
  accepted, and the socket of each live worker (until its connection has closed it), each owned once. When
  \<open>serve\<close> has returned, destroying the server does not wait and leaves exactly the descriptors open before
  \<open>listen\<close>. Nothing is assumed of the callbacks.
\<close>

theorem server_no_fd_leak:
  assumes "posix_fds p live"
    and "Server_listen p network addr cfg k0 = (Inr s0, k1)" and "server_run p lib as s0 = Some (es, s)"
  shows "(\<forall>fd. count (owned_fds s) fd \<le> 1) \<and> set_mset (owned_fds s) \<inter> live k0 = {} \<and>
    live (sv_kernel s) = live k0 \<union> set_mset (owned_fds s) \<and>
    (sv_serve s = S_ret ec \<longrightarrow> (\<exists>s'. Server_destroy p s = Some s' \<and> live (sv_kernel s') = live k0))"
proof -
  note inv = posix_fds.run_fds [OF assms]
  have "sv_serve s = S_ret ec \<Longrightarrow> sv_workers s = []" using run_server_inv [OF assms(2,3)] by (simp add: server_inv_def)
  with inv posix_fds.destroy_fds [OF assms(1) inv] show ?thesis by (auto simp: fds_inv_def)
qed

theorem server_no_fd_leak_witness:
  "\<exists>s0 k1 es s s'. Server_listen script_posix ''tcp'' '':80'' (None :: unit Config option) sv_demo_kernel = (Inr s0, k1) \<and>
     server_run script_posix demo_lib sv_demo_acts s0 = Some (es, s) \<and>
     Server_destroy script_posix s = Some s' \<and> fd_table (sv_kernel s') = {3}"
proof -
  obtain s0 k1 es s where l: "Server_listen script_posix ''tcp'' '':80'' (None :: unit Config option) sv_demo_kernel = (Inr s0, k1)"
    and r: "server_run script_posix demo_lib sv_demo_acts s0 = Some (es, s)" and "sv_serve s = S_ret NoError"
    using sv_demo_run by (auto simp: sv_demo_summary_def split: prod.splits sum.splits)
  moreover have "fd_table sv_demo_kernel = {3}" by (simp add: sv_demo_kernel_def)
  ultimately show ?thesis
    using server_no_fd_leak [OF script.posix_fds_axioms l r, of NoError] by auto
qed

text \<open>
  C13. Every accepted peer is served exactly once, and \<open>serve\<close> returns only when nobody is left: at any
  moment the accepted sockets are those whose handshake succeeded or failed and those still waiting for
  one, and the connected ones are those whose callback has returned or is running. On return no worker is
  left, and \<open>ec\<close> is clear or \<open>canceled\<close> only if the server was stopped; otherwise it is the error \<open>accept\<close>
  reported, or \<open>other\<close> for a missing callback.
\<close>

theorem server_serves_each_once:
  assumes "Server_listen p network addr cfg k0 = (Inr s0, k1)" and "server_run p lib as s0 = Some (es, s)"
  shows "tally ev_accepted es = tally ev_connected es + tally ev_rejected es +
      pc_waiting (sv_serve s) + tally worker_waiting (sv_workers s) \<and>
    tally ev_connected es = tally ev_finished es + tally worker_serving (sv_workers s) \<and>
    (sv_serve s = S_ret ec \<longrightarrow> sv_workers s = [] \<and>
       tally ev_accepted es = tally ev_connected es + tally ev_rejected es \<and> tally ev_connected es = tally ev_finished es \<and>
       (sv_stopping s \<and> ec \<in> {NoError, DuplexEc errc_canceled} \<or> (\<exists>k. ec = last_socket_error p k) \<or> ec = DuplexEc errc_other))"
  using run_server_inv [OF assms] by (auto simp: server_inv_def socks_inv_def stop_code_def)

theorem server_serves_each_once_witness:
  "\<exists>s0 k1 es s. Server_listen script_posix ''tcp'' '':80'' (None :: unit Config option) sv_demo_kernel = (Inr s0, k1) \<and>
     server_run script_posix demo_lib sv_demo_acts s0 = Some (es, s) \<and>
     sv_workers s = [] \<and> tally ev_accepted es = {#\<lparr>sock_fd = 8\<rparr>, \<lparr>sock_fd = 9\<rparr>#} \<and>
     tally ev_accepted es = tally ev_connected es + tally ev_rejected es \<and> tally ev_connected es = tally ev_finished es"
proof -
  obtain s0 k1 es s where l: "Server_listen script_posix ''tcp'' '':80'' (None :: unit Config option) sv_demo_kernel = (Inr s0, k1)"
    and r: "server_run script_posix demo_lib sv_demo_acts s0 = Some (es, s)" and ret: "sv_serve s = S_ret NoError"
    and es: "es = [Ev_accept \<lparr>sock_fd = 8\<rparr>, Ev_connect \<lparr>sock_fd = 8\<rparr>, Ev_accept \<lparr>sock_fd = 9\<rparr>,
      Ev_reject \<lparr>sock_fd = 9\<rparr> (DuplexEc errc_closed), Ev_done \<lparr>sock_fd = 8\<rparr>, Ev_return NoError]"
    using sv_demo_run by (auto simp: sv_demo_summary_def split: prod.splits sum.splits)
  from server_serves_each_once [OF l r, of NoError] ret have "sv_workers s = []"
    "tally ev_accepted es = tally ev_connected es + tally ev_rejected es" "tally ev_connected es = tally ev_finished es" by auto
  moreover have "tally ev_accepted es = {#\<lparr>sock_fd = 8\<rparr>, \<lparr>sock_fd = 9\<rparr>#}" by (simp add: es)
  ultimately show ?thesis using l r by blast
qed

text \<open>
  C16. A stopped server ends, as far as it depends on its own threads. Once the stop flag is set while
  \<open>serve\<close> runs, the accept loop and the handshakes (each of which is a step, as it has a deadline) take
  together at most five further steps and one per worker, in any schedule, whatever callbacks and other
  callers do in between; and from every state reached they can be continued to the return of \<open>serve\<close>, or to
  one of two waits: \<open>accept\<close> has not returned, which closing the listener need not change, or a callback
  has not returned.
\<close>

theorem server_stop_terminates:
  assumes "sv_stopping s" and "sv_serve s \<noteq> S_none" and "server_run p lib as s = Some (es, s')"
  shows "length (filter is_work as) \<le> 5 + length (sv_workers s) \<and>
    (\<exists>as' es' s''. list_all is_work as' \<and> server_run p lib as' s' = Some (es', s'') \<and>
       ((\<exists>ec. sv_serve s'' = S_ret ec) \<or> in_accept p s'' \<or> in_callback s''))"
proof -
  have st: "stopping_run s" using assms by (simp add: stopping_run_def)
  from run_weight [OF st assms(3)] stopping_ends [of s' p lib] server_weight_bound [of s] show ?thesis by auto
qed

theorem server_stop_terminates_witness:
  "\<exists>(s :: (script_kernel, nat, unit) server) es s'. sv_stopping s \<and> sv_serve s = S_loop NoError \<and>
     server_run script_posix demo_lib (drop 10 sv_demo_acts) s = Some (es, s') \<and> sv_serve s' = S_ret NoError \<and>
     length (filter is_work (drop 10 sv_demo_acts)) \<le> 5 + length (sv_workers s)"
proof -
  obtain s :: "(script_kernel, nat, unit) server" and es s' where "sv_stopping s" "sv_serve s = S_loop NoError" and r:
    "server_run script_posix demo_lib (drop 10 sv_demo_acts) s = Some (es, s')" and "sv_serve s' = S_ret NoError"
    using sv_demo_stopped by (auto simp: sv_demo_summary_def bind_eq_Some_conv split: prod.splits sum.splits)
  with server_stop_terminates [OF _ _ r] show ?thesis by auto
qed

end
