(* ===== verification/Tdx_Transfer.thy ===== *)
theory Tdx_Transfer
  imports Tdx_Frames Tdx_Session
begin

text \<open>
  File transfer, \<^verbatim>\<open>src/transfer/transfer.cpp\<close>: the windowed sender \<open>send_once\<close>, the receiver
  \<open>receive_once\<close>, and the helpers they share. The connection is reached only through the three
  operations of \<open>msg_conn\<close>; sources and sinks through the virtual functions of \<open>ReaderAt\<close> and
  \<open>WriterAt\<close>. Both routines are split where the code calls \<open>conn.receive\<close>: a phase says which call
  is pending, and one definition per call is the code from there to the next one. \<open>send_once\<close> and
  \<open>receive_once\<close> drive these handlers over a connection; the same handlers run against each other in
  \<open>Tdx_Transfer_Pair\<close>. Offsets are \<open>int\<close>; a file of nearly 2^63 bytes, for which the sums of the
  code would overflow, is outside the model.
\<close>

section \<open>Interfaces\<close>

text \<open>\<open>Conn::send\<close>, \<open>Conn::receive\<close> and \<open>Conn::max_message_bytes\<close>.\<close>

record 'c msg_conn =
  mc_send :: "bytes \<Rightarrow> 'c \<Rightarrow> error_code \<times> 'c"
  mc_receive :: "'c \<Rightarrow> (error_code + bytes) \<times> 'c"
  mc_max_message_bytes :: "'c \<Rightarrow> int"

text \<open>\<open>read_at\<close> fills a buffer of the given size or fails.\<close>

record 'd reader_at =
  read_at :: "int \<Rightarrow> nat \<Rightarrow> 'd \<Rightarrow> (error_code + bytes) \<times> 'd"

text \<open>A \<open>WriterAt\<close>, and what \<open>dynamic_cast<ReaderAt*>\<close> gives for it.\<close>

record 'd writer_at =
  write_at :: "int \<Rightarrow> bytes \<Rightarrow> 'd \<Rightarrow> error_code \<times> 'd"
  as_reader :: "'d reader_at option"

text \<open>
  \<open>redial\<close> works on the state \<open>'w\<close> of the outside world; of \<open>on_progress\<close> only whether it is set, its
  calls are recorded; the \<open>accept\<close> callback is a function of the offer.
\<close>

record ('c, 'w) Options =
  chunk_size :: int
  window :: int
  ack_every :: int
  max_attempts :: int
  redial :: "('w \<Rightarrow> (error_code \<times> 'c option) \<times> 'w) option"
  on_progress :: bool
  accept_cb :: "(meta \<Rightarrow> error_code) option"

definition default_options :: "('c, 'w) Options" where
  "default_options = \<lparr>chunk_size = 256 * 2 ^ 10, window = 32, ack_every = 8, max_attempts = 8,
     redial = None, on_progress = False, accept_cb = None\<rparr>"

section \<open>Helpers\<close>

definition normalize :: "('c, 'w) Options option \<Rightarrow> ('c, 'w) Options" where
  "normalize opts =
    (let d = default_options in
     case opts of
       None \<Rightarrow> d
     | Some out \<Rightarrow>
         let out = (if chunk_size out \<le> 0 then out\<lparr>chunk_size := chunk_size d\<rparr> else out);
             out = (if window out \<le> 0 then out\<lparr>window := window d\<rparr> else out);
             out = (if ack_every out \<le> 0 then out\<lparr>ack_every := ack_every d\<rparr> else out)
         in (if max_attempts out \<le> 0 then out\<lparr>max_attempts := max_attempts d\<rparr> else out))"

definition effective_chunk_size :: "int \<Rightarrow> int \<Rightarrow> int" where
  "effective_chunk_size max_message_bytes want =
    (let m = max_message_bytes - int kChunkOverhead;
         m = (if m < 1 then 1 else m)
     in if want \<le> 0 \<or> want > m then m else want)"

definition map_conn_err :: "error_code \<Rightarrow> error_code" where
  "map_conn_err err =
    (if \<not> ec_fails err then NoError
     else if err = DuplexEc errc_closed then TransferEc terrc_closed
     else err)"

definition is_retriable :: "error_code \<Rightarrow> bool" where
  "is_retriable err =
    (if \<not> ec_fails err then False
     else if err = TransferEc terrc_rejected \<or> err = TransferEc terrc_hash_mismatch \<or>
             err = TransferEc terrc_size_mismatch \<or> err = TransferEc terrc_resume_past_end \<or>
             err = TransferEc terrc_bad_frame \<or> err = DuplexEc errc_canceled \<or>
             err = DuplexEc errc_timed_out then False
     else True)"

text \<open>
  The loop of \<open>hash_reader\<close>, and of the constructor of \<open>HashingWriter\<close>: it reads \<open>[off, size)\<close> in
  pieces of at most 256 KiB and feeds them to the hash.
\<close>

definition hash_buf :: int where "hash_buf = 256 * 2 ^ 10"

function hash_loop ::
  "('h, 'r) crypto_lib \<Rightarrow> 'd reader_at \<Rightarrow> int \<Rightarrow> int \<Rightarrow> 'h \<Rightarrow> 'd \<Rightarrow> (error_code + 'h) \<times> 'd" where
  "hash_loop lib r sz off ctx d =
    (if off < sz then
       let n = nat (if hash_buf > sz - off then sz - off else hash_buf) in
       (case read_at r off n d of
          (Inl ec, d) \<Rightarrow> (Inl ec, d)
        | (Inr buf, d) \<Rightarrow> hash_loop lib r sz (off + int n) (sha256_update lib buf ctx) d)
     else (Inr ctx, d))"
  by pat_completeness auto
termination
  by (relation "measure (\<lambda>(lib, r, sz, off, ctx, d). nat (sz - off))") (auto simp: hash_buf_def)

declare hash_loop.simps [simp del]

definition hash_reader ::
  "('h, 'r) crypto_lib \<Rightarrow> 'd reader_at \<Rightarrow> int \<Rightarrow> 'd \<Rightarrow> (error_code + bytes) \<times> 'd" where
  "hash_reader lib r sz d =
    (case hash_loop lib r sz 0 (sha256_starts lib) d of
       (Inl ec, d) \<Rightarrow> (Inl ec, d)
     | (Inr ctx, d) \<Rightarrow> (Inr (sha256_finish lib ctx), d))"

definition count_in_flight :: "int \<Rightarrow> int \<Rightarrow> int \<Rightarrow> int" where
  "count_in_flight acked next_off cs =
    (if next_off \<le> acked then 0
     else
       let remain = next_off - acked
       in int_of_size (nat ((remain + cs - 1) div cs)))"

text \<open>\<open>find_last_of\<close> of a slash or backslash.\<close>

definition path_base :: "string \<Rightarrow> string" where
  "path_base path = rev (takeWhile (\<lambda>ch. ch \<noteq> CHR ''/'' \<and> ch \<noteq> CHR 0x5C) (rev path))"

section \<open>Hashing writer\<close>

record 'h hashing_writer =
  hw_offset :: int
  hw_ctx :: 'h

text \<open>The constructor: the object, or the error it reports.\<close>

definition HashingWriter_init ::
  "('h, 'r) crypto_lib \<Rightarrow> 'd writer_at \<Rightarrow> int \<Rightarrow> 'd \<Rightarrow> (error_code + 'h hashing_writer) \<times> 'd" where
  "HashingWriter_init lib w resume d =
    (let ctx = sha256_starts lib in
     if resume > 0 then
       (case as_reader w of
          None \<Rightarrow> (Inl (TransferEc terrc_other), d)
        | Some ra \<Rightarrow>
            (case hash_loop lib ra resume 0 ctx d of
               (Inl e, d) \<Rightarrow> (Inl e, d)
             | (Inr ctx, d) \<Rightarrow> (Inr \<lparr>hw_offset = resume, hw_ctx = ctx\<rparr>, d)))
     else (Inr \<lparr>hw_offset = resume, hw_ctx = ctx\<rparr>, d))"

definition HashingWriter_write_at ::
  "('h, 'r) crypto_lib \<Rightarrow> 'd writer_at \<Rightarrow> bytes \<Rightarrow> int \<Rightarrow> 'h hashing_writer \<Rightarrow> 'd \<Rightarrow>
   error_code \<times> 'h hashing_writer \<times> 'd" where
  "HashingWriter_write_at lib w b off hw d =
    (if off \<noteq> hw_offset hw then (TransferEc terrc_bad_frame, hw, d)
     else
       let (ec, d) = write_at w off b d in
       if ec_fails ec then (ec, hw, d)
       else (NoError, \<lparr>hw_offset = hw_offset hw + int (length b), hw_ctx = sha256_update lib b (hw_ctx hw)\<rparr>, d))"

definition HashingWriter_sum :: "('h, 'r) crypto_lib \<Rightarrow> 'h hashing_writer \<Rightarrow> bytes" where
  "HashingWriter_sum lib hw = sha256_finish lib (hw_ctx hw)"

section \<open>Sender\<close>

text \<open>The pending \<open>receive\<close> of \<open>send_once\<close>, with the locals \<open>acked\<close> and \<open>next_off\<close>; or its result.\<close>

datatype snd_phase = SndAccept | SndAck int int | SndDone | SndRet error_code

record ('c, 'd) tx =
  tx_conn :: 'c
  tx_src :: 'd
  tx_chunk_size :: int
  tx_progress :: "(int \<times> int) list"
  tx_phase :: snd_phase

definition tx_return :: "error_code \<Rightarrow> ('c, 'd) tx \<Rightarrow> ('c, 'd) tx" where
  "tx_return ec st = st\<lparr>tx_phase := SndRet ec\<rparr>"

definition tx_report :: "('c, 'w) Options \<Rightarrow> int \<Rightarrow> int \<Rightarrow> ('c, 'd) tx \<Rightarrow> ('c, 'd) tx" where
  "tx_report opts transferred tot st =
    (if on_progress opts then st\<lparr>tx_progress := tx_progress st @ [(transferred, tot)]\<rparr> else st)"

text \<open>\<open>finish_send\<close> up to its \<open>receive\<close>, and after it.\<close>

definition finish_send :: "'c msg_conn \<Rightarrow> meta \<Rightarrow> ('c, 'd) tx \<Rightarrow> ('c, 'd) tx" where
  "finish_send api m st =
    (let (ec, c) = mc_send api (encode_done (meta_id m) True (meta_hash m)) (tx_conn st);
         st = st\<lparr>tx_conn := c\<rparr>
     in if ec_fails ec then tx_return (map_conn_err ec) st else st\<lparr>tx_phase := SndDone\<rparr>)"

definition finish_send_reply :: "meta \<Rightarrow> error_code + bytes \<Rightarrow> ('c, 'd) tx \<Rightarrow> ('c, 'd) tx" where
  "finish_send_reply m r st =
    (case r of
       Inl ec \<Rightarrow> tx_return (map_conn_err ec) st
     | Inr msg \<Rightarrow>
         (case decode_frame msg of
            Inl e \<Rightarrow> tx_return e st
          | Inr dec \<Rightarrow>
              if d_typ dec \<noteq> kTypeDone \<or> d_id dec \<noteq> meta_id m then tx_return (TransferEc terrc_bad_frame) st
              else if \<not> d_ok dec then tx_return (TransferEc terrc_hash_mismatch) st
              else tx_return NoError st))"

text \<open>
  The inner loop: send chunks while the window allows. The result is \<open>next_off\<close>, or \<open>None\<close> when the
  routine has returned. The chunk size is at least 1 (\<open>effective_chunk_size\<close>).
\<close>

function send_fill ::
  "'c msg_conn \<Rightarrow> 'd reader_at \<Rightarrow> ('c, 'w) Options \<Rightarrow> meta \<Rightarrow> int \<Rightarrow> int \<Rightarrow> ('c, 'd) tx \<Rightarrow>
   int option \<times> ('c, 'd) tx" where
  "send_fill api r opts m acked next_off st =
    (if 1 \<le> tx_chunk_size st \<and>
        count_in_flight acked next_off (tx_chunk_size st) < window opts \<and> next_off < meta_size m then
       let n = tx_chunk_size st;
           n = (if next_off + n > meta_size m then meta_size m - next_off else n)
       in (case read_at r next_off (nat n) (tx_src st) of
             (Inl e, d) \<Rightarrow> (None, tx_return e (st\<lparr>tx_src := d\<rparr>))
           | (Inr buf, d) \<Rightarrow>
               let st = st\<lparr>tx_src := d\<rparr>;
                   (ec, c) = mc_send api (encode_chunk (meta_id m) next_off buf) (tx_conn st);
                   st = st\<lparr>tx_conn := c\<rparr>
               in if ec_fails ec then (None, tx_return (map_conn_err ec) st)
                  else send_fill api r opts m acked (next_off + n) st)
     else (Some next_off, st))"
  by pat_completeness auto
termination
  by (relation "measure (\<lambda>(api, r, opts, m, acked, next_off, st). nat (meta_size m - next_off))") auto

declare send_fill.simps [simp del]

text \<open>The head of the outer loop: fill the window and wait for an ack, or finish.\<close>

definition send_loop ::
  "'c msg_conn \<Rightarrow> 'd reader_at \<Rightarrow> ('c, 'w) Options \<Rightarrow> meta \<Rightarrow> int \<Rightarrow> int \<Rightarrow> ('c, 'd) tx \<Rightarrow> ('c, 'd) tx" where
  "send_loop api r opts m acked next_off st =
    (if acked < meta_size m then
       (case send_fill api r opts m acked next_off st of
          (None, st) \<Rightarrow> st
        | (Some next_off, st) \<Rightarrow> st\<lparr>tx_phase := SndAck acked next_off\<rparr>)
     else finish_send api m st)"

definition send_start :: "'c msg_conn \<Rightarrow> ('c, 'w) Options \<Rightarrow> meta \<Rightarrow> ('c, 'd) tx \<Rightarrow> ('c, 'd) tx" where
  "send_start api opts m st =
    (let st = st\<lparr>tx_chunk_size := effective_chunk_size (mc_max_message_bytes api (tx_conn st)) (chunk_size opts)\<rparr> in
     case encode_offer m of
       Inl ec \<Rightarrow> tx_return ec st
     | Inr offer \<Rightarrow>
         let (ec, c) = mc_send api offer (tx_conn st);
             st = st\<lparr>tx_conn := c\<rparr>
         in if ec_fails ec then tx_return (map_conn_err ec) st else st\<lparr>tx_phase := SndAccept\<rparr>)"

definition send_on_accept ::
  "'c msg_conn \<Rightarrow> 'd reader_at \<Rightarrow> ('c, 'w) Options \<Rightarrow> meta \<Rightarrow> error_code + bytes \<Rightarrow> ('c, 'd) tx \<Rightarrow> ('c, 'd) tx" where
  "send_on_accept api r opts m msg_r st =
    (case msg_r of
       Inl ec \<Rightarrow> tx_return (map_conn_err ec) st
     | Inr msg \<Rightarrow>
         (case decode_frame msg of
            Inl e \<Rightarrow> tx_return e st
          | Inr dec \<Rightarrow>
              if d_typ dec = kTypeReject then
                if d_id dec \<noteq> meta_id m then tx_return (TransferEc terrc_bad_frame) st
                else tx_return (TransferEc terrc_rejected) st
              else if d_typ dec \<noteq> kTypeAccept \<or> d_id dec \<noteq> meta_id m then
                tx_return (TransferEc terrc_bad_frame) st
              else
                let offset = d_offset dec in
                if offset < 0 \<or> offset > meta_size m then tx_return (TransferEc terrc_resume_past_end) st
                else
                  let st = tx_report opts offset (meta_size m) st in
                  if offset = meta_size m then finish_send api m st
                  else send_loop api r opts m offset offset st))"

definition send_on_ack ::
  "'c msg_conn \<Rightarrow> 'd reader_at \<Rightarrow> ('c, 'w) Options \<Rightarrow> meta \<Rightarrow> int \<Rightarrow> int \<Rightarrow> error_code + bytes \<Rightarrow>
   ('c, 'd) tx \<Rightarrow> ('c, 'd) tx" where
  "send_on_ack api r opts m acked next_off msg_r st =
    (case msg_r of
       Inl ec \<Rightarrow> tx_return (map_conn_err ec) st
     | Inr msg \<Rightarrow>
         (case decode_frame msg of
            Inl e \<Rightarrow> tx_return e st
          | Inr dec \<Rightarrow>
              if d_typ dec = kTypeAck then
                if d_id dec \<noteq> meta_id m \<or> d_offset dec < acked \<or> d_offset dec > next_off then
                  tx_return (TransferEc terrc_bad_frame) st
                else
                  let acked = d_offset dec;
                      st = tx_report opts acked (meta_size m) st
                  in send_loop api r opts m acked next_off st
              else if d_typ dec = kTypeAbort then tx_return (TransferEc terrc_aborted) st
              else tx_return (TransferEc terrc_bad_frame) st))"

text \<open>What the sender does with the result of its pending \<open>receive\<close>.\<close>

fun send_on_msg ::
  "'c msg_conn \<Rightarrow> 'd reader_at \<Rightarrow> ('c, 'w) Options \<Rightarrow> meta \<Rightarrow> snd_phase \<Rightarrow> error_code + bytes \<Rightarrow>
   ('c, 'd) tx \<Rightarrow> ('c, 'd) tx" where
  "send_on_msg api r opts m SndAccept msg_r st = send_on_accept api r opts m msg_r st"
| "send_on_msg api r opts m (SndAck acked next_off) msg_r st = send_on_ack api r opts m acked next_off msg_r st"
| "send_on_msg api r opts m SndDone msg_r st = finish_send_reply m msg_r st"
| "send_on_msg api r opts m (SndRet ec) msg_r st = st"

partial_function (option) send_drive ::
  "'c msg_conn \<Rightarrow> 'd reader_at \<Rightarrow> ('c, 'w) Options \<Rightarrow> meta \<Rightarrow> ('c, 'd) tx \<Rightarrow> ('c, 'd) tx option" where
  "send_drive api r opts m st =
    (case tx_phase st of
       SndRet ec \<Rightarrow> Some st
     | ph \<Rightarrow>
         let (msg_r, c) = mc_receive api (tx_conn st)
         in send_drive api r opts m (send_on_msg api r opts m ph msg_r (st\<lparr>tx_conn := c\<rparr>)))"

declare send_drive.simps [code]

definition send_once ::
  "'c msg_conn \<Rightarrow> 'd reader_at \<Rightarrow> ('c, 'w) Options \<Rightarrow> meta \<Rightarrow> ('c, 'd) tx \<Rightarrow> ('c, 'd) tx option" where
  "send_once api r opts m st = send_drive api r opts m (send_start api opts m st)"

section \<open>Receiver\<close>

text \<open>
  The pending \<open>receive\<close> of \<open>receive_once\<close> with its locals: the offer, the final frame of a file that
  is already complete (with \<open>sum\<close>), a chunk (with \<open>hw\<close>, \<open>written\<close>, \<open>chunks_since_ack\<close>), the final
  frame; or its result.
\<close>

datatype 'h rcv_phase =
    RcvOffer
  | RcvComplete meta bytes
  | RcvChunk meta "'h hashing_writer" int int
  | RcvFinal meta "'h hashing_writer" int
  | RcvRet error_code

text \<open>\<open>rx_out_meta\<close> and \<open>rx_written_out\<close> are the reference parameters.\<close>

record ('c, 'd, 'h) rx =
  rx_conn :: 'c
  rx_dst :: 'd
  rx_progress :: "(int \<times> int) list"
  rx_out_meta :: meta
  rx_written_out :: int
  rx_phase :: "'h rcv_phase"

definition rx_return :: "error_code \<Rightarrow> ('c, 'd, 'h) rx \<Rightarrow> ('c, 'd, 'h) rx" where
  "rx_return ec st = st\<lparr>rx_phase := RcvRet ec\<rparr>"

text \<open>\<open>written_out = n; return ec;\<close>\<close>

definition rx_fail :: "int \<Rightarrow> error_code \<Rightarrow> ('c, 'd, 'h) rx \<Rightarrow> ('c, 'd, 'h) rx" where
  "rx_fail n ec st = rx_return ec (st\<lparr>rx_written_out := n\<rparr>)"

definition rx_send :: "'c msg_conn \<Rightarrow> bytes \<Rightarrow> ('c, 'd, 'h) rx \<Rightarrow> error_code \<times> ('c, 'd, 'h) rx" where
  "rx_send api b st = (let (ec, c) = mc_send api b (rx_conn st) in (ec, st\<lparr>rx_conn := c\<rparr>))"

definition rx_report :: "('c, 'w) Options \<Rightarrow> int \<Rightarrow> int \<Rightarrow> ('c, 'd, 'h) rx \<Rightarrow> ('c, 'd, 'h) rx" where
  "rx_report opts transferred tot st =
    (if on_progress opts then st\<lparr>rx_progress := rx_progress st @ [(transferred, tot)]\<rparr> else st)"

definition done_ok :: "meta \<Rightarrow> decoded \<Rightarrow> bytes \<Rightarrow> bool" where
  "done_ok m dec local =
    (let expect = (if is_zero_hash (meta_hash m) then d_hash dec else meta_hash m)
     in \<not> (\<not> is_zero_hash expect \<and> local \<noteq> expect) \<and> \<not> (\<not> is_zero_hash (d_hash dec) \<and> d_hash dec \<noteq> local))"

definition verify_and_ack_done ::
  "'c msg_conn \<Rightarrow> meta \<Rightarrow> decoded \<Rightarrow> bytes \<Rightarrow> ('c, 'd, 'h) rx \<Rightarrow> ('c, 'd, 'h) rx" where
  "verify_and_ack_done api m dec local st =
    (let ok = done_ok m dec local;
         (ec, st) = rx_send api (encode_done (meta_id m) ok local) st
     in if ec_fails ec then rx_return (map_conn_err ec) st
        else if \<not> ok then rx_return (TransferEc terrc_hash_mismatch) st
        else rx_return NoError st)"

text \<open>The loop head: wait for a chunk while \<open>written < meta.size\<close>, else for the final frame.\<close>

definition receive_loop :: "meta \<Rightarrow> 'h hashing_writer \<Rightarrow> int \<Rightarrow> int \<Rightarrow> ('c, 'd, 'h) rx \<Rightarrow> ('c, 'd, 'h) rx" where
  "receive_loop m hw written since st =
    (if written < meta_size m then st\<lparr>rx_phase := RcvChunk m hw written since\<rparr>
     else st\<lparr>rx_phase := RcvFinal m hw written\<rparr>)"

text \<open>From the accepted offer to the next \<open>receive\<close>.\<close>

definition receive_accepted ::
  "('h, 'r) crypto_lib \<Rightarrow> (error_code \<Rightarrow> string) \<Rightarrow> 'c msg_conn \<Rightarrow> 'd writer_at \<Rightarrow> int \<Rightarrow> meta \<Rightarrow>
   ('c, 'd, 'h) rx \<Rightarrow> ('c, 'd, 'h) rx" where
  "receive_accepted lib std api w resume m st =
    (if resume = meta_size m then
       (case as_reader w of
          None \<Rightarrow> st\<lparr>rx_phase := RcvComplete m zero_hash\<rparr>
        | Some ra \<Rightarrow>
            (case hash_reader lib ra (meta_size m) (rx_dst st) of
               (Inl e, d) \<Rightarrow> rx_fail resume e (st\<lparr>rx_dst := d\<rparr>)
             | (Inr digest, d) \<Rightarrow> st\<lparr>rx_dst := d, rx_phase := RcvComplete m digest\<rparr>))
     else
       (case HashingWriter_init lib w resume (rx_dst st) of
          (Inl hec, d) \<Rightarrow>
            let (_, st) = rx_send api (encode_abort (meta_id m) (ec_message std hec)) (st\<lparr>rx_dst := d\<rparr>)
            in rx_fail resume hec st
        | (Inr hw, d) \<Rightarrow> receive_loop m hw resume 0 (st\<lparr>rx_dst := d\<rparr>)))"

definition receive_on_offer ::
  "('h, 'r) crypto_lib \<Rightarrow> (error_code \<Rightarrow> string) \<Rightarrow> 'c msg_conn \<Rightarrow> 'd writer_at \<Rightarrow> ('c, 'w) Options \<Rightarrow>
   int \<Rightarrow> bool \<Rightarrow> meta \<Rightarrow> error_code + bytes \<Rightarrow> ('c, 'd, 'h) rx \<Rightarrow> ('c, 'd, 'h) rx" where
  "receive_on_offer lib std api w opts resume expect_meta want msg_r st =
    (case msg_r of
       Inl ec \<Rightarrow> rx_fail resume (map_conn_err ec) st
     | Inr msg \<Rightarrow>
         (case decode_frame msg of
            Inl e \<Rightarrow> rx_fail resume e st
          | Inr dec \<Rightarrow>
              if d_typ dec \<noteq> kTypeOffer then rx_fail resume (TransferEc terrc_bad_frame) st
              else
                let m = d_meta dec in
                if expect_meta \<and> meta_id m \<noteq> meta_id want then
                  let (_, st) = rx_send api (encode_reject (meta_id m) ''unexpected transfer id'') st
                  in rx_fail resume (TransferEc terrc_bad_frame) st
                else if resume > meta_size m then
                  let (_, st) = rx_send api (encode_reject (meta_id m) ''resume past end'') st
                  in rx_fail resume (TransferEc terrc_resume_past_end) (st\<lparr>rx_out_meta := m\<rparr>)
                else
                  let aec = (case accept_cb opts of None \<Rightarrow> NoError | Some accept \<Rightarrow> accept m) in
                  if ec_fails aec then
                    let (_, st) = rx_send api (encode_reject (meta_id m) (ec_message std aec)) st
                    in rx_fail resume (TransferEc terrc_rejected) (st\<lparr>rx_out_meta := m\<rparr>)
                  else
                    let (ec, st) = rx_send api (encode_accept (meta_id m) resume) st in
                    if ec_fails ec then rx_fail resume (map_conn_err ec) (st\<lparr>rx_out_meta := m\<rparr>)
                    else receive_accepted lib std api w resume m
                           ((rx_report opts resume (meta_size m) st)\<lparr>rx_out_meta := m\<rparr>)))"

text \<open>The final frame, of a complete file and after the last chunk.\<close>

definition receive_on_done ::
  "'c msg_conn \<Rightarrow> meta \<Rightarrow> int \<Rightarrow> bytes \<Rightarrow> error_code + bytes \<Rightarrow> ('c, 'd, 'h) rx \<Rightarrow> ('c, 'd, 'h) rx" where
  "receive_on_done api m n local msg_r st =
    (case msg_r of
       Inl ec \<Rightarrow> rx_fail n (map_conn_err ec) st
     | Inr msg \<Rightarrow>
         (case decode_frame msg of
            Inl e \<Rightarrow> rx_fail n e st
          | Inr dec \<Rightarrow>
              if d_typ dec \<noteq> kTypeDone \<or> d_id dec \<noteq> meta_id m then
                rx_fail n (TransferEc terrc_bad_frame) st
              else verify_and_ack_done api m dec local (st\<lparr>rx_written_out := n\<rparr>)))"

text \<open>A chunk has been stored up to \<open>written\<close>: count it, report, acknowledge when it is time.\<close>

definition receive_stored ::
  "'c msg_conn \<Rightarrow> ('c, 'w) Options \<Rightarrow> meta \<Rightarrow> 'h hashing_writer \<Rightarrow> int \<Rightarrow> int \<Rightarrow> ('c, 'd, 'h) rx \<Rightarrow>
   ('c, 'd, 'h) rx" where
  "receive_stored api opts m hw written since st =
    (let since = since + 1;
         st = rx_report opts written (meta_size m) st
     in if since \<ge> ack_every opts \<or> written = meta_size m then
          let (ec, st) = rx_send api (encode_ack (meta_id m) written) st in
          if ec_fails ec then rx_fail written (map_conn_err ec) st
          else receive_loop m hw written 0 st
        else receive_loop m hw written since st)"

definition receive_on_chunk ::
  "('h, 'r) crypto_lib \<Rightarrow> (error_code \<Rightarrow> string) \<Rightarrow> 'c msg_conn \<Rightarrow> 'd writer_at \<Rightarrow> ('c, 'w) Options \<Rightarrow>
   meta \<Rightarrow> 'h hashing_writer \<Rightarrow> int \<Rightarrow> int \<Rightarrow> error_code + bytes \<Rightarrow> ('c, 'd, 'h) rx \<Rightarrow> ('c, 'd, 'h) rx" where
  "receive_on_chunk lib std api w opts m hw written since msg_r st =
    (case msg_r of
       Inl ec \<Rightarrow> rx_fail written (map_conn_err ec) st
     | Inr msg \<Rightarrow>
         (case decode_frame msg of
            Inl e \<Rightarrow> rx_fail written e st
          | Inr dec \<Rightarrow>
              if d_typ dec = kTypeChunk then
                if d_id dec \<noteq> meta_id m \<or> d_offset dec \<noteq> written \<or>
                   d_offset dec + int (length (d_data dec)) > meta_size m then
                  rx_fail written (TransferEc terrc_bad_frame) st
                else
                  let (e, hw, d) = HashingWriter_write_at lib w (d_data dec) (d_offset dec) hw (rx_dst st);
                      st = st\<lparr>rx_dst := d\<rparr>
                  in if ec_fails e then
                       let (_, st) = rx_send api (encode_abort (meta_id m) (ec_message std e)) st
                       in rx_fail written e st
                     else receive_stored api opts m hw (d_offset dec + int (length (d_data dec))) since st
              else if d_typ dec = kTypeDone then
                if d_id dec \<noteq> meta_id m \<or> written \<noteq> meta_size m then
                  rx_fail written (TransferEc terrc_size_mismatch) st
                else verify_and_ack_done api m dec (HashingWriter_sum lib hw) (st\<lparr>rx_written_out := written\<rparr>)
              else if d_typ dec = kTypeAbort then rx_fail written (TransferEc terrc_aborted) st
              else rx_fail written (TransferEc terrc_bad_frame) st))"

text \<open>What the receiver does with the result of its pending \<open>receive\<close>.\<close>

fun receive_on_msg ::
  "('h, 'r) crypto_lib \<Rightarrow> (error_code \<Rightarrow> string) \<Rightarrow> 'c msg_conn \<Rightarrow> 'd writer_at \<Rightarrow> ('c, 'w) Options \<Rightarrow>
   int \<Rightarrow> bool \<Rightarrow> meta \<Rightarrow> 'h rcv_phase \<Rightarrow> error_code + bytes \<Rightarrow> ('c, 'd, 'h) rx \<Rightarrow> ('c, 'd, 'h) rx" where
  "receive_on_msg lib std api w opts resume expect_meta want RcvOffer msg_r st =
     receive_on_offer lib std api w opts resume expect_meta want msg_r st"
| "receive_on_msg lib std api w opts resume expect_meta want (RcvComplete m digest) msg_r st =
     receive_on_done api m resume digest msg_r st"
| "receive_on_msg lib std api w opts resume expect_meta want (RcvChunk m hw written since) msg_r st =
     receive_on_chunk lib std api w opts m hw written since msg_r st"
| "receive_on_msg lib std api w opts resume expect_meta want (RcvFinal m hw written) msg_r st =
     receive_on_done api m written (HashingWriter_sum lib hw) msg_r st"
| "receive_on_msg lib std api w opts resume expect_meta want (RcvRet ec) msg_r st = st"

partial_function (option) receive_drive ::
  "('h, 'r) crypto_lib \<Rightarrow> (error_code \<Rightarrow> string) \<Rightarrow> 'c msg_conn \<Rightarrow> 'd writer_at \<Rightarrow> ('c, 'w) Options \<Rightarrow>
   int \<Rightarrow> bool \<Rightarrow> meta \<Rightarrow> ('c, 'd, 'h) rx \<Rightarrow> ('c, 'd, 'h) rx option" where
  "receive_drive lib std api w opts resume expect_meta want st =
    (case rx_phase st of
       RcvRet ec \<Rightarrow> Some st
     | ph \<Rightarrow>
         let (msg_r, c) = mc_receive api (rx_conn st)
         in receive_drive lib std api w opts resume expect_meta want
              (receive_on_msg lib std api w opts resume expect_meta want ph msg_r (st\<lparr>rx_conn := c\<rparr>)))"

declare receive_drive.simps [code]

definition receive_once ::
  "('h, 'r) crypto_lib \<Rightarrow> (error_code \<Rightarrow> string) \<Rightarrow> 'c msg_conn \<Rightarrow> 'd writer_at \<Rightarrow> ('c, 'w) Options \<Rightarrow>
   int \<Rightarrow> bool \<Rightarrow> meta \<Rightarrow> ('c, 'd, 'h) rx \<Rightarrow> ('c, 'd, 'h) rx option" where
  "receive_once lib std api w opts resume expect_meta want st =
     receive_drive lib std api w opts resume expect_meta want (st\<lparr>rx_phase := RcvOffer\<rparr>)"

section \<open>Sources and sinks\<close>

text \<open>
  What the transfer relies on of a source: a successful read delivers the bytes of the contents at
  that place, and reading changes nothing. While it is \<open>usable\<close>, a read inside the contents succeeds.
\<close>

locale source_at =
  fixes r :: "'d reader_at" and content :: "'d \<Rightarrow> bytes"
  assumes read_keeps: "read_at r off n d = (res, d') \<Longrightarrow> content d' = content d"
    and read_sound: "read_at r off n d = (Inr b, d') \<Longrightarrow> 0 \<le> off \<Longrightarrow>
      length b = n \<and> b = take n (drop (nat off) (content d))"
    and read_fails: "read_at r off n d = (Inl ec, d') \<Longrightarrow> ec_fails ec"

locale live_source = source_at +
  fixes usable :: "'d \<Rightarrow> bool"
  assumes read_inside: "usable d \<Longrightarrow> 0 \<le> off \<Longrightarrow> nat off + n \<le> length (content d) \<Longrightarrow>
    \<exists>b d'. read_at r off n d = (Inr b, d') \<and> usable d'"

text \<open>A successful write replaces the bytes at its place; one that leaves no gap and fits succeeds.\<close>

locale sink_at =
  fixes w :: "'d writer_at" and content :: "'d \<Rightarrow> bytes"
  assumes write_sound: "write_at w off b d = (ec, d') \<Longrightarrow> \<not> ec_fails ec \<Longrightarrow> 0 \<le> off \<Longrightarrow>
      nat off \<le> length (content d) \<Longrightarrow>
      content d' = take (nat off) (content d) @ b @ drop (nat off + length b) (content d)"
    and reader_sound: "as_reader w = Some rdr \<Longrightarrow> source_at rdr content"

locale live_sink = sink_at +
  fixes usable :: "'d \<Rightarrow> bool" and room :: nat and rdr :: "'d reader_at"
  assumes readable: "as_reader w = Some rdr"
    and read_live: "live_source rdr content usable"
    and write_inside: "usable d \<Longrightarrow> 0 \<le> off \<Longrightarrow> nat off \<le> length (content d) \<Longrightarrow>
      nat off + length b \<le> room \<Longrightarrow> \<exists>d'. write_at w off b d = (NoError, d') \<and> usable d'"

text \<open>An error code a connection reports for a failed \<open>receive\<close> is one.\<close>

locale message_conn =
  fixes api :: "'c msg_conn"
  assumes receive_fails: "mc_receive api c = (Inl ec, c') \<Longrightarrow> ec_fails ec"

text \<open>The bytes \<open>[i, j)\<close> of the contents, and what adjacent pieces make.\<close>

lemma take_drop_adjacent:
  "i \<le> j \<Longrightarrow> j \<le> k \<Longrightarrow> take (j - i) (drop i xs) @ take (k - j) (drop j xs) = take (k - i) (drop i xs)"
  using take_add [of "j - i" "k - j" "drop i xs"] by (simp add: drop_drop)

text \<open>
  A property that the handlers keep holds when the routine returns. (A routine that never returns is
  the subject of the termination results.)
\<close>

lemma receive_drive_induct:
  assumes "receive_drive lib std api w opts resume em want st = Some st'" and "P st"
    and "\<And>st msg_r c. P st \<Longrightarrow> (\<forall>ec. rx_phase st \<noteq> RcvRet ec) \<Longrightarrow> mc_receive api (rx_conn st) = (msg_r, c) \<Longrightarrow>
      P (receive_on_msg lib std api w opts resume em want (rx_phase st) msg_r (st\<lparr>rx_conn := c\<rparr>))"
  shows "P st' \<and> (\<exists>ec. rx_phase st' = RcvRet ec)"
proof -
  let ?step = "\<lambda>lib std api w opts resume em want. \<forall>st msg_r c. P st \<longrightarrow> (\<forall>ec. rx_phase st \<noteq> RcvRet ec) \<longrightarrow>
    mc_receive api (rx_conn st) = (msg_r, c) \<longrightarrow>
    P (receive_on_msg lib std api w opts resume em want (rx_phase st) msg_r (st\<lparr>rx_conn := c\<rparr>))"
  have "?step lib std api w opts resume em want \<longrightarrow> P st \<longrightarrow> P st' \<and> (\<exists>ec. rx_phase st' = RcvRet ec)"
  proof (rule receive_drive.raw_induct [of "\<lambda>lib std api w opts resume em want st st'.
        ?step lib std api w opts resume em want \<longrightarrow> P st \<longrightarrow> P st' \<and> (\<exists>ec. rx_phase st' = RcvRet ec)"
        lib std api w opts resume em want st st'], goal_cases)
    case (1 f lib std api w opts resume em want st st')
    obtain msg_r c where rc: "mc_receive api (rx_conn st) = (msg_r, c)" by fastforce
    show ?case
    proof (cases "\<exists>ec. rx_phase st = RcvRet ec")
      case True
      with 1(2) show ?thesis by auto
    next
      case False
      then have "f lib std api w opts resume em want
          (receive_on_msg lib std api w opts resume em want (rx_phase st) msg_r (st\<lparr>rx_conn := c\<rparr>)) = Some st'"
        using 1(2) rc by (cases "rx_phase st") auto
      from 1(1) [OF this] rc False show ?thesis by blast
    qed
  qed (rule assms(1))
  with assms(2,3) show ?thesis by blast
qed

lemma send_drive_induct:
  assumes "send_drive api r opts m st = Some st'" and "P st"
    and "\<And>st msg_r c. P st \<Longrightarrow> (\<forall>ec. tx_phase st \<noteq> SndRet ec) \<Longrightarrow> mc_receive api (tx_conn st) = (msg_r, c) \<Longrightarrow>
      P (send_on_msg api r opts m (tx_phase st) msg_r (st\<lparr>tx_conn := c\<rparr>))"
  shows "P st' \<and> (\<exists>ec. tx_phase st' = SndRet ec)"
proof -
  let ?step = "\<lambda>api r opts m. \<forall>st msg_r c. P st \<longrightarrow> (\<forall>ec. tx_phase st \<noteq> SndRet ec) \<longrightarrow>
    mc_receive api (tx_conn st) = (msg_r, c) \<longrightarrow>
    P (send_on_msg api r opts m (tx_phase st) msg_r (st\<lparr>tx_conn := c\<rparr>))"
  have "?step api r opts m \<longrightarrow> P st \<longrightarrow> P st' \<and> (\<exists>ec. tx_phase st' = SndRet ec)"
  proof (rule send_drive.raw_induct [of "\<lambda>api r opts m st st'.
        ?step api r opts m \<longrightarrow> P st \<longrightarrow> P st' \<and> (\<exists>ec. tx_phase st' = SndRet ec)"
        api r opts m st st'], goal_cases)
    case (1 f api r opts m st st')
    obtain msg_r c where rc: "mc_receive api (tx_conn st) = (msg_r, c)" by fastforce
    show ?case
    proof (cases "\<exists>ec. tx_phase st = SndRet ec")
      case True
      with 1(2) show ?thesis by auto
    next
      case False
      then have "f api r opts m (send_on_msg api r opts m (tx_phase st) msg_r (st\<lparr>tx_conn := c\<rparr>)) = Some st'"
        using 1(2) rc by (cases "tx_phase st") auto
      from 1(1) [OF this] rc False show ?thesis by blast
    qed
  qed (rule assms(1))
  with assms(2,3) show ?thesis by blast
qed

context source_at
begin

lemma hash_step:
  assumes "off < sz" and "0 \<le> off"
  obtains n where "n = nat (if hash_buf > sz - off then sz - off else hash_buf)" and "0 < n"
    and "int n \<le> sz - off" and "nat (off + int n) = nat off + n"
  using assms by (intro that [OF refl]) (auto simp: hash_buf_def)

lemma hash_loop_sound:
  assumes "crypto_api lib" and "hash_loop lib r sz off ctx d = (res, d')" and "0 \<le> off" and "off \<le> sz"
  shows "content d' = content d \<and> (\<forall>ctx'. res = Inr ctx' \<longrightarrow>
    nat sz \<le> length (content d) \<or> sz = off) \<and> (\<forall>ctx'. res = Inr ctx' \<longrightarrow>
    ctx' = sha256_update lib (take (nat sz - nat off) (drop (nat off) (content d))) ctx)"
  using assms(2-)
proof (induction "nat (sz - off)" arbitrary: off ctx d rule: less_induct)
  case less
  show ?case
  proof (cases "off < sz")
    case True
    then obtain n where n: "n = nat (if hash_buf > sz - off then sz - off else hash_buf)" "0 < n"
      "int n \<le> sz - off" "nat (off + int n) = nat off + n"
      using hash_step [OF _ less.prems(2)] by metis
    obtain res1 d1 where rd: "read_at r off n d = (res1, d1)" by fastforce
    show ?thesis
    proof (cases res1)
      case (Inl ec)
      with True less.prems(1) rd n(1) read_keeps [OF rd] show ?thesis
        by (subst (asm) hash_loop.simps) (auto simp: Let_def split: if_splits)
    next
      case (Inr b)
      have b: "length b = n" "b = take n (drop (nat off) (content d))" "content d1 = content d"
        using read_sound [of off n d b d1] read_keeps [OF rd] rd Inr less.prems(2) by blast+
      have rec: "hash_loop lib r sz (off + int n) (sha256_update lib b ctx) d1 = (res, d')"
        using True less.prems(1) rd n(1) Inr
        by (subst (asm) hash_loop.simps) (auto simp: Let_def split: if_splits)
      have cat: "b @ take (nat sz - (nat off + n)) (drop (nat off + n) (content d)) =
          take (nat sz - nat off) (drop (nat off) (content d))"
        using take_drop_adjacent [of "nat off" "nat off + n" "nat sz" "content d"] b(2) n less.prems
        by (simp add: nat_le_iff)
      have "nat off + n \<le> length (content d)" using b(1,2) n(2) by (cases "nat off \<le> length (content d)") auto
      with less.hyps [OF _ rec] True less.prems n b(3) cat crypto_api.sha_stream [OF assms(1)]
      show ?thesis by auto
    qed
  next
    case False
    with less.prems crypto_api.sha_nil [OF assms(1)] show ?thesis
      by (subst (asm) hash_loop.simps) auto
  qed
qed

lemma hash_loop_error:
  assumes "\<And>off n d ec d'. read_at r off n d = (Inl ec, d') \<Longrightarrow> P ec"
  shows "hash_loop lib r sz off ctx d = (Inl ec, d') \<Longrightarrow> P ec"
proof (induction "nat (sz - off)" arbitrary: off ctx d rule: less_induct)
  case less
  define n where "n = nat (if hash_buf > sz - off then sz - off else hash_buf)"
  have lt: "off < sz" using less.prems by (subst (asm) hash_loop.simps) (auto split: if_splits)
  then have dec: "nat (sz - (off + int n)) < nat (sz - off)" by (auto simp: n_def hash_buf_def)
  have *: "(case read_at r off n d of (Inl ec, d) \<Rightarrow> (Inl ec, d)
      | (Inr buf, d) \<Rightarrow> hash_loop lib r sz (off + int n) (sha256_update lib buf ctx) d) = (Inl ec, d')"
    using less.prems lt unfolding n_def by (subst (asm) hash_loop.simps) (simp only: Let_def if_True)
  then show ?case
    by (auto split: prod.splits sum.splits dest: assms less.hyps [OF dec])
qed

lemma hash_loop_fails: "hash_loop lib r sz off ctx d = (Inl ec, d') \<Longrightarrow> ec_fails ec"
  by (rule hash_loop_error [where P = ec_fails, OF read_fails])

lemma hash_reader_error:
  assumes "\<And>off n d ec d'. read_at r off n d = (Inl ec, d') \<Longrightarrow> P ec" and "hash_reader lib r sz d = (Inl ec, d')"
  shows "P ec"
proof -
  have "hash_loop lib r sz 0 (sha256_starts lib) d = (Inl ec, d')"
    using assms(2) by (auto simp: hash_reader_def split: prod.splits sum.splits)
  from hash_loop_error [where P = P, OF assms(1) this] show ?thesis .
qed

lemma hash_reader_fails: "hash_reader lib r sz d = (Inl ec, d') \<Longrightarrow> ec_fails ec"
  by (auto simp: hash_reader_def split: prod.splits sum.splits dest: hash_loop_fails)

lemma hash_reader_sound:
  assumes "crypto_api lib" and "hash_reader lib r sz d = (Inr h, d')" and "0 \<le> sz"
  shows "content d' = content d \<and> nat sz \<le> length (content d) \<and> h = mbedtls_sha256 lib (take (nat sz) (content d))"
proof -
  obtain ctx where "hash_loop lib r sz 0 (sha256_starts lib) d = (Inr ctx, d')" "h = sha256_finish lib ctx"
    using assms(2) by (auto simp: hash_reader_def split: prod.splits sum.splits)
  with hash_loop_sound [OF assms(1) this(1) order.refl assms(3)] assms(3)
  show ?thesis by (auto simp: crypto_api.sha_oneshot [OF assms(1)])
qed

lemma hash_reader_keeps:
  assumes "crypto_api lib" and "hash_reader lib r sz d = (res, d')" and "0 \<le> sz"
  shows "content d' = content d"
proof -
  obtain res' where "hash_loop lib r sz 0 (sha256_starts lib) d = (res', d')"
    using assms(2) by (auto simp: hash_reader_def split: prod.splits sum.splits)
  from hash_loop_sound [OF assms(1) this order.refl assms(3)] show ?thesis by simp
qed

end

context live_source
begin

lemma hash_loop_total:
  assumes "usable d" and "0 \<le> off" and "off \<le> sz" and "nat sz \<le> length (content d)"
  shows "\<exists>ctx' d'. hash_loop lib r sz off ctx d = (Inr ctx', d') \<and> usable d'"
  using assms
proof (induction "nat (sz - off)" arbitrary: off ctx d rule: less_induct)
  case less
  show ?case
  proof (cases "off < sz")
    case True
    then obtain n where n: "n = nat (if hash_buf > sz - off then sz - off else hash_buf)" "0 < n"
      "int n \<le> sz - off" "nat (off + int n) = nat off + n"
      using hash_step [OF _ less.prems(2)] by metis
    moreover have "nat off + n \<le> length (content d)" using n less.prems by linarith
    ultimately obtain b d1 where "read_at r off n d = (Inr b, d1)" "usable d1" "content d1 = content d"
      using read_inside [of d off n] less.prems read_keeps by metis
    with less.hyps [of "off + int n" d1 "sha256_update lib b ctx"] less.prems n True
    show ?thesis by (subst hash_loop.simps) (simp add: Let_def)
  qed (use less.prems in \<open>subst hash_loop.simps, simp\<close>)
qed

lemma hash_reader_total:
  assumes "crypto_api lib" and "usable d" and "0 \<le> sz" and "nat sz \<le> length (content d)"
  shows "\<exists>d'. hash_reader lib r sz d = (Inr (mbedtls_sha256 lib (take (nat sz) (content d))), d') \<and>
      content d' = content d \<and> usable d'"
proof -
  obtain ctx d' where l: "hash_loop lib r sz 0 (sha256_starts lib) d = (Inr ctx, d')" "usable d'"
    using hash_loop_total [OF assms(2) order.refl assms(3,4), of lib "sha256_starts lib"] by blast
  then have "hash_reader lib r sz d = (Inr (sha256_finish lib ctx), d')" by (simp add: hash_reader_def)
  with hash_reader_sound [OF assms(1) this assms(3)] l(2) show ?thesis by auto
qed

end

end
