(* ===== verification/Tdx_Transfer_File.thy ===== *)
theory Tdx_Transfer_File
  imports Tdx_Transfer
begin

text \<open>
  The public routines of \<^verbatim>\<open>src/transfer/transfer.cpp\<close>: \<open>send\<close> and \<open>receive\<close>, which retry over a
  redialled connection, and \<open>send_file\<close> and \<open>receive_file\<close>, which run them on files. A run that never
  returns is \<open>None\<close>. The file streams are modelled by what the code uses of \<open>std::fstream\<close>: the
  contents of the open file, its position, and the failure state, which a short read or a failed
  write sets and which makes every later operation fail. \<open>fs_room\<close> is the size beyond which a failed
  write is seen by the stream. The stream has a buffer: a write that the stream has taken may still fail
  when \<open>close\<close> writes the buffer out, which the code does not look at, so what the file holds after
  \<open>close\<close> is a parameter (\<open>flush\<close>).
\<close>

section \<open>Retries\<close>

text \<open>The current connection, the source or sink, the recorded progress calls, the world of \<open>redial\<close>.\<close>

record ('c, 'd, 'w) xfer =
  xf_conn :: 'c
  xf_dev :: 'd
  xf_progress :: "(int \<times> int) list"
  xf_world :: 'w

text \<open>\<open>got\<close> is what \<open>fread\<close> delivers from \<open>/dev/urandom\<close>, empty when it cannot be opened.\<close>

definition new_id :: "bytes \<Rightarrow> bytes" where
  "new_id got = take 16 got @ replicate (16 - length got) 0"

fun tx_result :: "('c, 'd) tx \<Rightarrow> error_code" where
  "tx_result st = (case tx_phase st of SndRet ec \<Rightarrow> ec | _ \<Rightarrow> NoError)"

fun rx_result :: "('c, 'd, 'h) rx \<Rightarrow> error_code" where
  "rx_result st = (case rx_phase st of RcvRet ec \<Rightarrow> ec | _ \<Rightarrow> NoError)"

definition send_xfer ::
  "'c msg_conn \<Rightarrow> 'd reader_at \<Rightarrow> ('c, 'w) Options \<Rightarrow> meta \<Rightarrow> ('c, 'd, 'w) xfer \<Rightarrow>
   (error_code \<times> ('c, 'd, 'w) xfer) option" where
  "send_xfer api r nopts m st =
    map_option (\<lambda>t. (tx_result t, st\<lparr>xf_conn := tx_conn t, xf_dev := tx_src t, xf_progress := tx_progress t\<rparr>))
      (send_once api r nopts m
         \<lparr>tx_conn = xf_conn st, tx_src = xf_dev st, tx_chunk_size = 0, tx_progress = xf_progress st,
          tx_phase = SndAccept\<rparr>)"

text \<open>The \<open>for (;;)\<close> loop of \<open>send\<close>.\<close>

function send_attempts ::
  "'c msg_conn \<Rightarrow> 'd reader_at \<Rightarrow> ('c, 'w) Options \<Rightarrow> meta \<Rightarrow> int \<Rightarrow> error_code \<Rightarrow> ('c, 'd, 'w) xfer \<Rightarrow>
   (error_code \<times> ('c, 'd, 'w) xfer) option" where
  "send_attempts api r nopts m attempts last_err st =
    (let attempts' = attempts + 1 in
     if attempts' > max_attempts nopts then
       Some (if ec_fails last_err then last_err else TransferEc terrc_too_many_retries, st)
     else
       (case send_xfer api r nopts m st of
          None \<Rightarrow> None
        | Some (err, st) \<Rightarrow>
            if \<not> ec_fails err then Some (NoError, st)
            else
              (case redial nopts of
                 None \<Rightarrow> Some (err, st)
               | Some dial \<Rightarrow>
                   if \<not> is_retriable err then Some (err, st)
                   else
                     let ((dec, owned), w) = dial (xf_world st);
                         st = st\<lparr>xf_world := w\<rparr>
                     in (case owned of
                           None \<Rightarrow> Some (TransferEc terrc_other, st)
                         | Some c \<Rightarrow>
                             if ec_fails dec then Some (TransferEc terrc_other, st)
                             else send_attempts api r nopts m attempts' err (st\<lparr>xf_conn := c\<rparr>)))))"
  by pat_completeness auto
termination
  by (relation "measure (\<lambda>(api, r, nopts, m, attempts, last_err, st). nat (max_attempts nopts - attempts))") auto

declare send_attempts.simps [simp del]

definition transfer_send ::
  "('h, 'r) crypto_lib \<Rightarrow> ('w \<Rightarrow> bytes \<times> 'w) \<Rightarrow> 'c msg_conn \<Rightarrow> 'd reader_at \<Rightarrow> ('c, 'w) Options option \<Rightarrow>
   meta \<Rightarrow> ('c, 'd, 'w) xfer \<Rightarrow> (error_code \<times> ('c, 'd, 'w) xfer) option" where
  "transfer_send lib urandom api r opts m st =
    (let nopts = normalize opts in
     if meta_size m < 0 then Some (TransferEc terrc_size_mismatch, st)
     else
       let (m, st) =
             (if meta_id m = zero_id then
                let (got, w) = urandom (xf_world st)
                in (m\<lparr>meta_id := new_id got\<rparr>, st\<lparr>xf_world := w\<rparr>)
              else (m, st))
       in if is_zero_hash (meta_hash m) then
            (case hash_reader lib r (meta_size m) (xf_dev st) of
               (Inl ec, d) \<Rightarrow> Some (ec, st\<lparr>xf_dev := d\<rparr>)
             | (Inr h, d) \<Rightarrow> send_attempts api r nopts (m\<lparr>meta_hash := h\<rparr>) 0 NoError (st\<lparr>xf_dev := d\<rparr>))
          else send_attempts api r nopts m 0 NoError st)"

text \<open>One attempt of \<open>receive\<close>: its error, \<open>got\<close>, \<open>n\<close> and the new state.\<close>

definition receive_xfer ::
  "('h, 'r) crypto_lib \<Rightarrow> (error_code \<Rightarrow> string) \<Rightarrow> 'c msg_conn \<Rightarrow> 'd writer_at \<Rightarrow> ('c, 'w) Options \<Rightarrow>
   int \<Rightarrow> bool \<Rightarrow> meta \<Rightarrow> ('c, 'd, 'w) xfer \<Rightarrow> (error_code \<times> meta \<times> int \<times> ('c, 'd, 'w) xfer) option" where
  "receive_xfer lib std api wr nopts written have_meta m st =
    map_option (\<lambda>t. (rx_result t, rx_out_meta t, rx_written_out t,
        st\<lparr>xf_conn := rx_conn t, xf_dev := rx_dst t, xf_progress := rx_progress t\<rparr>))
      (receive_once lib std api wr nopts written have_meta m
         \<lparr>rx_conn = xf_conn st, rx_dst = xf_dev st, rx_progress = xf_progress st, rx_out_meta = default_meta,
          rx_written_out = written, rx_phase = RcvOffer\<rparr>)"

text \<open>The \<open>for (;;)\<close> loop of \<open>receive\<close>; the second component of the result is \<open>out_meta\<close>.\<close>

function receive_attempts ::
  "('h, 'r) crypto_lib \<Rightarrow> (error_code \<Rightarrow> string) \<Rightarrow> 'c msg_conn \<Rightarrow> 'd writer_at \<Rightarrow> ('c, 'w) Options \<Rightarrow>
   meta \<Rightarrow> bool \<Rightarrow> int \<Rightarrow> int \<Rightarrow> error_code \<Rightarrow> ('c, 'd, 'w) xfer \<Rightarrow>
   (error_code \<times> meta \<times> ('c, 'd, 'w) xfer) option" where
  "receive_attempts lib std api wr nopts m have_meta written attempts last_err st =
    (let attempts' = attempts + 1 in
     if attempts' > max_attempts nopts then
       Some (if ec_fails last_err then last_err else TransferEc terrc_too_many_retries, m, st)
     else
       (case receive_xfer lib std api wr nopts written have_meta m st of
          None \<Rightarrow> None
        | Some (err, got, n, st) \<Rightarrow>
            if \<not> ec_fails err then Some (NoError, got, st)
            else
              let (m, have_meta) = (if meta_id got \<noteq> zero_id then (got, True) else (m, have_meta));
                  written = (if n > written then n else written)
              in (case redial nopts of
                    None \<Rightarrow> Some (err, m, st)
                  | Some dial \<Rightarrow>
                      if \<not> is_retriable err then Some (err, m, st)
                      else
                        let ((dec, owned), w) = dial (xf_world st);
                            st = st\<lparr>xf_world := w\<rparr>
                        in (case owned of
                              None \<Rightarrow> Some (TransferEc terrc_other, m, st)
                            | Some c \<Rightarrow>
                                if ec_fails dec then Some (TransferEc terrc_other, m, st)
                                else receive_attempts lib std api wr nopts m have_meta written attempts' err
                                       (st\<lparr>xf_conn := c\<rparr>)))))"
  by pat_completeness auto
termination
  by (relation "measure (\<lambda>(lib, std, api, wr, nopts, m, have_meta, written, attempts, last_err, st).
        nat (max_attempts nopts - attempts))") auto

declare receive_attempts.simps [simp del]

text \<open>The argument \<open>out_meta\<close> is its value before the call.\<close>

definition transfer_receive ::
  "('h, 'r) crypto_lib \<Rightarrow> (error_code \<Rightarrow> string) \<Rightarrow> 'c msg_conn \<Rightarrow> 'd writer_at \<Rightarrow> ('c, 'w) Options option \<Rightarrow>
   int \<Rightarrow> meta \<Rightarrow> ('c, 'd, 'w) xfer \<Rightarrow> (error_code \<times> meta \<times> ('c, 'd, 'w) xfer) option" where
  "transfer_receive lib std api wr opts resume_offset out_meta st =
    (let nopts = normalize opts in
     if resume_offset < 0 then Some (TransferEc terrc_resume_past_end, out_meta, st)
     else receive_attempts lib std api wr nopts default_meta False resume_offset 0 NoError st)"

section \<open>File streams\<close>

record fstream =
  fs_content :: bytes
  fs_pos :: nat
  fs_fail :: bool
  fs_room :: nat

definition fstream_open :: "nat \<Rightarrow> bytes \<Rightarrow> fstream" where
  "fstream_open room content = \<lparr>fs_content = content, fs_pos = 0, fs_fail = False, fs_room = room\<rparr>"

text \<open>\<open>seekg\<close> and \<open>seekp\<close>, which share the position of the file buffer.\<close>

definition fstream_seek :: "int \<Rightarrow> fstream \<Rightarrow> fstream" where
  "fstream_seek off f =
    (if fs_fail f then f else if off < 0 then f\<lparr>fs_fail := True\<rparr> else f\<lparr>fs_pos := nat off\<rparr>)"

text \<open>\<open>read\<close>; the bytes returned are \<open>gcount\<close> many.\<close>

definition fstream_read :: "nat \<Rightarrow> fstream \<Rightarrow> bytes \<times> fstream" where
  "fstream_read n f =
    (if fs_fail f then ([], f)
     else
       let got = take n (drop (fs_pos f) (fs_content f))
       in (got, f\<lparr>fs_pos := fs_pos f + length got, fs_fail := length got < n\<rparr>))"

text \<open>The bytes of a file after a write at a position, zeros filling a gap.\<close>

definition overwrite :: "bytes \<Rightarrow> nat \<Rightarrow> bytes \<Rightarrow> bytes" where
  "overwrite old pos b =
    (if b = [] then old
     else take pos old @ replicate (pos - length old) 0 @ b @ drop (pos + length b) old)"

definition fstream_write :: "bytes \<Rightarrow> fstream \<Rightarrow> fstream" where
  "fstream_write b f =
    (if fs_fail f then f
     else
       let fits = take (fs_room f - fs_pos f) b
       in f\<lparr>fs_content := overwrite (fs_content f) (fs_pos f) fits, fs_pos := fs_pos f + length fits,
            fs_fail := length fits < length b\<rparr>)"

definition FileReaderAt_read_at :: "int \<Rightarrow> nat \<Rightarrow> fstream \<Rightarrow> (error_code + bytes) \<times> fstream" where
  "FileReaderAt_read_at offset n f =
    (let f = fstream_seek offset f;
         (got, f) = fstream_read n f
     in (if length got \<noteq> n then Inl (TransferEc terrc_other) else Inr got, f))"

definition FileReaderAt :: "fstream reader_at" where
  "FileReaderAt = \<lparr>read_at = FileReaderAt_read_at\<rparr>"

definition FileWriterAt_write_at :: "int \<Rightarrow> bytes \<Rightarrow> fstream \<Rightarrow> error_code \<times> fstream" where
  "FileWriterAt_write_at offset b f =
    (let f = fstream_seek offset f;
         f = fstream_write b f
     in (if fs_fail f then TransferEc terrc_other else NoError, f))"

definition FileWriterAt_read_at :: "int \<Rightarrow> nat \<Rightarrow> fstream \<Rightarrow> (error_code + bytes) \<times> fstream" where
  "FileWriterAt_read_at offset n f =
    (let f = fstream_seek offset f;
         (got, f) = fstream_read n f
     in (if length got \<noteq> n then Inl (TransferEc terrc_other) else Inr got, f))"

definition FileWriterAt :: "fstream writer_at" where
  "FileWriterAt = \<lparr>write_at = FileWriterAt_write_at, as_reader = Some \<lparr>read_at = FileWriterAt_read_at\<rparr>\<rparr>"

section \<open>Files\<close>

text \<open>Files by path; which paths may be opened for reading, for writing (and created).\<close>

record file_system =
  fsys_files :: "string \<rightharpoonup> bytes"
  fsys_readable :: "string \<Rightarrow> bool"
  fsys_writable :: "string \<Rightarrow> bool"
  fsys_room :: nat

text \<open>Opening with \<open>in\<close>, and with \<open>in | out\<close>: the contents, if that works.\<close>

definition open_in :: "file_system \<Rightarrow> string \<Rightarrow> bytes option" where
  "open_in fsy path = (if fsys_readable fsy path then fsys_files fsy path else None)"

definition open_in_out :: "file_system \<Rightarrow> string \<Rightarrow> bytes option" where
  "open_in_out fsy path = (if fsys_writable fsy path then open_in fsy path else None)"

text \<open>Opening with \<open>out | trunc\<close> and closing.\<close>

definition open_trunc_close :: "string \<Rightarrow> file_system \<Rightarrow> file_system" where
  "open_trunc_close path fsy =
    (if fsys_writable fsy path then fsy\<lparr>fsys_files := (fsys_files fsy)(path \<mapsto> [])\<rparr> else fsy)"

definition posix_truncate :: "string \<Rightarrow> int \<Rightarrow> file_system \<Rightarrow> file_system" where
  "posix_truncate path n fsy =
    (case fsys_files fsy path of
       Some b \<Rightarrow>
         if fsys_writable fsy path \<and> 0 \<le> n then
           fsy\<lparr>fsys_files := (fsys_files fsy)(path \<mapsto> take (nat n) b @ replicate (nat n - length b) 0)\<rparr>
         else fsy
     | None \<Rightarrow> fsy)"

definition send_file ::
  "('h, 'r) crypto_lib \<Rightarrow> ('w \<Rightarrow> bytes \<times> 'w) \<Rightarrow> 'c msg_conn \<Rightarrow> ('c, 'w) Options option \<Rightarrow> file_system \<Rightarrow>
   string \<Rightarrow> ('c, unit, 'w) xfer \<Rightarrow> (error_code \<times> ('c, fstream, 'w) xfer option) option" where
  "send_file lib urandom api opts fsy path st =
    (case open_in fsy path of
       None \<Rightarrow> Some (TransferEc terrc_other, None)
     | Some content \<Rightarrow>
         let m = default_meta\<lparr>meta_name := path_base path, meta_size := int (length content)\<rparr>
         in map_option (map_prod (\<lambda>ec. ec) Some)
              (transfer_send lib urandom api FileReaderAt opts m
                 \<lparr>xf_conn = xf_conn st, xf_dev = fstream_open (fsys_room fsy) content,
                  xf_progress = xf_progress st, xf_world = xf_world st\<rparr>))"

text \<open>\<open>receive_file\<close> up to the open stream: the resume offset, the contents if it is open, the files.\<close>

definition receive_file_open :: "string \<Rightarrow> file_system \<Rightarrow> int \<times> bytes option \<times> file_system" where
  "receive_file_open dest_path fsy =
    (let resume = (case open_in fsy dest_path of None \<Rightarrow> 0 | Some b \<Rightarrow> int (length b)) in
     case open_in_out fsy dest_path of
       Some b \<Rightarrow> (resume, Some b, fsy)
     | None \<Rightarrow>
         let fsy = open_trunc_close dest_path fsy
         in (resume, open_in_out fsy dest_path, fsy))"

text \<open>
  The files once the stream has been closed, and truncated after a success; \<open>flush f\<close> is what the file
  holds after \<open>close\<close> has tried to write out the buffer of the stream \<open>f\<close>.
\<close>

definition receive_file_close ::
  "(fstream \<Rightarrow> bytes) \<Rightarrow> string \<Rightarrow> error_code \<Rightarrow> meta \<Rightarrow> fstream \<Rightarrow> file_system \<Rightarrow> file_system" where
  "receive_file_close flush dest_path ec out_meta f fsy =
    (let fsy = fsy\<lparr>fsys_files := (fsys_files fsy)(dest_path \<mapsto> flush f)\<rparr>
     in if ec_fails ec then fsy else posix_truncate dest_path (meta_size out_meta) fsy)"

definition receive_file_flush ::
  "('h, 'r) crypto_lib \<Rightarrow> (error_code \<Rightarrow> string) \<Rightarrow> 'c msg_conn \<Rightarrow> (fstream \<Rightarrow> bytes) \<Rightarrow> ('c, 'w) Options option \<Rightarrow> string \<Rightarrow>
   meta \<Rightarrow> ('c, file_system, 'w) xfer \<Rightarrow> (error_code \<times> meta \<times> ('c, file_system, 'w) xfer) option" where
  "receive_file_flush lib std api flush opts dest_path out_meta st =
    (let (resume, f, fsy) = receive_file_open dest_path (xf_dev st) in
     case f of
       None \<Rightarrow> Some (TransferEc terrc_other, out_meta, st\<lparr>xf_dev := fsy\<rparr>)
     | Some b \<Rightarrow>
         map_option
           (\<lambda>(ec, out_meta, t). (if ec_fails ec then ec else NoError, out_meta,
              \<lparr>xf_conn = xf_conn t, xf_dev = receive_file_close flush dest_path ec out_meta (xf_dev t) fsy,
               xf_progress = xf_progress t, xf_world = xf_world t\<rparr>))
           (transfer_receive lib std api FileWriterAt opts resume out_meta
              \<lparr>xf_conn = xf_conn st, xf_dev = fstream_open (fsys_room fsy) b,
               xf_progress = xf_progress st, xf_world = xf_world st\<rparr>))"

text \<open>\<open>receive_file\<close> when \<open>close\<close> writes everything out.\<close>

definition receive_file ::
  "('h, 'r) crypto_lib \<Rightarrow> (error_code \<Rightarrow> string) \<Rightarrow> 'c msg_conn \<Rightarrow> ('c, 'w) Options option \<Rightarrow> string \<Rightarrow>
   meta \<Rightarrow> ('c, file_system, 'w) xfer \<Rightarrow> (error_code \<times> meta \<times> ('c, file_system, 'w) xfer) option" where
  "receive_file lib std api = receive_file_flush lib std api fs_content"

lemmas receive_file_eq = receive_file_def receive_file_flush_def

section \<open>File streams are sources and sinks\<close>

definition fs_usable :: "nat \<Rightarrow> fstream \<Rightarrow> bool" where
  "fs_usable cap f \<longleftrightarrow> \<not> fs_fail f \<and> fs_room f = cap"

lemma FileReaderAt_read:
  "FileReaderAt_read_at off n f = (res, f') \<Longrightarrow> fs_content f' = fs_content f \<and> fs_room f' = fs_room f"
  by (auto simp: FileReaderAt_read_at_def fstream_seek_def fstream_read_def Let_def split: if_splits)

lemma FileReaderAt_sound:
  assumes "FileReaderAt_read_at off n f = (Inr b, f')" and "0 \<le> off"
  shows "length b = n \<and> b = take n (drop (nat off) (fs_content f))"
  using assms
  by (auto simp: FileReaderAt_read_at_def fstream_seek_def fstream_read_def Let_def split: if_splits)

lemma FileReaderAt_inside:
  assumes "\<not> fs_fail f" and "0 \<le> off" and "nat off + n \<le> length (fs_content f)"
  shows "\<exists>b f'. FileReaderAt_read_at off n f = (Inr b, f') \<and> \<not> fs_fail f' \<and> fs_room f' = fs_room f"
  using assms
  by (auto simp: FileReaderAt_read_at_def fstream_seek_def fstream_read_def Let_def)

lemma FileWriterAt_reads: "FileWriterAt_read_at = FileReaderAt_read_at"
  by (simp add: fun_eq_iff FileWriterAt_read_at_def FileReaderAt_read_at_def)

lemma overwrite_inside:
  "pos \<le> length old \<Longrightarrow> overwrite old pos b = take pos old @ b @ drop (pos + length b) old"
  by (simp add: overwrite_def)

lemma file_live:
  "live_source \<lparr>read_at = FileReaderAt_read_at\<rparr> fs_content (fs_usable cap)"
proof
  show "\<exists>b d'. read_at \<lparr>read_at = FileReaderAt_read_at\<rparr> off n d = (Inr b, d') \<and> fs_usable cap d'"
    if "fs_usable cap d" and "0 \<le> off" and "nat off + n \<le> length (fs_content d)" for d off n
    using that FileReaderAt_inside [of d off n] by (simp add: fs_usable_def)
  show "length b = n \<and> b = take n (drop (nat off) (fs_content d))"
    if "read_at \<lparr>read_at = FileReaderAt_read_at\<rparr> off n d = (Inr b, d')" and "0 \<le> off" for off n d b d'
    by (rule FileReaderAt_sound) (use that in simp_all)
  show "ec_fails ec" if "read_at \<lparr>read_at = FileReaderAt_read_at\<rparr> off n d = (Inl ec, d')" for off n d ec d'
    using that by (auto simp: FileReaderAt_read_at_def Let_def ec_simps split: prod.splits if_splits)
qed (simp add: FileReaderAt_read)

interpretation file_src: live_source FileReaderAt fs_content "fs_usable cap" for cap
  unfolding FileReaderAt_def by (rule file_live)

interpretation file_snk: live_sink FileWriterAt fs_content "fs_usable cap" cap
    "\<lparr>read_at = FileWriterAt_read_at\<rparr>" for cap
proof (intro live_sink.intro sink_at.intro live_sink_axioms.intro)
  fix off b d ec d'
  assume "write_at FileWriterAt off b d = (ec, d')" "\<not> ec_fails ec" "0 \<le> off"
    "nat off \<le> length (fs_content d)"
  then show "fs_content d' = take (nat off) (fs_content d) @ b @ drop (nat off + length b) (fs_content d)"
    by (auto simp: FileWriterAt_def FileWriterAt_write_at_def fstream_seek_def fstream_write_def Let_def
        overwrite_inside ec_simps split: if_splits)
next
  fix d :: fstream and off and b :: bytes
  assume "fs_usable cap d" "0 \<le> off" "nat off \<le> length (fs_content d)" "nat off + length b \<le> cap"
  then show "\<exists>d'. write_at FileWriterAt off b d = (NoError, d') \<and> fs_usable cap d'"
    by (auto simp: fs_usable_def FileWriterAt_def FileWriterAt_write_at_def fstream_seek_def fstream_write_def Let_def)
next
  show "source_at rdr fs_content" if "as_reader FileWriterAt = Some rdr" for rdr
    using that file_live [THEN live_source.axioms(1)] by (auto simp: FileWriterAt_def FileWriterAt_reads)
  show "as_reader FileWriterAt = Some \<lparr>read_at = FileWriterAt_read_at\<rparr>" by (simp add: FileWriterAt_def)
  show "live_source \<lparr>read_at = FileWriterAt_read_at\<rparr> fs_content (fs_usable cap)"
    unfolding FileWriterAt_reads by (rule file_live)
qed

end
