(* ===== verification/Tdx_Transfer_Recv.thy ===== *)
theory Tdx_Transfer_Recv
  imports Tdx_Transfer_File
begin

text \<open>
  Integrity of the receiver, for every sequence of messages a peer may send and every failure of the
  connection and the sink: a \<open>receive\<close> that reports success leaves in the sink as many bytes as the
  offer announced, with the announced hash. The invariant \<open>rx_ok\<close> ties the running hash and
  \<open>written\<close> to the contents of the sink at every pending \<open>receive\<close>.
\<close>

section \<open>The receiver's invariant\<close>

text \<open>\<open>written\<close> bytes of the contents have been hashed.\<close>

definition hashed ::
  "('h, 'r) crypto_lib \<Rightarrow> bytes \<Rightarrow> 'h hashing_writer \<Rightarrow> int \<Rightarrow> bool" where
  "hashed lib b hw written \<longleftrightarrow> 0 \<le> written \<and> nat written \<le> length b \<and> hw_offset hw = written \<and>
     hw_ctx hw = sha256_update lib (take (nat written) b) (sha256_starts lib)"

text \<open>The contents are those the offer announced.\<close>

definition verified :: "('h, 'r) crypto_lib \<Rightarrow> meta \<Rightarrow> bytes \<Rightarrow> bool" where
  "verified lib m b \<longleftrightarrow> (is_zero_hash (meta_hash m) \<or>
     0 \<le> meta_size m \<and> nat (meta_size m) \<le> length b \<and>
     mbedtls_sha256 lib (take (nat (meta_size m)) b) = meta_hash m)"

fun rx_ok ::
  "('h, 'r) crypto_lib \<Rightarrow> ('d \<Rightarrow> bytes) \<Rightarrow> int \<Rightarrow> ('c, 'd, 'h) rx \<Rightarrow> 'h rcv_phase \<Rightarrow> bool" where
  "rx_ok lib content resume st RcvOffer = True"
| "rx_ok lib content resume st (RcvComplete m digest) =
    (rx_out_meta st = m \<and> resume = meta_size m \<and> (is_zero_hash digest \<or>
       nat resume \<le> length (content (rx_dst st)) \<and>
       digest = mbedtls_sha256 lib (take (nat resume) (content (rx_dst st)))))"
| "rx_ok lib content resume st (RcvChunk m hw written since) =
    (rx_out_meta st = m \<and> written \<le> meta_size m \<and> hashed lib (content (rx_dst st)) hw written)"
| "rx_ok lib content resume st (RcvFinal m hw written) =
    (rx_out_meta st = m \<and> written = meta_size m \<and> hashed lib (content (rx_dst st)) hw written)"
| "rx_ok lib content resume st (RcvRet ec) =
    (\<not> ec_fails ec \<longrightarrow> verified lib (rx_out_meta st) (content (rx_dst st)) \<and>
       rx_written_out st = meta_size (rx_out_meta st))"

lemma rx_send_keeps [simp]:
  assumes "rx_send api b st = (ec, st')"
  shows "rx_dst st' = rx_dst st" "rx_out_meta st' = rx_out_meta st" "rx_written_out st' = rx_written_out st"
    "rx_phase st' = rx_phase st"
  using assms by (auto simp: rx_send_def Let_def split: prod.splits)

lemma rx_report_keeps [simp]:
  "rx_dst (rx_report opts a b st) = rx_dst st" "rx_out_meta (rx_report opts a b st) = rx_out_meta st"
  "rx_written_out (rx_report opts a b st) = rx_written_out st"
  "rx_conn (rx_report opts a b st) = rx_conn st" "rx_phase (rx_report opts a b st) = rx_phase st"
  by (simp_all add: rx_report_def)

abbreviation rx_inv :: "('h, 'r) crypto_lib \<Rightarrow> ('d \<Rightarrow> bytes) \<Rightarrow> int \<Rightarrow> ('c, 'd, 'h) rx \<Rightarrow> bool" where
  "rx_inv lib content resume st \<equiv> rx_ok lib content resume st (rx_phase st)"

lemma rx_fail_ok: "ec_fails ec \<Longrightarrow> rx_inv lib content resume (rx_fail n ec st)"
  by (simp add: rx_fail_def rx_return_def)

lemma map_conn_err_fails: "ec_fails (map_conn_err ec) \<longleftrightarrow> ec_fails ec"
  by (simp add: map_conn_err_def ec_simps)

lemma decode_frame_fails: "decode_frame b = Inl ec \<Longrightarrow> ec_fails ec"
  by (auto simp: decode_frame_def Let_def ec_simps split: if_splits)

lemma zero_hash_is_zero [simp]: "is_zero_hash zero_hash"
  by (simp add: is_zero_hash_def zero_hash_def list_all_iff)

text \<open>A hash that passes the final check and belongs to the contents verifies them.\<close>

lemma verify_ok:
  assumes "rx_out_meta st = m" and "rx_written_out st = meta_size m"
    and "is_zero_hash digest \<or> 0 \<le> meta_size m \<and> nat (meta_size m) \<le> length (content (rx_dst st)) \<and>
      digest = mbedtls_sha256 lib (take (nat (meta_size m)) (content (rx_dst st)))"
  shows "rx_inv lib content resume (verify_and_ack_done api m dec digest st)"
proof -
  have "verified lib m (content (rx_dst st))" if "done_ok m dec digest"
    using that assms(3) by (auto simp: done_ok_def verified_def Let_def split: if_splits)
  with assms(1,2) show ?thesis
    by (auto simp: verify_and_ack_done_def rx_return_def Let_def ec_simps map_conn_err_fails split: prod.splits)
qed

section \<open>Every handler keeps it\<close>

context sink_at
begin

lemma HashingWriter_init_ok:
  assumes "crypto_api lib" and "HashingWriter_init lib w resume d = (res, d')" and "0 \<le> resume"
  shows "(case res of Inl ec \<Rightarrow> ec_fails ec | Inr hw \<Rightarrow> hashed lib (content d') hw resume)"
proof (cases "resume > 0 \<and> as_reader w \<noteq> None")
  case True
  then obtain ra res' where ra: "as_reader w = Some ra" "hash_loop lib ra resume 0 (sha256_starts lib) d = (res', d')"
    "res = (case res' of Inl e \<Rightarrow> Inl e | Inr ctx \<Rightarrow> Inr \<lparr>hw_offset = resume, hw_ctx = ctx\<rparr>)"
    using assms(2) by (auto simp: HashingWriter_init_def Let_def split: prod.splits sum.splits)
  have src: "source_at ra content" using reader_sound [OF ra(1)] .
  show ?thesis
    using source_at.hash_loop_sound [OF src assms(1) ra(2) order.refl assms(3)]
      source_at.hash_loop_fails [OF src] ra(2,3) assms(3) True
    by (auto simp: hashed_def split: sum.splits)
next
  case False
  with assms crypto_api.sha_nil [OF assms(1)] show ?thesis
    by (cases "resume > 0") (auto simp: HashingWriter_init_def hashed_def Let_def ec_simps)
qed

lemma write_hashed:
  assumes "crypto_api lib" and "HashingWriter_write_at lib w b off hw d = (ec, hw', d')" and "\<not> ec_fails ec"
    and "hashed lib (content d) hw off"
  shows "hashed lib (content d') hw' (off + int (length b))"
proof -
  obtain ec' where wr: "write_at w off b d = (ec', d')" "\<not> ec_fails ec'" and
    hw': "hw' = \<lparr>hw_offset = hw_offset hw + int (length b), hw_ctx = sha256_update lib b (hw_ctx hw)\<rparr>"
    using assms(2-) by (auto simp: HashingWriter_write_at_def hashed_def Let_def ec_simps split: if_splits prod.splits)
  have off: "0 \<le> off" "nat off \<le> length (content d)" using assms(4) by (auto simp: hashed_def)
  have "nat (off + int (length b)) = nat off + length b" using off by simp
  with write_sound [OF wr off] off assms(4) crypto_api.sha_stream [OF assms(1)] show ?thesis
    by (simp add: hashed_def hw')
qed

lemma accepted_ok:
  assumes "crypto_api lib" and "0 \<le> resume" and "resume \<le> meta_size m" and "rx_out_meta st = m"
  shows "rx_inv lib content resume (receive_accepted lib std api w resume m st)"
proof (cases "resume = meta_size m")
  case True
  show ?thesis
  proof (cases "as_reader w")
    case None
    with True assms show ?thesis by (simp add: receive_accepted_def)
  next
    case (Some ra)
    obtain res d' where h: "hash_reader lib ra (meta_size m) (rx_dst st) = (res, d')" by fastforce
    note src = reader_sound [OF Some]
    from h True Some assms(2,4) source_at.hash_reader_sound [OF src assms(1)] source_at.hash_reader_fails [OF src]
    show ?thesis
      by (cases res) (fastforce simp: receive_accepted_def rx_fail_def rx_return_def simp del: ec_fails.simps)+
  qed
next
  case False
  obtain res d' where h: "HashingWriter_init lib w resume (rx_dst st) = (res, d')" by fastforce
  from HashingWriter_init_ok [OF assms(1) h assms(2)] h False assms show ?thesis
    by (cases res)
      (auto simp: receive_accepted_def receive_loop_def rx_fail_ok simp del: ec_fails.simps split: prod.splits)
qed

lemma on_offer_ok:
  assumes "crypto_api lib" and "0 \<le> resume" and "\<And>ec. msg_r = Inl ec \<Longrightarrow> ec_fails ec"
  shows "rx_inv lib content resume (receive_on_offer lib std api w opts resume expect_meta want msg_r st)"
proof -
  note fails = rx_fail_ok map_conn_err_fails ec_simps decode_frame_fails
  show ?thesis
    using assms(3)
    by (auto simp: receive_on_offer_def Let_def fails simp del: ec_fails.simps
        intro!: accepted_ok [OF assms(1,2)] split: sum.splits prod.splits if_splits)
qed

lemma on_done_ok:
  assumes "rx_out_meta st = m" and "n = meta_size m" and "\<And>ec. msg_r = Inl ec \<Longrightarrow> ec_fails ec"
    and "is_zero_hash digest \<or> 0 \<le> meta_size m \<and> nat (meta_size m) \<le> length (content (rx_dst st)) \<and>
      digest = mbedtls_sha256 lib (take (nat (meta_size m)) (content (rx_dst st)))"
  shows "rx_inv lib content resume (receive_on_done api m n digest msg_r st)"
  using assms
  by (auto simp: receive_on_done_def Let_def rx_fail_ok map_conn_err_fails ec_simps decode_frame_fails
      simp del: ec_fails.simps intro!: verify_ok split: sum.splits)

lemma hashed_sum:
  assumes "crypto_api lib" and "hashed lib b hw n"
  shows "0 \<le> n \<and> nat n \<le> length b \<and> HashingWriter_sum lib hw = mbedtls_sha256 lib (take (nat n) b)"
  using assms by (simp add: hashed_def HashingWriter_sum_def crypto_api.sha_oneshot)

lemma loop_ok:
  assumes "rx_out_meta st = m" and "written \<le> meta_size m" and "hashed lib (content (rx_dst st)) hw written"
  shows "rx_inv lib content resume (receive_loop m hw written since st)"
  using assms by (auto simp: receive_loop_def)

lemma stored_ok:
  assumes "rx_out_meta st = m" and "written \<le> meta_size m" and "hashed lib (content (rx_dst st)) hw written"
  shows "rx_inv lib content resume (receive_stored api opts m hw written since st)"
  using assms
  by (auto simp: receive_stored_def Let_def rx_fail_ok map_conn_err_fails intro!: loop_ok split: prod.splits)

lemma on_chunk_ok:
  assumes "crypto_api lib" and "rx_out_meta st = m" and "written \<le> meta_size m"
    and "hashed lib (content (rx_dst st)) hw written" and "\<And>ec. msg_r = Inl ec \<Longrightarrow> ec_fails ec"
  shows "rx_inv lib content resume (receive_on_chunk lib std api w opts m hw written since msg_r st)"
proof (cases "\<exists>msg dec. msg_r = Inr msg \<and> decode_frame msg = Inr dec")
  case False
  with assms(5) show ?thesis
    by (auto simp: receive_on_chunk_def rx_fail_ok map_conn_err_fails decode_frame_fails
        simp del: ec_fails.simps split: sum.splits)
next
  case True
  then obtain msg dec where m: "msg_r = Inr msg" "decode_frame msg = Inr dec" by blast
  obtain e hw' d' where wr: "HashingWriter_write_at lib w (d_data dec) (d_offset dec) hw (rx_dst st) = (e, hw', d')"
    by (metis prod_cases3)
  note fails = rx_fail_ok map_conn_err_fails ec_simps
  show ?thesis
  proof (cases "d_typ dec = kTypeChunk")
    case True
    show ?thesis
    proof (cases "d_id dec \<noteq> meta_id m \<or> d_offset dec \<noteq> written \<or>
        d_offset dec + int (length (d_data dec)) > meta_size m \<or> ec_fails e")
      case bad: True
      with True m wr show ?thesis
        by (auto simp: receive_on_chunk_def Let_def fails simp del: ec_fails.simps split: prod.splits)
    next
      case False
      then have "hashed lib (content d') hw' (d_offset dec + int (length (d_data dec)))"
        using write_hashed [OF assms(1) wr] assms(4) by simp
      with False True m wr assms(2) show ?thesis
        by (auto simp: receive_on_chunk_def Let_def fails simp del: ec_fails.simps
            intro!: stored_ok split: prod.splits)
    qed
  next
    case False
    with m assms(2) hashed_sum [OF assms(1,4)] show ?thesis
      by (auto simp: receive_on_chunk_def Let_def fails simp del: ec_fails.simps intro!: verify_ok)
  qed
qed

lemma on_msg_ok:
  assumes "crypto_api lib" and "0 \<le> resume" and "\<And>ec. msg_r = Inl ec \<Longrightarrow> ec_fails ec"
    and "rx_inv lib content resume st" and "rx_phase st = ph"
  shows "rx_inv lib content resume (receive_on_msg lib std api w opts resume expect_meta want ph msg_r st)"
  using assms hashed_sum [OF assms(1)]
  by (cases ph) (auto intro!: on_offer_ok on_done_ok on_chunk_ok)

lemma drive_ok:
  assumes "crypto_api lib" and "0 \<le> resume" and "message_conn api"
    and "receive_drive lib std api w opts resume expect_meta want st = Some st'"
    and "rx_inv lib content resume st"
  shows "rx_inv lib content resume st' \<and> (\<exists>ec. rx_phase st' = RcvRet ec)"
proof (rule receive_drive_induct [OF assms(4), where P = "\<lambda>st. rx_inv lib content resume st"])
  fix st and msg_r :: "error_code + bytes" and c
  assume inv: "rx_inv lib content resume st" and "mc_receive api (rx_conn st) = (msg_r, c)"
  then have "ec_fails ec" if "msg_r = Inl ec" for ec
    using message_conn.receive_fails [OF assms(3)] that by blast
  moreover have "rx_inv lib content resume (st\<lparr>rx_conn := c\<rparr>)" using inv by (cases "rx_phase st") auto
  ultimately show "rx_inv lib content resume
      (receive_on_msg lib std api w opts resume expect_meta want (rx_phase st) msg_r (st\<lparr>rx_conn := c\<rparr>))"
    by (intro on_msg_ok [OF assms(1,2)]) auto
qed (rule assms(5))

end

text \<open>A live sink with room takes the next piece, and its hash follows.\<close>

context live_sink
begin

lemma HashingWriter_init_total:
  assumes "crypto_api lib" and "usable d" and "0 \<le> resume" and "nat resume \<le> length (content d)"
  shows "\<exists>d'. HashingWriter_init lib w resume d = (Inr \<lparr>hw_offset = resume,
      hw_ctx = sha256_update lib (take (nat resume) (content d)) (sha256_starts lib)\<rparr>, d') \<and>
    usable d' \<and> content d' = content d"
proof (cases "0 < resume")
  case True
  obtain ctx d' where l: "hash_loop lib rdr resume 0 (sha256_starts lib) d = (Inr ctx, d')" "usable d'"
    using live_source.hash_loop_total [OF read_live assms(2) order.refl assms(3,4),
        of lib "sha256_starts lib"] by blast
  from source_at.hash_loop_sound [OF reader_sound [OF readable] assms(1) l(1) order.refl assms(3)]
  have "content d' = content d" "ctx = sha256_update lib (take (nat resume) (content d)) (sha256_starts lib)"
    by auto
  with True l show ?thesis by (simp add: HashingWriter_init_def readable)
next
  case False
  with assms show ?thesis by (simp add: HashingWriter_init_def crypto_api.sha_nil)
qed

lemma HashingWriter_write_total:
  assumes "crypto_api lib" and "usable d" and "0 \<le> off" and "nat off = length (content d)"
    and "length (content d) + length b \<le> room" and "hw_offset hw = off"
  shows "\<exists>d'. HashingWriter_write_at lib w b off hw d = (NoError, \<lparr>hw_offset = off + int (length b),
      hw_ctx = sha256_update lib b (hw_ctx hw)\<rparr>, d') \<and> usable d' \<and> content d' = content d @ b"
proof -
  obtain d' where wr: "write_at w off b d = (NoError, d')" "usable d'"
    using write_inside [OF assms(2,3)] assms(4,5) by auto
  with write_sound [OF wr(1) _ assms(3)] assms show ?thesis
    by (simp add: HashingWriter_write_at_def)
qed

end

section \<open>From one attempt to a file\<close>

lemma receive_xfer_ok:
  assumes "sink_at wr content" and "crypto_api lib" and "message_conn api" and "0 \<le> written"
    and "receive_xfer lib std api wr nopts written have_meta m st = Some (ec, got, n, st')" and "\<not> ec_fails ec"
  shows "verified lib got (content (xf_dev st')) \<and> n = meta_size got"
proof -
  let ?st = "\<lparr>rx_conn = xf_conn st, rx_dst = xf_dev st, rx_progress = xf_progress st,
    rx_out_meta = default_meta, rx_written_out = written, rx_phase = RcvOffer\<rparr>"
  obtain t where t: "receive_drive lib std api wr nopts written have_meta m ?st = Some t"
    and r: "ec = rx_result t" "got = rx_out_meta t" "n = rx_written_out t" "xf_dev st' = rx_dst t"
    using assms(5) by (auto simp: receive_xfer_def receive_once_def)
  from sink_at.drive_ok [OF assms(1,2,4,3) t] r assms(6) show ?thesis by auto
qed

text \<open>An attempt succeeds, or the routine fails, or it tries again from a state it has reached.\<close>

lemma receive_attempts_cases:
  assumes "receive_attempts lib std api wr nopts m have_meta written attempts last_err st = Some (ec, got, st')"
    and "\<not> ec_fails ec"
  shows "attempts + 1 \<le> max_attempts nopts \<and>
    ((\<exists>err n. \<not> ec_fails err \<and>
        receive_xfer lib std api wr nopts written have_meta m st = Some (err, got, n, st')) \<or>
     (\<exists>m' hm' written' err st1. written \<le> written' \<and>
        receive_attempts lib std api wr nopts m' hm' written' (attempts + 1) err st1 = Some (ec, got, st')))"
proof (cases "attempts + 1 > max_attempts nopts")
  case True
  with assms show ?thesis
    by (subst (asm) receive_attempts.simps) (auto simp: ec_simps split: if_splits simp del: ec_fails.simps)
next
  case False
  then obtain err g n st1 where x: "receive_xfer lib std api wr nopts written have_meta m st = Some (err, g, n, st1)"
    using assms(1) by (subst (asm) receive_attempts.simps) (auto simp: Let_def split: option.splits)
  show ?thesis
  proof (cases "ec_fails err")
    case True
    obtain m' hm' where mh: "(if meta_id g \<noteq> zero_id then (g, True) else (m, have_meta)) = (m', hm')" by fastforce
    obtain dial dec c w where d: "redial nopts = Some dial" "dial (xf_world st1) = ((dec, Some c), w)"
      and "receive_attempts lib std api wr nopts m' hm' (if n > written then n else written) (attempts + 1) err
        (st1\<lparr>xf_world := w, xf_conn := c\<rparr>) = Some (ec, got, st')"
      using assms False x True mh
      by (subst (asm) receive_attempts.simps)
        (auto simp: Let_def ec_simps simp del: ec_fails.simps split: option.splits if_splits prod.splits)
    with False show ?thesis
      by (intro conjI disjI2 exI [of _ m'] exI [of _ hm'] exI [of _ "if n > written then n else written"]
          exI [of _ err] exI [of _ "st1\<lparr>xf_world := w, xf_conn := c\<rparr>"]) auto
  next
    case noerr: False
    with assms False x show ?thesis by (subst (asm) receive_attempts.simps) (auto simp: Let_def)
  qed
qed

lemma receive_attempts_ok:
  assumes "sink_at wr content" and "crypto_api lib" and "message_conn api" and "0 \<le> written"
    and "receive_attempts lib std api wr nopts m have_meta written attempts last_err st = Some (ec, got, st')"
    and "\<not> ec_fails ec"
  shows "verified lib got (content (xf_dev st'))"
  using assms(4,5)
proof (induction "nat (max_attempts nopts - attempts)" arbitrary: m have_meta written attempts last_err st
    rule: less_induct)
  case less
  from receive_attempts_cases [OF less.prems(2) assms(6)] show ?case
  proof (elim conjE disjE exE)
    fix err n
    assume "\<not> ec_fails err" "receive_xfer lib std api wr nopts written have_meta m st = Some (err, got, n, st')"
    then show ?thesis using receive_xfer_ok [OF assms(1-3) less.prems(1)] by blast
  next
    fix m' hm' written' err st1
    assume "attempts + 1 \<le> max_attempts nopts" "written \<le> written'" and
      r: "receive_attempts lib std api wr nopts m' hm' written' (attempts + 1) err st1 = Some (ec, got, st')"
    then show ?thesis using less.prems(1) by (intro less.hyps [OF _ _ r]) auto
  qed
qed

lemma transfer_receive_ok:
  assumes "sink_at wr content" and "crypto_api lib" and "message_conn api"
    and "transfer_receive lib std api wr opts resume om st = Some (ec, m, st')" and "\<not> ec_fails ec"
  shows "verified lib m (content (xf_dev st'))"
proof -
  have r: "0 \<le> resume"
    and "receive_attempts lib std api wr (normalize opts) default_meta False resume 0 NoError st = Some (ec, m, st')"
    using assms(4,5) by (auto simp: transfer_receive_def Let_def ec_simps split: if_splits simp del: ec_fails.simps)
  from receive_attempts_ok [OF assms(1-3) this assms(5)] show ?thesis .
qed

text \<open>
  The bytes the stream has taken are the announced ones; the file holds what is left of them after
  \<open>close\<close>, cut or filled up to the announced length.
\<close>

lemma receive_file_flush_ok:
  assumes "crypto_api lib" and "message_conn api"
    and "receive_file_flush lib std api flush opts path om st = Some (ec, m, st')" and "\<not> ec_fails ec"
    and "\<not> is_zero_hash (meta_hash m)"
  shows "\<exists>f. 0 \<le> meta_size m \<and> nat (meta_size m) \<le> length (fs_content f) \<and>
    mbedtls_sha256 lib (take (nat (meta_size m)) (fs_content f)) = meta_hash m \<and>
    fsys_files (xf_dev st') path =
      Some (take (nat (meta_size m)) (flush f) @ replicate (nat (meta_size m) - length (flush f)) 0)"
proof -
  obtain resume f fsy where op: "receive_file_open path (xf_dev st) = (resume, f, fsy)" by (metis prod_cases3)
  with assms(3,4) obtain b ec' t where f: "f = Some b" and
    t: "transfer_receive lib std api FileWriterAt opts resume om
        \<lparr>xf_conn = xf_conn st, xf_dev = fstream_open (fsys_room fsy) b, xf_progress = xf_progress st,
         xf_world = xf_world st\<rparr> = Some (ec', m, t)" "\<not> ec_fails ec'" and
    d: "xf_dev st' = receive_file_close flush path ec' m (xf_dev t) fsy"
    by (auto simp: receive_file_flush_def ec_simps simp del: ec_fails.simps split: option.splits if_splits)
  have "verified lib m (fs_content (xf_dev t))"
    by (rule transfer_receive_ok [OF file_snk.sink_at_axioms assms(1,2) t])
  with assms(5) have "0 \<le> meta_size m" "nat (meta_size m) \<le> length (fs_content (xf_dev t))"
    "mbedtls_sha256 lib (take (nat (meta_size m)) (fs_content (xf_dev t))) = meta_hash m"
    by (auto simp: verified_def)
  moreover have "fsys_writable fsy path"
    using op f by (auto simp: receive_file_open_def open_in_out_def Let_def split: if_splits option.splits)
  ultimately show ?thesis using t(2)
    by (intro exI [of _ "xf_dev t"]) (simp add: d receive_file_close_def posix_truncate_def)
qed

lemma receive_file_frame:
  assumes "receive_file_flush lib std api flush opts path om st = Some (ec, m, st')" and "p \<noteq> path"
  shows "fsys_files (xf_dev st') p = fsys_files (xf_dev st) p"
proof -
  obtain resume f fsy where op: "receive_file_open path (xf_dev st) = (resume, f, fsy)" by (metis prod_cases3)
  then have "fsys_files fsy p = fsys_files (xf_dev st) p"
    using assms(2) by (auto simp: receive_file_open_def open_trunc_close_def Let_def split: if_splits option.splits)
  moreover have "fsys_files (receive_file_close flush path e mm x fsy) p = fsys_files fsy p" for e mm x
    using assms(2) by (auto simp: receive_file_close_def posix_truncate_def Let_def split: option.splits)
  ultimately show ?thesis using assms(1) op by (auto simp: receive_file_flush_def split: option.splits)
qed

section \<open>A connection as its caller sees it\<close>

text \<open>
  What a connection is to the one caller that sends and receives on it: the messages that arrive, in
  order, and the error after the last; whether it still takes messages, and those it has taken.
  \<open>Tdx_Transfer_Conn\<close> shows that the calls of the connection machine do just this.
\<close>

record conn_view =
  cv_in :: "bytes list"
  cv_err :: error_code
  cv_closed :: bool
  cv_out :: "bytes list"
  cv_max :: int

definition view_send :: "bytes \<Rightarrow> conn_view \<Rightarrow> error_code \<times> conn_view" where
  "view_send b c =
    (if cv_closed c then (DuplexEc errc_closed, c)
     else if int_of_size (length b) > cv_max c then (DuplexEc errc_message_too_large, c)
     else (NoError, c\<lparr>cv_out := cv_out c @ [b]\<rparr>))"

definition view_receive :: "conn_view \<Rightarrow> (error_code + bytes) \<times> conn_view" where
  "view_receive c =
    (case cv_in c of
       b # q \<Rightarrow> (Inr b, c\<lparr>cv_in := q\<rparr>)
     | [] \<Rightarrow> (Inl (if ec_fails (cv_err c) then cv_err c else DuplexEc errc_closed), c))"

definition view_api :: "conn_view msg_conn" where
  "view_api = \<lparr>mc_send = view_send, mc_receive = view_receive, mc_max_message_bytes = cv_max\<rparr>"

interpretation view: message_conn view_api
  by unfold_locales (auto simp: view_api_def view_receive_def ec_simps split: list.splits if_splits)

definition demo_meta :: meta where
  "demo_meta = \<lparr>meta_id = replicate 16 1, meta_name = ''f'', meta_size = 2, meta_hash = pad32 [7, 8]\<rparr>"

definition demo_fs :: file_system where
  "demo_fs = \<lparr>fsys_files = Map.empty, fsys_readable = (\<lambda>_. True), fsys_writable = (\<lambda>_. True), fsys_room = 100\<rparr>"

definition demo_inbox :: "bytes list" where
  "demo_inbox = [encode_frame (Offer demo_meta), encode_chunk (replicate 16 1) 0 [7],
     encode_chunk (replicate 16 1) 1 [8], encode_done (replicate 16 1) True (pad32 [7, 8])]"

definition demo_view :: conn_view where
  "demo_view = \<lparr>cv_in = demo_inbox, cv_err = NoError, cv_closed = False, cv_out = [], cv_max = 100\<rparr>"

definition demo_receive :: "(fstream \<Rightarrow> bytes) \<Rightarrow> (error_code \<times> meta \<times> (conn_view, file_system, unit) xfer) option" where
  "demo_receive flush = receive_file_flush demo_lib (\<lambda>_. []) view_api flush None ''d'' default_meta
     \<lparr>xf_conn = demo_view, xf_dev = demo_fs, xf_progress = [], xf_world = ()\<rparr>"

text \<open>With a \<open>close\<close> that writes out everything, and with one that loses all but the first byte.\<close>

definition lossy :: "fstream \<Rightarrow> bytes" where
  "lossy f = take 1 (fs_content f)"

lemma demo_receive_result:
  "case demo_receive fs_content of None \<Rightarrow> False
   | Some (ec, m, st) \<Rightarrow> ec = NoError \<and> m = demo_meta \<and> fsys_files (xf_dev st) ''d'' = Some [7, 8]"
  "case demo_receive lossy of None \<Rightarrow> False
   | Some (ec, m, st) \<Rightarrow> ec = NoError \<and> m = demo_meta \<and> fsys_files (xf_dev st) ''d'' = Some [7, 0]"
  by code_simp+

end
