(* ===== verification/Tdx_Transfer_Pair.thy ===== *)
theory Tdx_Transfer_Pair
  imports Tdx_Transfer_Recv
begin

text \<open>
  A sender and a receiver running against each other. The connection between them is the pair of
  message queues that the end-to-end theorem of the connection justifies: what one end sends, the
  other receives, in order. Every interleaving of the two routines is a sequence of actions; an
  action hands the oldest undelivered message to the routine that waits for it, which runs the code
  up to its next \<open>receive\<close>.
\<close>

section \<open>The system\<close>

text \<open>An endpoint as the list of the messages sent and not yet delivered.\<close>

definition outbox_api :: "int \<Rightarrow> bytes list msg_conn" where
  "outbox_api mx =
    \<lparr>mc_send = (\<lambda>b q. if int (length b) > mx then (DuplexEc errc_message_too_large, q) else (NoError, q @ [b])),
     mc_receive = (\<lambda>q. (Inl (DuplexEc errc_closed), q)),
     mc_max_message_bytes = (\<lambda>_. mx)\<rparr>"

record ('d, 'e, 'h, 'r, 'w) pair_env =
  pe_lib :: "('h, 'r) crypto_lib"
  pe_std :: "error_code \<Rightarrow> string"
  pe_max :: int
  pe_src :: "'d reader_at"
  pe_sopts :: "(bytes list, 'w) Options"
  pe_meta :: meta
  pe_snk :: "'e writer_at"
  pe_ropts :: "(bytes list, 'w) Options"
  pe_resume :: int

record ('d, 'e, 'h) pair =
  pr_tx :: "(bytes list, 'd) tx"
  pr_rx :: "(bytes list, 'e, 'h) rx"

datatype pair_act = To_receiver | To_sender

definition pair_start :: "('d, 'e, 'h, 'r, 'w) pair_env \<Rightarrow> 'd \<Rightarrow> 'e \<Rightarrow> ('d, 'e, 'h) pair" where
  "pair_start env d e =
    \<lparr>pr_tx = send_start (outbox_api (pe_max env)) (pe_sopts env) (pe_meta env)
       \<lparr>tx_conn = [], tx_src = d, tx_chunk_size = 0, tx_progress = [], tx_phase = SndAccept\<rparr>,
     pr_rx = \<lparr>rx_conn = [], rx_dst = e, rx_progress = [], rx_out_meta = default_meta,
       rx_written_out = pe_resume env, rx_phase = RcvOffer\<rparr>\<rparr>"

fun sender_waits :: "snd_phase \<Rightarrow> bool" where
  "sender_waits (SndRet ec) = False"
| "sender_waits ph = True"

fun receiver_waits :: "'h rcv_phase \<Rightarrow> bool" where
  "receiver_waits (RcvRet ec) = False"
| "receiver_waits ph = True"

text \<open>The oldest message on its way to a routine that waits for one.\<close>

fun deliver_to_receiver ::
  "('d, 'e, 'h, 'r, 'w) pair_env \<Rightarrow> bytes list \<Rightarrow> ('d, 'e, 'h) pair \<Rightarrow> ('d, 'e, 'h) pair option" where
  "deliver_to_receiver env [] s = None"
| "deliver_to_receiver env (msg # q) s =
    (if receiver_waits (rx_phase (pr_rx s)) then
       Some \<lparr>pr_tx = (pr_tx s)\<lparr>tx_conn := q\<rparr>,
             pr_rx = receive_on_msg (pe_lib env) (pe_std env) (outbox_api (pe_max env)) (pe_snk env)
               (pe_ropts env) (pe_resume env) False default_meta (rx_phase (pr_rx s)) (Inr msg) (pr_rx s)\<rparr>
     else None)"

fun deliver_to_sender ::
  "('d, 'e, 'h, 'r, 'w) pair_env \<Rightarrow> bytes list \<Rightarrow> ('d, 'e, 'h) pair \<Rightarrow> ('d, 'e, 'h) pair option" where
  "deliver_to_sender env [] s = None"
| "deliver_to_sender env (msg # q) s =
    (if sender_waits (tx_phase (pr_tx s)) then
       Some \<lparr>pr_tx = send_on_msg (outbox_api (pe_max env)) (pe_src env) (pe_sopts env) (pe_meta env)
               (tx_phase (pr_tx s)) (Inr msg) (pr_tx s),
             pr_rx = (pr_rx s)\<lparr>rx_conn := q\<rparr>\<rparr>
     else None)"

fun pair_exec ::
  "('d, 'e, 'h, 'r, 'w) pair_env \<Rightarrow> pair_act \<Rightarrow> ('d, 'e, 'h) pair \<Rightarrow> ('d, 'e, 'h) pair option" where
  "pair_exec env To_receiver s = deliver_to_receiver env (tx_conn (pr_tx s)) s"
| "pair_exec env To_sender s = deliver_to_sender env (rx_conn (pr_rx s)) s"

fun pair_run ::
  "('d, 'e, 'h, 'r, 'w) pair_env \<Rightarrow> pair_act list \<Rightarrow> ('d, 'e, 'h) pair \<Rightarrow> ('d, 'e, 'h) pair option" where
  "pair_run env [] s = Some s"
| "pair_run env (a # as) s = Option.bind (pair_exec env a s) (pair_run env as)"

section \<open>Chunks\<close>

lemma effective_chunk_size_bounds:
  assumes "30 \<le> mx"
  shows "1 \<le> effective_chunk_size mx want \<and> effective_chunk_size mx want + 29 \<le> mx"
  using assms by (auto simp: effective_chunk_size_def kChunkOverhead_def frame_len_defs Let_def)

lemma outbox_send [simp]:
  "int (length b) \<le> mx \<Longrightarrow> mc_send (outbox_api mx) b q = (NoError, q @ [b])"
  "mc_max_message_bytes (outbox_api mx) q = mx"
  by (simp_all add: outbox_api_def)

text \<open>An honest transfer: what both sides agree on, and what they work with.\<close>

locale transfer_pair =
  src: live_source r scont sus + snk: live_sink w dcont dus room rdr + crypto_api lib
  for r :: "'d reader_at" and scont sus and w :: "'e writer_at" and dcont dus room rdr
    and lib :: "('h, 'r) crypto_lib" +
  fixes std :: "error_code \<Rightarrow> string" and mx :: int and so ro :: "(bytes list, 'w) Options"
    and m :: meta and resume :: int and data :: bytes
  assumes id16: "length (meta_id m) = 16"
    and size: "meta_size m = int (length data)" and size63: "int (length data) < 2 ^ 63"
    and hash: "meta_hash m = mbedtls_sha256 lib data"
    and name: "length (meta_name m) \<le> 0xffff" and fits: "63 + int (length (meta_name m)) \<le> mx"
    and window: "1 \<le> window so" "window so < 2 ^ 31" and every: "1 \<le> ack_every ro"
    and res: "0 \<le> resume" "resume \<le> int (length data)"
    and accepts: "case accept_cb ro of None \<Rightarrow> True | Some accept \<Rightarrow> \<not> ec_fails (accept m)"
    and enough: "length data \<le> room"
begin

definition cs :: int where "cs = effective_chunk_size mx (chunk_size so)"

definition off :: "nat \<Rightarrow> int" where "off i = min (int (length data)) (resume + int i * cs)"

definition chunks :: nat where "chunks = nat ((int (length data) - resume + cs - 1) div cs)"

definition piece :: "nat \<Rightarrow> bytes" where
  "piece i = take (nat (off (Suc i)) - nat (off i)) (drop (nat (off i)) data)"

definition chunk :: "nat \<Rightarrow> bytes" where "chunk i = encode_chunk (meta_id m) (off i) (piece i)"

definition ack :: "nat \<Rightarrow> bytes" where "ack i = encode_ack (meta_id m) (off i)"

definition hw :: "int \<Rightarrow> 'h hashing_writer" where
  "hw n = \<lparr>hw_offset = n, hw_ctx = sha256_update lib (take (nat n) data) (sha256_starts lib)\<rparr>"

abbreviation api :: "bytes list msg_conn" where "api \<equiv> outbox_api mx"

lemma cs: "1 \<le> cs" "cs + 29 \<le> mx"
  using effective_chunk_size_bounds [of mx "chunk_size so"] fits by (auto simp: cs_def)

lemma off_0 [simp]: "off 0 = resume" using res by (simp add: off_def)

lemma off_bounds: "0 \<le> off i" "off i \<le> int (length data)" "resume \<le> off i"
  using res cs by (auto simp: off_def)

lemma chunks_iff: "i < chunks \<longleftrightarrow> resume + int i * cs < int (length data)"
  using ceil_div_less [of cs "int i" "int (length data) - resume"] cs
  by (auto simp: chunks_def zless_nat_eq_int_zless)

lemma off_less: "i < chunks \<Longrightarrow> off i = resume + int i * cs \<and> off i < int (length data)"
  by (simp add: chunks_iff off_def)

lemma off_end: "chunks \<le> i \<Longrightarrow> off i = int (length data)"
  using chunks_iff [of i] by (simp add: off_def)

lemma off_Suc:
  "i < chunks \<Longrightarrow> off (Suc i) = off i + (if off i + cs > int (length data) then int (length data) - off i else cs)"
  by (auto simp: off_less) (auto simp: off_def algebra_simps)

lemma off_mono: "i \<le> j \<Longrightarrow> off i \<le> off j"
  using cs by (auto simp: off_def min_def intro!: mult_right_mono)
    (smt (verit) mult_right_mono of_nat_le_iff)

lemma length_piece: "int (length (piece i)) = off (Suc i) - off i"
  using off_bounds [of i] off_bounds [of "Suc i"] off_mono [of i "Suc i"] by (simp add: piece_def)

lemma off_Suc_gt: "i < chunks \<Longrightarrow> off i < off (Suc i)"
  using cs off_less [of i] by (auto simp: off_Suc)

lemma off_strict: "i < j \<Longrightarrow> i < chunks \<Longrightarrow> off i < off j"
  using off_Suc_gt [of i] off_mono [of "Suc i" j] by simp

lemma in_flight:
  assumes "a \<le> j" and "j \<le> chunks" and "int (j - a) < 2 ^ 31"
  shows "count_in_flight (off a) (off j) cs = int (j - a)"
proof (cases "a = j")
  case False
  then have aj: "a < j" "a < chunks" using assms by auto
  have "(off j - off a + cs - 1) div cs = int (j - a)"
  proof (rule ceil_div_eq)
    have "off (j - 1) < off j" "off (j - 1) = resume + int (j - 1) * cs" "off a = resume + int a * cs"
      using aj assms(2) off_less [of "j - 1"] off_less [of a] off_Suc_gt [of "j - 1"] by auto
    then show "(int (j - a) - 1) * cs < off j - off a" using aj by (simp add: algebra_simps of_nat_diff)
    show "off j - off a \<le> int (j - a) * cs"
      using \<open>off a = _\<close> aj by (auto simp: off_def algebra_simps of_nat_diff)
  qed (use cs in simp)
  with off_strict [OF aj] assms(3) show ?thesis
    by (simp add: count_in_flight_def int_of_size_small)
qed (simp add: count_in_flight_def)

text \<open>The frames of the exchange decode to what was encoded.\<close>

lemma in_i64_off: "in_i64 (off i)"
  using off_bounds [of i] size63 by (auto simp: in_i64_def)

lemma decode_frames:
  "decode_frame (chunk i) = Inr (decoded_of (Chunk (meta_id m) (off i) (piece i)))"
  "decode_frame (ack i) = Inr (decoded_of (Ack (meta_id m) (off i)))"
  "decode_frame (encode_accept (meta_id m) resume) = Inr (decoded_of (Accept (meta_id m) resume))"
  "decode_frame (encode_done (meta_id m) ok (meta_hash m)) = Inr (decoded_of (Done (meta_id m) ok (meta_hash m)))"
  "decode_frame (offer_bytes m) = Inr (decoded_of (Offer m))"
  using decode_encode_frame [of "Chunk (meta_id m) (off i) (piece i)"]
    decode_encode_frame [of "Ack (meta_id m) (off i)"] decode_encode_frame [of "Accept (meta_id m) resume"]
    decode_encode_frame [of "Done (meta_id m) ok (meta_hash m)"] decode_encode_frame [of "Offer m"]
    id16 in_i64_off [of i] in_i64_off [of 0] hash sha_len size size63 name
  by (simp_all add: chunk_def ack_def sha_oneshot in_i64_def)

lemma lengths:
  "i < chunks \<Longrightarrow> int (length (chunk i)) \<le> mx" "int (length (ack i)) \<le> mx" "int (length (offer_bytes m)) \<le> mx"
  "int (length (encode_accept (meta_id m) resume)) \<le> mx"
  "int (length (encode_done (meta_id m) ok (meta_hash m))) \<le> mx"
  using length_piece [of i] off_Suc [of i] cs fits id16 hash sha_len
  by (auto simp: chunk_def ack_def encode_chunk_def encode_ack_def offer_bytes_def encode_accept_def
      encode_done_def kTransferMagic_def put_be16_def bytes_of_string_def sha_oneshot split: if_splits)

text \<open>Filling the window sends the chunks up to \<open>top a\<close>.\<close>

definition top :: "nat \<Rightarrow> nat" where "top a = min chunks (a + nat (window so))"

abbreviation src_ok :: "(bytes list, 'd) tx \<Rightarrow> bool" where
  "src_ok st \<equiv> tx_chunk_size st = cs \<and> sus (tx_src st) \<and> scont (tx_src st) = data"

lemma read_piece:
  assumes "i < chunks" and "sus d" and "scont d = data"
  shows "\<exists>d'. read_at r (off i) (nat (off (Suc i) - off i)) d = (Inr (piece i), d') \<and> sus d' \<and> scont d' = data"
proof -
  have le: "nat (off i) + nat (off (Suc i) - off i) \<le> length (scont d)"
    using off_bounds [of i] off_bounds [of "Suc i"] off_mono [of i "Suc i"] assms(3) by simp
  obtain b d' where rd: "read_at r (off i) (nat (off (Suc i) - off i)) d = (Inr b, d')" "sus d'"
    using src.read_inside [OF assms(2) off_bounds(1) le] by blast
  moreover have "b = piece i"
    using src.read_sound [OF rd(1) off_bounds(1)] assms(3) by (simp add: piece_def nat_diff_distrib' off_bounds)
  ultimately show ?thesis using src.read_keeps [OF rd(1)] assms(3) by auto
qed

lemma send_fill_window:
  assumes "a \<le> j" and "j \<le> top a" and "src_ok st"
  shows "\<exists>d'. sus d' \<and> scont d' = data \<and> send_fill api r so m (off a) (off j) st =
    (Some (off (top a)), st\<lparr>tx_src := d', tx_conn := tx_conn st @ map chunk [j..<top a]\<rparr>)"
  using assms
proof (induction "top a - j" arbitrary: j st)
  case 0
  then have j: "j = top a" by simp
  have "\<not> (count_in_flight (off a) (off j) cs < window so \<and> off j < meta_size m)"
    using in_flight [of a j] 0(2-4) window off_end [of j] size by (auto simp: j top_def min_def split: if_splits)
  with 0(4) j show ?case
    by (intro exI [of _ "tx_src st"], subst send_fill.simps) auto
next
  case (Suc n)
  then have j: "j < chunks" "j < a + nat (window so)" by (auto simp: top_def)
  have go: "1 \<le> tx_chunk_size st \<and> count_in_flight (off a) (off j) (tx_chunk_size st) < window so \<and> off j < meta_size m"
    using in_flight [of a j] Suc(3,5) j window cs off_less [OF j(1)] size by auto
  have n: "(if off j + tx_chunk_size st > meta_size m then meta_size m - off j else tx_chunk_size st) =
      off (Suc j) - off j"
    using off_Suc [OF j(1)] Suc(5) size by simp
  obtain d' where rd: "read_at r (off j) (nat (off (Suc j) - off j)) (tx_src st) = (Inr (piece j), d')"
    "sus d'" "scont d' = data"
    using read_piece [OF j(1)] Suc(5) by blast
  let ?st = "st\<lparr>tx_src := d', tx_conn := tx_conn st @ [chunk j]\<rparr>"
  have "n = top a - Suc j" "a \<le> Suc j" "Suc j \<le> top a" using Suc(2-4) by linarith+
  moreover have "src_ok ?st" using Suc(5) rd by simp
  ultimately obtain d2 where "sus d2" "scont d2 = data" and
    "send_fill api r so m (off a) (off (Suc j)) ?st =
      (Some (off (top a)), ?st\<lparr>tx_src := d2, tx_conn := tx_conn ?st @ map chunk [Suc j..<top a]\<rparr>)"
    using Suc(1) by blast
  moreover have "[j..<top a] = j # [Suc j..<top a]" using Suc(2) by (simp add: upt_conv_Cons)
  moreover have "send_fill api r so m (off a) (off j) st = send_fill api r so m (off a) (off (Suc j)) ?st"
    using go rd(1) lengths(1) [OF j(1)]
    by (subst send_fill.simps) (simp only: n if_True simp_thms Let_def, simp add: chunk_def [symmetric])
  ultimately show ?case by (intro exI [of _ d2]) simp
qed

section \<open>What the sender does\<close>

definition tx_is :: "(bytes list, 'd) tx \<Rightarrow> snd_phase \<Rightarrow> bytes list \<Rightarrow> bool" where
  "tx_is st ph q \<longleftrightarrow> tx_phase st = ph \<and> tx_conn st = q \<and> src_ok st"

abbreviation fin :: bytes where "fin \<equiv> encode_done (meta_id m) True (meta_hash m)"

lemma tx_report_keeps [simp]:
  "tx_phase (tx_report so x y st) = tx_phase st" "tx_conn (tx_report so x y st) = tx_conn st"
  "tx_src (tx_report so x y st) = tx_src st" "tx_chunk_size (tx_report so x y st) = tx_chunk_size st"
  by (simp_all add: tx_report_def)

lemma finish_send_is: "src_ok st \<Longrightarrow> tx_is (finish_send api m st) SndDone (tx_conn st @ [fin])"
  by (simp add: finish_send_def tx_is_def lengths)

lemma chunks_0: "chunks = 0 \<longleftrightarrow> resume = int (length data)"
  using chunks_iff [of 0] res by auto

lemma send_loop_moves:
  assumes "a < chunks" and "a \<le> j" and "j \<le> top a" and "src_ok st"
  shows "tx_is (send_loop api r so m (off a) (off j) st) (SndAck (off a) (off (top a)))
    (tx_conn st @ map chunk [j..<top a])"
proof -
  obtain d' where "sus d'" "scont d' = data" and "send_fill api r so m (off a) (off j) st =
    (Some (off (top a)), st\<lparr>tx_src := d', tx_conn := tx_conn st @ map chunk [j..<top a]\<rparr>)"
    using send_fill_window [OF assms(2-4)] by blast
  then show ?thesis using off_less [OF assms(1)] assms(4) size by (simp add: send_loop_def tx_is_def)
qed

lemma send_loop_ends:
  "src_ok st \<Longrightarrow> tx_is (send_loop api r so m (off chunks) x st) SndDone (tx_conn st @ [fin])"
  using finish_send_is by (simp add: send_loop_def off_end size)

lemma sender_on_accept:
  assumes "tx_is st SndAccept q"
  shows "tx_is (send_on_msg api r so m SndAccept (Inr (encode_accept (meta_id m) resume)) st)
    (if chunks = 0 then SndDone else SndAck (off 0) (off (top 0)))
    (q @ (if chunks = 0 then [fin] else map chunk [0..<top 0]))"
proof -
  let ?st = "tx_report so resume (meta_size m) st"
  have q: "tx_conn ?st = q" and ok: "src_ok ?st" using assms by (simp_all add: tx_is_def)
  have "send_on_msg api r so m SndAccept (Inr (encode_accept (meta_id m) resume)) st =
    (if resume = meta_size m then finish_send api m ?st else send_loop api r so m resume resume ?st)"
    using decode_frames(3) res size by (simp add: send_on_accept_def type_defs Let_def)
  with send_loop_moves [of 0 0 ?st] finish_send_is [OF ok] chunks_0 q ok size show ?thesis
    by (cases "chunks = 0") simp_all
qed

lemma sender_on_ack:
  assumes "tx_is st (SndAck (off a) (off (top a))) q" and "a < b" and "b \<le> top a"
  shows "tx_is (send_on_msg api r so m (SndAck (off a) (off (top a))) (Inr (ack b)) st)
    (if b < chunks then SndAck (off b) (off (top b)) else SndDone)
    (q @ (if b < chunks then map chunk [top a..<top b] else [fin]))"
proof -
  let ?st = "tx_report so (off b) (meta_size m) st"
  have q: "tx_conn ?st = q" and ok: "src_ok ?st" using assms by (simp_all add: tx_is_def)
  have b: "off a \<le> off b" "off b \<le> off (top a)" using off_mono assms(2,3) by auto
  have "send_on_msg api r so m (SndAck (off a) (off (top a))) (Inr (ack b)) st =
    send_loop api r so m (off b) (off (top a)) ?st"
    using decode_frames(2) [of b] b by (simp add: send_on_ack_def type_defs Let_def)
  moreover have "b = chunks" if "\<not> b < chunks" using that assms(3) by (simp add: top_def)
  moreover have "top a \<le> top b" using assms(2) by (simp add: top_def min_def)
  ultimately show ?thesis
    using send_loop_moves [of b "top a" ?st] send_loop_ends [of ?st "off (top a)"] assms(3) q ok by auto
qed

section \<open>What the receiver does\<close>

definition rx_is :: "(bytes list, 'e, 'h) rx \<Rightarrow> 'h rcv_phase \<Rightarrow> bytes list \<Rightarrow> bytes \<Rightarrow> bool" where
  "rx_is st ph q b \<longleftrightarrow> rx_phase st = ph \<and> rx_conn st = q \<and> dus (rx_dst st) \<and> dcont (rx_dst st) = b"

text \<open>Waiting for the next chunk after \<open>i\<close> of them, \<open>since\<close> not yet acknowledged.\<close>

definition rcv_ph :: "nat \<Rightarrow> nat \<Rightarrow> 'h rcv_phase" where
  "rcv_ph i since = (if i < chunks then RcvChunk m (hw (off i)) (off i) (int since)
     else RcvFinal m (hw (off i)) (off i))"

definition start_ph :: "'h rcv_phase" where
  "start_ph = (if chunks = 0 then RcvComplete m (meta_hash m) else rcv_ph 0 0)"

abbreviation on_msg :: "'h rcv_phase \<Rightarrow> bytes \<Rightarrow> (bytes list, 'e, 'h) rx \<Rightarrow> (bytes list, 'e, 'h) rx" where
  "on_msg ph msg st \<equiv> receive_on_msg lib std api w ro resume False default_meta ph (Inr msg) st"

lemma receiver_accepted:
  assumes "rx_is st ph q (take (nat resume) data)"
  shows "rx_is (receive_accepted lib std api w resume m st) start_ph q (take (nat resume) data)"
proof (cases "chunks = 0")
  case True
  then have r: "meta_size m = resume" "take (nat resume) data = data" "dcont (rx_dst st) = data" "dus (rx_dst st)"
    using chunks_0 size assms by (simp_all add: rx_is_def)
  obtain d' where "hash_reader lib rdr resume (rx_dst st) = (Inr (meta_hash m), d')" "dcont d' = data" "dus d'"
    using live_source.hash_reader_total [OF snk.read_live crypto_api_axioms r(4) res(1)] res(2)
    unfolding r(3) r(2) hash by (simp only: nat_le_iff) blast
  with True r assms snk.readable show ?thesis
    by (simp add: receive_accepted_def rx_is_def start_ph_def)
next
  case False
  then have ne: "resume \<noteq> meta_size m" "resume < meta_size m" using chunks_0 size res by simp_all
  obtain d' where "HashingWriter_init lib w resume (rx_dst st) = (Inr (hw resume), d')" "dus d'"
    "dcont d' = take (nat resume) data"
    using snk.HashingWriter_init_total [OF crypto_api_axioms, of "rx_dst st" resume] assms res
    by (auto simp: rx_is_def hw_def)
  with ne False assms show ?thesis
    by (simp add: receive_accepted_def receive_loop_def rx_is_def start_ph_def rcv_ph_def)
qed

lemma receiver_on_offer:
  assumes "rx_is st RcvOffer q (take (nat resume) data)"
  shows "rx_is (on_msg RcvOffer (offer_bytes m) st) start_ph (q @ [encode_accept (meta_id m) resume])
    (take (nat resume) data)"
proof -
  let ?st = "(rx_report ro resume (meta_size m)
    (st\<lparr>rx_conn := rx_conn st @ [encode_accept (meta_id m) resume]\<rparr>))\<lparr>rx_out_meta := m\<rparr>"
  have "on_msg RcvOffer (offer_bytes m) st = receive_accepted lib std api w resume m ?st"
    using decode_frames(5) res size accepts lengths(4)
    by (simp add: receive_on_offer_def type_defs Let_def rx_send_def default_decoded_def split: option.splits)
  with receiver_accepted [of ?st] assms show ?thesis by (simp add: rx_is_def)
qed

lemma take_piece: "i < chunks \<Longrightarrow> take (nat (off i)) data @ piece i = take (nat (off (Suc i))) data"
  using take_drop_adjacent [of 0 "nat (off i)" "nat (off (Suc i))" data] off_mono [of i "Suc i"] off_bounds [of i]
  by (simp add: piece_def nat_mono)

definition acks :: "nat \<Rightarrow> nat \<Rightarrow> bool" where
  "acks i since \<longleftrightarrow> ack_every ro \<le> int since \<or> i = chunks"

lemma receiver_on_chunk:
  assumes "rx_is st (rcv_ph i since) q (take (nat (off i)) data)" and "i < chunks"
  shows "rx_is (on_msg (rcv_ph i since) (chunk i) st)
    (rcv_ph (Suc i) (if acks (Suc i) (Suc since) then 0 else Suc since))
    (q @ (if acks (Suc i) (Suc since) then [ack (Suc i)] else [])) (take (nat (off (Suc i))) data)"
proof -
  have len: "nat (off i) = length (dcont (rx_dst st))" using assms(1) off_bounds [of i] by (simp add: rx_is_def)
  have n: "off i + int (length (piece i)) = off (Suc i)" using length_piece by simp
  have "length (dcont (rx_dst st)) + length (piece i) \<le> room"
    using len n off_bounds [of i] off_bounds(2) [of "Suc i"] enough by linarith
  then obtain d' where wr: "HashingWriter_write_at lib w (piece i) (off i) (hw (off i)) (rx_dst st) =
      (NoError, hw (off (Suc i)), d')" and d': "dus d'" "dcont d' = take (nat (off (Suc i))) data"
    using snk.HashingWriter_write_total [OF crypto_api_axioms, of "rx_dst st" "off i" "piece i" "hw (off i)"]
      assms(1) len off_bounds [of i] n take_piece [OF assms(2)]
    by (auto simp: rx_is_def hw_def sha_stream)
  have "on_msg (rcv_ph i since) (chunk i) st =
    receive_stored api ro m (hw (off (Suc i))) (off (Suc i)) (int since) (st\<lparr>rx_dst := d'\<rparr>)"
    using decode_frames(1) [of i] assms(2) wr n off_bounds(2) [of "Suc i"] size
    by (simp add: rcv_ph_def receive_on_chunk_def type_defs Let_def)
  moreover have "off (Suc i) = meta_size m \<longleftrightarrow> Suc i = chunks" "off (Suc i) < meta_size m \<longleftrightarrow> Suc i < chunks"
    using off_less [of "Suc i"] off_end [of "Suc i"] assms(2) size by fastforce+
  ultimately show ?thesis
    using d' assms lengths(2) [of "Suc i"]
    by (simp add: receive_stored_def rx_send_def receive_loop_def rx_is_def rcv_ph_def acks_def ack_def Let_def)
qed

lemma receiver_on_done:
  assumes "rx_is st ph q data" and "ph = start_ph \<and> chunks = 0 \<or> ph = rcv_ph chunks 0"
  shows "rx_is (on_msg ph fin st) (RcvRet NoError) (q @ [fin]) data"
proof -
  let ?st = "st\<lparr>rx_written_out := int (length data)\<rparr>"
  have sum: "HashingWriter_sum lib (hw (int (length data))) = meta_hash m"
    by (simp add: HashingWriter_sum_def hw_def hash sha_oneshot)
  have "on_msg ph fin st = receive_on_done api m (int (length data)) (meta_hash m) (Inr fin) st"
    using assms(2) chunks_0 sum by (auto simp: start_ph_def rcv_ph_def off_end)
  moreover have "done_ok m (decoded_of (Done (meta_id m) True (meta_hash m))) (meta_hash m)"
    by (simp add: done_ok_def Let_def)
  ultimately show ?thesis
    using decode_frames(4) [of True] lengths(5) [of True] assms(1)
    by (simp add: receive_on_done_def verify_and_ack_done_def rx_send_def rx_return_def rx_is_def type_defs Let_def)
qed

section \<open>The exchange\<close>

text \<open>
  Every reachable state, with the number of deliveries that remain at most: before and after the
  offer is answered; moving, where the sender has sent the chunks below \<open>top a\<close> and has seen the
  acknowledgement of \<open>a\<close>, the receiver has stored \<open>i\<close>, and \<open>l\<close> are acknowledgements under way; and the
  final exchange.
\<close>

inductive pair_inv :: "('d, 'e, 'h) pair \<Rightarrow> nat \<Rightarrow> bool" where
  offered: "tx_is t SndAccept [offer_bytes m] \<Longrightarrow> rx_is x RcvOffer [] (take (nat resume) data) \<Longrightarrow>
    pair_inv \<lparr>pr_tx = t, pr_rx = x\<rparr> (2 * chunks + 4)"
| accepted: "tx_is t SndAccept [] \<Longrightarrow>
    rx_is x start_ph [encode_accept (meta_id m) resume] (take (nat resume) data) \<Longrightarrow>
    pair_inv \<lparr>pr_tx = t, pr_rx = x\<rparr> (2 * chunks + 3)"
| moving: "tx_is t (SndAck (off a) (off (top a))) (map chunk [i..<top a]) \<Longrightarrow>
    rx_is x (rcv_ph i since) (map ack l) (take (nat (off i)) data) \<Longrightarrow>
    a < chunks \<Longrightarrow> i \<le> top a \<Longrightarrow> sorted_wrt (<) (a # l) \<Longrightarrow> last (a # l) + since = i \<Longrightarrow>
    int since < ack_every ro \<Longrightarrow> (i = chunks \<Longrightarrow> since = 0) \<Longrightarrow>
    pair_inv \<lparr>pr_tx = t, pr_rx = x\<rparr> (2 * (chunks - i) + length l + 2)"
| finishing: "tx_is t SndDone [fin] \<Longrightarrow> rx_is x ph [] data \<Longrightarrow>
    ph = start_ph \<and> chunks = 0 \<or> ph = rcv_ph chunks 0 \<Longrightarrow> pair_inv \<lparr>pr_tx = t, pr_rx = x\<rparr> 2"
| replied: "tx_is t SndDone [] \<Longrightarrow> rx_is x (RcvRet NoError) [fin] data \<Longrightarrow>
    pair_inv \<lparr>pr_tx = t, pr_rx = x\<rparr> 1"
| finished: "tx_is t (SndRet NoError) [] \<Longrightarrow> rx_is x (RcvRet NoError) [] data \<Longrightarrow>
    pair_inv \<lparr>pr_tx = t, pr_rx = x\<rparr> 0"

definition env :: "('d, 'e, 'h, 'r, 'w) pair_env" where
  "env = \<lparr>pe_lib = lib, pe_std = std, pe_max = mx, pe_src = r, pe_sopts = so, pe_meta = m,
     pe_snk = w, pe_ropts = ro, pe_resume = resume\<rparr>"

lemma start_is:
  assumes "sus d" "scont d = data" and "dus e" "dcont e = take (nat resume) data"
  shows "\<exists>t x. pair_start env d e = \<lparr>pr_tx = t, pr_rx = x\<rparr> \<and> tx_is t SndAccept [offer_bytes m] \<and>
    rx_is x RcvOffer [] (take (nat resume) data)"
proof -
  let ?s = "pair_start env d e"
  have "encode_offer m = Inr (offer_bytes m)"
    using size name by (simp add: encode_offer_def offer_bytes_def)
  then have "tx_is (pr_tx ?s) SndAccept [offer_bytes m]" "rx_is (pr_rx ?s) RcvOffer [] (take (nat resume) data)"
    by (simp_all add: pair_start_def env_def send_start_def tx_is_def rx_is_def lengths assms cs_def)
  then show ?thesis by (intro exI [of _ "pr_tx ?s"] exI [of _ "pr_rx ?s"]) simp
qed

lemma start_inv:
  assumes "sus d" "scont d = data" and "dus e" "dcont e = take (nat resume) data"
  shows "pair_inv (pair_start env d e) (2 * chunks + 4)"
  using start_is [OF assms] by (auto intro: offered)

lemma tx_is_conn: "tx_is t ph q \<Longrightarrow> tx_is (t\<lparr>tx_conn := q'\<rparr>) ph q'"
  by (simp add: tx_is_def)

lemma rx_is_conn: "rx_is x ph q b \<Longrightarrow> rx_is (x\<lparr>rx_conn := q'\<rparr>) ph q' b"
  by (simp add: rx_is_def)

lemma is_phase: "tx_is t ph q \<Longrightarrow> tx_phase t = ph" "rx_is x ph' q' b \<Longrightarrow> rx_phase x = ph'"
  by (simp_all add: tx_is_def rx_is_def)

lemma is_content: "rx_is x ph q b \<Longrightarrow> dcont (rx_dst x) = b"
  by (simp add: rx_is_def)

lemma waits [simp]: "receiver_waits start_ph" "receiver_waits (rcv_ph i since)"
  by (simp_all add: start_ph_def rcv_ph_def)

lemma sorted_last: "sorted_wrt (<) xs \<Longrightarrow> x \<in> set xs \<Longrightarrow> x \<le> last xs" for x :: nat
  by (induction xs) (auto simp: order.strict_implies_order)

lemma inv_less: "pair_inv s' n' \<Longrightarrow> n' < n \<Longrightarrow> \<exists>n'<n. pair_inv s' n'"
  by blast

lemma exec_receiver:
  "tx_is t ph (msg # q) \<Longrightarrow> rx_is x ph' q' b \<Longrightarrow> receiver_waits ph' \<Longrightarrow>
   pair_exec env To_receiver \<lparr>pr_tx = t, pr_rx = x\<rparr> = Some \<lparr>pr_tx = t\<lparr>tx_conn := q\<rparr>, pr_rx = on_msg ph' msg x\<rparr>"
  "tx_is t ph [] \<Longrightarrow> pair_exec env To_receiver \<lparr>pr_tx = t, pr_rx = x\<rparr> = None"
  by (simp_all add: tx_is_def rx_is_def env_def)

lemma exec_sender:
  "tx_is t ph q \<Longrightarrow> rx_is x ph' (msg # q') b \<Longrightarrow> sender_waits ph \<Longrightarrow>
   pair_exec env To_sender \<lparr>pr_tx = t, pr_rx = x\<rparr> =
     Some \<lparr>pr_tx = send_on_msg api r so m ph (Inr msg) t, pr_rx = x\<lparr>rx_conn := q'\<rparr>\<rparr>"
  "rx_is x ph' [] b \<Longrightarrow> pair_exec env To_sender \<lparr>pr_tx = t, pr_rx = x\<rparr> = None"
  by (simp_all add: tx_is_def rx_is_def env_def)

declare pair_exec.simps [simp del]

text \<open>Delivery to the receiver.\<close>

lemma moving_receiver:
  assumes "tx_is t (SndAck (off a) (off (top a))) (map chunk [i..<top a])"
    and "rx_is x (rcv_ph i since) (map ack l) (take (nat (off i)) data)"
    and "a < chunks" and "i < top a" and "sorted_wrt (<) (a # l)" and "last (a # l) + since = i"
    and "int since < ack_every ro"
  shows "\<exists>n' < 2 * (chunks - i) + length l + 2.
    pair_inv \<lparr>pr_tx = t\<lparr>tx_conn := map chunk [Suc i..<top a]\<rparr>, pr_rx = on_msg (rcv_ph i since) (chunk i) x\<rparr> n'"
proof -
  have i: "i < chunks" using assms(4) by (simp add: top_def)
  have tx: "tx_is (t\<lparr>tx_conn := map chunk [Suc i..<top a]\<rparr>) (SndAck (off a) (off (top a))) (map chunk [Suc i..<top a])"
    by (rule tx_is_conn [OF assms(1)])
  note rx = receiver_on_chunk [OF assms(2) i]
  show ?thesis
  proof (cases "acks (Suc i) (Suc since)")
    case True
    have "sorted_wrt (<) (a # l @ [Suc i])" "last (a # l @ [Suc i]) = Suc i"
      using assms(5,6) sorted_last [OF assms(5)] by (auto simp: sorted_wrt_append less_Suc_eq_le trans_le_add1)
    with True rx i assms(3,4) every have "pair_inv \<lparr>pr_tx = t\<lparr>tx_conn := map chunk [Suc i..<top a]\<rparr>,
        pr_rx = on_msg (rcv_ph i since) (chunk i) x\<rparr> (2 * (chunks - Suc i) + length (l @ [Suc i]) + 2)"
      by (intro moving [OF tx, of "on_msg (rcv_ph i since) (chunk i) x" 0]) auto
    with i show ?thesis by (intro exI conjI) auto
  next
    case False
    with rx i assms have "pair_inv \<lparr>pr_tx = t\<lparr>tx_conn := map chunk [Suc i..<top a]\<rparr>,
        pr_rx = on_msg (rcv_ph i since) (chunk i) x\<rparr> (2 * (chunks - Suc i) + length l + 2)"
      by (intro moving [OF tx, of "on_msg (rcv_ph i since) (chunk i) x" "Suc since"]) (auto simp: acks_def)
    with i show ?thesis by (intro exI conjI) auto
  qed
qed

lemma step_receiver:
  assumes "pair_inv s n" and "pair_exec env To_receiver s = Some s'"
  shows "\<exists>n'<n. pair_inv s' n'"
  using assms
proof (cases rule: pair_inv.cases)
  case (offered t x)
  from accepted [OF tx_is_conn [OF offered(3)] receiver_on_offer [OF offered(4), simplified]]
  show ?thesis using offered(1,2) assms(2) exec_receiver(1) [OF offered(3,4)] by (auto intro: inv_less)
next
  case (moving t a i x since l)
  show ?thesis
  proof (cases "i < top a")
    case True
    then have "map chunk [i..<top a] = chunk i # map chunk [Suc i..<top a]" by (simp add: upt_conv_Cons)
    with moving_receiver [OF moving(3-5) True moving(7-9)] moving(1,2) assms(2)
      exec_receiver(1) [OF _ moving(4), of t] moving(3) show ?thesis by auto
  next
    case False
    with moving assms(2) exec_receiver(2) [of t] show ?thesis by auto
  qed
next
  case (finishing t x ph)
  from replied [OF tx_is_conn [OF finishing(3)] receiver_on_done [OF finishing(4,5), simplified]]
  show ?thesis using finishing(1,2,5) assms(2) exec_receiver(1) [OF finishing(3,4)] by (auto intro: inv_less)
qed (use exec_receiver(2) in force)+

text \<open>Delivery to the sender.\<close>

lemma moving_sender:
  assumes "tx_is t (SndAck (off a) (off (top a))) (map chunk [i..<top a])"
    and "rx_is x (rcv_ph i since) (map ack (b # l)) (take (nat (off i)) data)"
    and "a < chunks" and "i \<le> top a" and "sorted_wrt (<) (a # b # l)" and "last (a # b # l) + since = i"
    and "int since < ack_every ro" and "i = chunks \<Longrightarrow> since = 0"
  shows "\<exists>n' < 2 * (chunks - i) + length (b # l) + 2.
    pair_inv \<lparr>pr_tx = send_on_msg api r so m (SndAck (off a) (off (top a))) (Inr (ack b)) t,
              pr_rx = x\<lparr>rx_conn := map ack l\<rparr>\<rparr> n'"
proof -
  have "b \<le> last (b # l)" using sorted_last [of "b # l" b] assms(5) by simp
  then have b: "a < b" "b \<le> i" using assms(5,6) by auto
  then have "b \<le> top a" using assms(4) by simp
  note tx = sender_on_ack [OF assms(1) b(1) this]
  have rx: "rx_is (x\<lparr>rx_conn := map ack l\<rparr>) (rcv_ph i since) (map ack l) (take (nat (off i)) data)"
    by (rule rx_is_conn [OF assms(2)])
  show ?thesis
  proof (cases "b < chunks")
    case True
    have "top a \<le> top b" using b by (auto simp: top_def)
    then have "[i..<top a] @ [top a..<top b] = [i..<top b]" using assms(4) by (metis le_Suc_ex upt_add_eq_append)
    with True tx have "tx_is (send_on_msg api r so m (SndAck (off a) (off (top a))) (Inr (ack b)) t)
        (SndAck (off b) (off (top b))) (map chunk [i..<top b])"
      by (simp flip: map_append)
    from moving [OF this rx] True assms \<open>top a \<le> top b\<close> show ?thesis by (intro inv_less) auto
  next
    case False
    then have "b = chunks" "i = chunks" "top a = chunks" using b assms(4) by (auto simp: top_def)
    moreover have "l = []" using calculation assms(4-6) sorted_last [of "b # l"] by (cases l) force+
    ultimately show ?thesis
      using tx rx False assms(8) finishing [of _ "x\<lparr>rx_conn := map ack l\<rparr>" "rcv_ph chunks 0"]
      by (intro inv_less [of _ 2]) (auto simp: off_end)
  qed
qed

lemma sender_on_done:
  assumes "tx_is t SndDone []"
  shows "tx_is (send_on_msg api r so m SndDone (Inr fin) t) (SndRet NoError) []"
  using assms decode_frames(4) [of True] by (simp add: finish_send_reply_def tx_return_def tx_is_def type_defs)

lemma step_sender:
  assumes "pair_inv s n" and "pair_exec env To_sender s = Some s'"
  shows "\<exists>n'<n. pair_inv s' n'"
  using assms
proof (cases rule: pair_inv.cases)
  case (accepted t x)
  note rx = rx_is_conn [OF accepted(4), of "[]"] and tx = sender_on_accept [OF accepted(3)]
  have ex: "s' = \<lparr>pr_tx = send_on_msg api r so m SndAccept (Inr (encode_accept (meta_id m) resume)) t,
      pr_rx = x\<lparr>rx_conn := []\<rparr>\<rparr>"
    using accepted(1) assms(2) exec_sender(1) [OF accepted(3,4)] by simp
  show ?thesis
  proof (cases "chunks = 0")
    case True
    then have "take (nat resume) data = data" using chunks_0 by simp
    with True tx rx accepted(2) show ?thesis
      unfolding ex by (intro inv_less [of _ 2]) (auto intro: finishing)
  next
    case False
    from tx False have tx': "tx_is (send_on_msg api r so m SndAccept (Inr (encode_accept (meta_id m) resume)) t)
        (SndAck (off 0) (off (top 0))) (map chunk [0..<top 0])" by simp
    have "pair_inv s' (2 * (chunks - 0) + length ([] :: nat list) + 2)"
      unfolding ex using rx False every by (intro moving [OF tx', where since = 0]) (auto simp: start_ph_def)
    with accepted(2) show ?thesis by (intro inv_less) auto
  qed
next
  case (moving t a i x since l)
  show ?thesis
  proof (cases l)
    case Nil
    with moving assms(2) exec_sender(2) [of x _ _ t] show ?thesis by auto
  next
    case (Cons b l')
    with moving assms(2) exec_sender(1) [OF moving(3), of x _ "ack b" "map ack l'"]
      moving_sender [OF moving(3) _ moving(5,6), of x since b l'] show ?thesis by auto
  qed
next
  case (replied t x)
  from finished [OF sender_on_done [OF replied(3)] rx_is_conn [OF replied(4)]]
  show ?thesis using replied(1,2) assms(2) exec_sender(1) [OF replied(3,4)] by (auto intro: inv_less)
qed (use exec_sender(2) in force)+

lemma step_inv: "pair_inv s n \<Longrightarrow> pair_exec env act s = Some s' \<Longrightarrow> \<exists>n'<n. pair_inv s' n'"
  using step_receiver step_sender by (cases act) auto

lemma run_inv:
  "pair_inv s n \<Longrightarrow> pair_run env acts s = Some s' \<Longrightarrow> \<exists>n'. pair_inv s' n' \<and> n' + length acts \<le> n"
proof (induction acts arbitrary: s n)
  case (Cons act acts)
  then obtain s1 where s1: "pair_exec env act s = Some s1" "pair_run env acts s1 = Some s'"
    by (auto simp: bind_eq_Some_conv)
  then obtain n1 where "n1 < n" "pair_inv s1 n1" using step_inv [OF Cons.prems(1)] by blast
  with Cons.IH [OF _ s1(2)] show ?case by fastforce
qed auto

text \<open>With an acknowledgement at least once per window, a message is always under way.\<close>

lemma progress:
  assumes "pair_inv s n" and "ack_every ro \<le> window so" and "0 < n"
  shows "\<exists>act s'. pair_exec env act s = Some s'"
  using assms(1)
proof (cases rule: pair_inv.cases)
  case (moving t a i x since l)
  show ?thesis
  proof (cases "i < top a")
    case True
    then have "map chunk [i..<top a] = chunk i # map chunk [Suc i..<top a]" by (simp add: upt_conv_Cons)
    with exec_receiver(1) [OF _ moving(4)] moving(1,3) show ?thesis by fastforce
  next
    case False
    then have "i = top a" using moving(6) by simp
    then have "l \<noteq> []" using moving(5,8,9,10) assms(2) by (auto simp: top_def min_def split: if_splits)
    then obtain b l' where "l = b # l'" by (cases l) auto
    with exec_sender(1) [OF moving(3)] moving(1,4) show ?thesis by fastforce
  qed
next
  case (offered t x) with exec_receiver(1) [OF offered(3,4)] show ?thesis by auto
next
  case (accepted t x) with exec_sender(1) [OF accepted(3,4)] show ?thesis by auto
next
  case (finishing t x ph)
  then have "receiver_waits ph" by auto
  from exec_receiver(1) [OF finishing(3,4) this] finishing(1) show ?thesis by blast
next
  case (replied t x) with exec_sender(1) [OF replied(3,4)] show ?thesis by auto
next
  case (finished t x) with assms(3) show ?thesis by simp
qed

text \<open>
  With fewer chunks in a window than between two acknowledgements, and more chunks than fit into one
  window: the receiver stores the first window and then both sides wait.
\<close>

definition stalling :: "('d, 'e, 'h) pair \<Rightarrow> nat \<Rightarrow> bool" where
  "stalling s n \<longleftrightarrow> (\<exists>t x. s = \<lparr>pr_tx = t, pr_rx = x\<rparr> \<and>
     (n = 0 \<and> tx_is t SndAccept [offer_bytes m] \<and> rx_is x RcvOffer [] (take (nat resume) data) \<or>
      n = 1 \<and> tx_is t SndAccept [] \<and> rx_is x start_ph [encode_accept (meta_id m) resume] (take (nat resume) data) \<or>
      (\<exists>i \<le> top 0. n = i + 2 \<and> tx_is t (SndAck (off 0) (off (top 0))) (map chunk [i..<top 0]) \<and>
         rx_is x (rcv_ph i i) [] (take (nat (off i)) data))))"

lemma start_stalling:
  assumes "sus d" "scont d = data" and "dus e" "dcont e = take (nat resume) data"
  shows "stalling (pair_start env d e) 0"
  using start_is [OF assms] unfolding stalling_def by blast

lemma stalling_step:
  assumes "window so < ack_every ro" and "nat (window so) < chunks" and "stalling s n"
    and "pair_exec env act s = Some s'"
  shows "stalling s' (Suc n)"
proof -
  obtain t x where s: "s = \<lparr>pr_tx = t, pr_rx = x\<rparr>" using assms(3) by (auto simp: stalling_def)
  have top: "top 0 = nat (window so)" using assms(2) by (simp add: top_def)
  consider (a) "n = 0" "tx_is t SndAccept [offer_bytes m]" "rx_is x RcvOffer [] (take (nat resume) data)"
    | (b) "n = 1" "tx_is t SndAccept []" "rx_is x start_ph [encode_accept (meta_id m) resume] (take (nat resume) data)"
    | (c) i where "i \<le> top 0" "n = i + 2" "tx_is t (SndAck (off 0) (off (top 0))) (map chunk [i..<top 0])"
        "rx_is x (rcv_ph i i) [] (take (nat (off i)) data)"
    using assms(3) s by (auto simp: stalling_def)
  then show ?thesis
  proof cases
    case a
    have "act = To_receiver" using exec_sender(2) [OF a(3)] assms(4) s by (cases act) auto
    with exec_receiver(1) [OF a(2,3)] assms(4) s tx_is_conn [OF a(2)] receiver_on_offer [OF a(3)] a(1)
    show ?thesis by (auto simp: stalling_def)
  next
    case b
    have "act = To_sender" using exec_receiver(2) [OF b(2)] assms(4) s by (cases act) auto
    with exec_sender(1) [OF b(2,3)] assms(2,4) s sender_on_accept [OF b(2)] rx_is_conn [OF b(3), of "[]"] b(1)
    show ?thesis by (auto simp: stalling_def start_ph_def)
  next
    case c
    have act: "act = To_receiver" using exec_sender(2) [OF c(4)] assms(4) s by (cases act) auto
    then have "i < top 0" using c(1,3) exec_receiver(2) [of t] assms(4) s by (cases "i = top 0") auto
    then have q: "map chunk [i..<top 0] = chunk i # map chunk [Suc i..<top 0]" and i: "i < chunks" "\<not> acks (Suc i) (Suc i)"
      using assms(1,2) top window by (auto simp: upt_conv_Cons acks_def)
    from receiver_on_chunk [OF c(4) i(1)] i(2) have "rx_is (on_msg (rcv_ph i i) (chunk i) x) (rcv_ph (Suc i) (Suc i)) []
      (take (nat (off (Suc i))) data)" by simp
    moreover have "s' = \<lparr>pr_tx = t\<lparr>tx_conn := map chunk [Suc i..<top 0]\<rparr>, pr_rx = on_msg (rcv_ph i i) (chunk i) x\<rparr>"
      using exec_receiver(1) [OF c(3) [unfolded q] c(4)] assms(4) s act by simp
    ultimately show ?thesis
      using tx_is_conn [OF c(3)] c(2) \<open>i < top 0\<close> unfolding stalling_def by (auto intro!: exI [of _ "Suc i"])
  qed
qed

lemma stalling_run:
  assumes "window so < ack_every ro" and "nat (window so) < chunks"
  shows "stalling s n \<Longrightarrow> pair_run env acts s = Some s' \<Longrightarrow> stalling s' (n + length acts)"
proof (induction acts arbitrary: s n)
  case (Cons act acts)
  then obtain s1 where s1: "pair_exec env act s = Some s1" "pair_run env acts s1 = Some s'"
    by (auto simp: bind_eq_Some_conv)
  from Cons.IH [OF stalling_step [OF assms Cons.prems(1) s1(1)] s1(2)] show ?case by simp
qed simp

lemma stalling_waits:
  assumes "stalling s n"
  shows "sender_waits (tx_phase (pr_tx s)) \<and> receiver_waits (rx_phase (pr_rx s))"
  using assms by (auto simp: stalling_def dest!: is_phase)

lemma stalling_end:
  assumes "nat (window so) < chunks" and "stalling s n"
  shows "n \<le> nat (window so) + 2 \<and> ((\<forall>act. pair_exec env act s = None) \<longleftrightarrow> n = nat (window so) + 2)"
proof -
  obtain t x where s: "s = \<lparr>pr_tx = t, pr_rx = x\<rparr>" using assms(2) by (auto simp: stalling_def)
  have top: "top 0 = nat (window so)" using assms(1) by (simp add: top_def)
  consider (a) "n = 0" "tx_is t SndAccept [offer_bytes m]" "rx_is x RcvOffer [] (take (nat resume) data)"
    | (b) "n = 1" "tx_is t SndAccept []" "rx_is x start_ph [encode_accept (meta_id m) resume] (take (nat resume) data)"
    | (c) i where "i \<le> top 0" "n = i + 2" "tx_is t (SndAck (off 0) (off (top 0))) (map chunk [i..<top 0])"
        "rx_is x (rcv_ph i i) [] (take (nat (off i)) data)"
    using assms(2) s by (auto simp: stalling_def)
  then show ?thesis
  proof cases
    case a
    with exec_receiver(1) [OF a(2,3)] s show ?thesis by (auto intro: exI [of _ To_receiver])
  next
    case b
    with exec_sender(1) [OF b(2,3)] s window show ?thesis by (auto intro: exI [of _ To_sender])
  next
    case c
    show ?thesis
    proof (cases "i = top 0")
      case True
      have "pair_exec env act s = None" for act
        using exec_sender(2) [OF c(4)] exec_receiver(2) [of t] c(3) True s by (cases act) auto
      with c True top show ?thesis by simp
    next
      case False
      then have "map chunk [i..<top 0] = chunk i # map chunk [Suc i..<top 0]" using c(1) by (simp add: upt_conv_Cons)
      with exec_receiver(1) [OF _ c(4)] c(1-3) False top s show ?thesis by (auto intro: exI [of _ To_receiver])
    qed
  qed
qed

text \<open>At every moment the sink holds a prefix; a routine that has returned has succeeded.\<close>

lemma inv_safe:
  assumes "pair_inv s n"
  shows "(\<exists>k. dcont (rx_dst (pr_rx s)) = take k data) \<and>
    (\<not> sender_waits (tx_phase (pr_tx s)) \<or> \<not> receiver_waits (rx_phase (pr_rx s)) \<longrightarrow>
       dcont (rx_dst (pr_rx s)) = data \<and> rx_phase (pr_rx s) = RcvRet NoError) \<and>
    (\<not> sender_waits (tx_phase (pr_tx s)) \<longrightarrow> tx_phase (pr_tx s) = SndRet NoError)"
  using assms
proof (cases rule: pair_inv.cases)
  case (finishing t x ph)
  then have "dcont (rx_dst x) = data" "receiver_waits ph"
    using is_content [OF finishing(4)] waits by (simp, metis)
  with finishing(1) is_phase(1) [OF finishing(3)] is_phase(2) [OF finishing(4)] show ?thesis
    by (auto intro: exI [of _ "length data"])
next
  case (moving t a i x since l)
  then have "dcont (rx_dst x) = take (nat (off i)) data" by (simp add: rx_is_def)
  with moving(1) is_phase(1) [OF moving(3)] is_phase(2) [OF moving(4)] show ?thesis by auto
next
  case (offered t x)
  then have "dcont (rx_dst x) = take (nat resume) data" by (simp add: rx_is_def)
  with offered(1) is_phase(1) [OF offered(3)] is_phase(2) [OF offered(4)] show ?thesis by auto
next
  case (accepted t x)
  then have "dcont (rx_dst x) = take (nat resume) data" by (simp add: rx_is_def)
  with accepted(1) is_phase(1) [OF accepted(3)] is_phase(2) [OF accepted(4)] show ?thesis by auto
next
  case (replied t x)
  then have "dcont (rx_dst x) = data" by (simp add: rx_is_def)
  with replied(1) is_phase(1) [OF replied(3)] is_phase(2) [OF replied(4)] show ?thesis
    by (auto intro: exI [of _ "length data"])
next
  case (finished t x)
  then have "dcont (rx_dst x) = data" by (simp add: rx_is_def)
  with finished(1) is_phase(1) [OF finished(3)] is_phase(2) [OF finished(4)] show ?thesis
    by (auto intro: exI [of _ "length data"])
qed

lemma inv_done:
  assumes "pair_inv s 0"
  shows "tx_phase (pr_tx s) = SndRet NoError \<and> rx_phase (pr_rx s) = RcvRet NoError \<and> dcont (rx_dst (pr_rx s)) = data"
  using assms
proof (cases rule: pair_inv.cases)
  case (finished t x)
  with is_content [OF finished(3)] is_phase(1) [OF finished(2)] is_phase(2) [OF finished(3)]
  show ?thesis by simp
next
  case (moving t a i x since l) from moving(2) show ?thesis by simp
next
  case (offered t x) from offered(2) show ?thesis by simp
next
  case (accepted t x) from accepted(2) show ?thesis by simp
qed (simp_all only: zero_neq_numeral zero_neq_one simp_thms)

end

end
