(* ===== verification/Tdx_Transfer_Term.thy ===== *)
theory Tdx_Transfer_Term
  imports Tdx_Transfer_Recv
begin

text \<open>
  Termination of \<open>send\<close> and \<open>receive\<close>, as far as it depends on the routines: every call of \<open>receive\<close>
  on the connection is taken to return, with a message or an error (a call that waits for ever on a
  silent peer is outside of this contract). Finitely many messages, whatever they are, cannot keep a
  routine in its loop: every \<open>receive\<close> that succeeds uses one up, and the first that fails makes the
  routine return. With the bound on the attempts, the public routines return too.
\<close>

locale finite_conn = message_conn +
  fixes pending :: "'a \<Rightarrow> nat"
  assumes receive_uses: "mc_receive api c = (Inr b, c') \<Longrightarrow> pending c' < pending c"
    and send_keeps: "mc_send api b c = (ec, c') \<Longrightarrow> pending c' \<le> pending c"
begin

section \<open>The sender\<close>

lemma finish_send_pending: "pending (tx_conn (finish_send api m st)) \<le> pending (tx_conn st)"
  using send_keeps by (auto simp: finish_send_def tx_return_def Let_def split: prod.splits)

lemma send_fill_pending:
  "send_fill api r opts m acked next_off st = (res, st') \<Longrightarrow> pending (tx_conn st') \<le> pending (tx_conn st)"
proof (induction "nat (meta_size m - next_off)" arbitrary: next_off st rule: less_induct)
  case less
  show ?case
  proof (cases "1 \<le> tx_chunk_size st \<and> count_in_flight acked next_off (tx_chunk_size st) < window opts \<and>
      next_off < meta_size m")
    case False
    with less.prems show ?thesis by (subst (asm) send_fill.simps) (auto split: if_splits)
  next
    case True
    define n where "n = (if next_off + tx_chunk_size st > meta_size m then meta_size m - next_off else tx_chunk_size st)"
    have dec: "nat (meta_size m - (next_off + n)) < nat (meta_size m - next_off)" using True by (auto simp: n_def)
    obtain rd d where rd: "read_at r next_off (nat n) (tx_src st) = (rd, d)" by fastforce
    show ?thesis
    proof (cases rd)
      case (Inl e)
      with True less.prems rd show ?thesis
        by (subst (asm) send_fill.simps) (auto simp: Let_def n_def tx_return_def)
    next
      case (Inr buf)
      obtain ec c where sn: "mc_send api (encode_chunk (meta_id m) next_off buf) (tx_conn st) = (ec, c)" by fastforce
      then have "(if ec_fails ec then (None, tx_return (map_conn_err ec) (st\<lparr>tx_src := d, tx_conn := c\<rparr>))
          else send_fill api r opts m acked (next_off + n) (st\<lparr>tx_src := d, tx_conn := c\<rparr>)) = (res, st')"
        using True less.prems rd Inr unfolding n_def
        by (subst (asm) send_fill.simps) (simp only: Let_def if_True prod.case sum.case, simp)
      with less.hyps [OF dec, of "st\<lparr>tx_src := d, tx_conn := c\<rparr>"] send_keeps [OF sn] show ?thesis
        by (fastforce simp: tx_return_def split: if_splits)
    qed
  qed
qed

lemma send_loop_pending: "pending (tx_conn (send_loop api r opts m acked next_off st)) \<le> pending (tx_conn st)"
  using finish_send_pending send_fill_pending
  by (fastforce simp: send_loop_def split: prod.splits option.splits)

lemma tx_report_conn [simp]: "tx_conn (tx_report opts a b st) = tx_conn st"
  by (simp add: tx_report_def)

lemma send_on_msg_pending: "pending (tx_conn (send_on_msg api r opts m ph msg_r st)) \<le> pending (tx_conn st)"
proof -
  have *: "pending (tx_conn (send_loop api r opts m a b (tx_report opts x y st))) \<le> pending (tx_conn st)"
    "pending (tx_conn (finish_send api m (tx_report opts x y st))) \<le> pending (tx_conn st)" for a b x y
    using send_loop_pending [of r opts m a b "tx_report opts x y st"]
      finish_send_pending [of m "tx_report opts x y st"] by simp_all
  show ?thesis
    by (cases ph) (auto simp: send_on_accept_def send_on_ack_def finish_send_reply_def tx_return_def Let_def *
        split: sum.splits)
qed

lemma send_on_msg_error: "\<forall>ec. ph \<noteq> SndRet ec \<Longrightarrow> \<exists>e. tx_phase (send_on_msg api r opts m ph (Inl ec) st) = SndRet e"
  by (cases ph) (auto simp: send_on_accept_def send_on_ack_def finish_send_reply_def tx_return_def)

lemma send_drive_ret: "tx_phase st = SndRet ec \<Longrightarrow> send_drive api r opts m st = Some st"
  by (subst send_drive.simps) simp

lemma send_drive_step:
  "\<forall>ec. tx_phase st \<noteq> SndRet ec \<Longrightarrow> mc_receive api (tx_conn st) = (msg_r, c) \<Longrightarrow>
   send_drive api r opts m st = send_drive api r opts m (send_on_msg api r opts m (tx_phase st) msg_r (st\<lparr>tx_conn := c\<rparr>))"
  by (subst send_drive.simps) (cases "tx_phase st"; simp)

lemma send_drive_returns: "\<exists>st'. send_drive api r opts m st = Some st'"
proof (induction "pending (tx_conn st)" arbitrary: st rule: less_induct)
  case less
  show ?case
  proof (cases "\<exists>ec. tx_phase st = SndRet ec")
    case False
    then have np: "\<forall>ec. tx_phase st \<noteq> SndRet ec" by simp
    obtain msg_r c where rc: "mc_receive api (tx_conn st) = (msg_r, c)" by fastforce
    show ?thesis
    proof (cases msg_r)
      case (Inl ec)
      with send_on_msg_error [OF np] send_drive_step [OF np rc] send_drive_ret show ?thesis by metis
    next
      case (Inr b)
      with receive_uses rc send_on_msg_pending [of r opts m "tx_phase st" msg_r "st\<lparr>tx_conn := c\<rparr>"]
      have "pending (tx_conn (send_on_msg api r opts m (tx_phase st) msg_r (st\<lparr>tx_conn := c\<rparr>))) < pending (tx_conn st)"
        by (auto intro: le_less_trans)
      then show ?thesis unfolding send_drive_step [OF np rc, of r opts m] by (rule less.hyps)
    qed
  qed (auto simp: send_drive_ret)
qed

section \<open>The receiver\<close>

lemma rx_send_pending: "rx_send api b st = (ec, st') \<Longrightarrow> pending (rx_conn st') \<le> pending (rx_conn st)"
  using send_keeps by (auto simp: rx_send_def Let_def split: prod.splits)

lemma rx_conn_keeps [simp]:
  "rx_conn (rx_return ec st) = rx_conn st" "rx_conn (rx_fail n ec st) = rx_conn st"
  "rx_conn (receive_loop m hw written since st) = rx_conn st"
  by (simp_all add: rx_return_def rx_fail_def receive_loop_def)

lemma verify_pending: "pending (rx_conn (verify_and_ack_done api m dec digest st)) \<le> pending (rx_conn st)"
  by (auto simp: verify_and_ack_done_def Let_def split: prod.splits dest: rx_send_pending)

lemma stored_pending: "pending (rx_conn (receive_stored api opts m hw written since st)) \<le> pending (rx_conn st)"
  by (auto simp: receive_stored_def Let_def split: prod.splits dest: rx_send_pending)

lemma accepted_pending: "pending (rx_conn (receive_accepted lib std api w resume m st)) \<le> pending (rx_conn st)"
  by (auto simp: receive_accepted_def Let_def split: prod.splits sum.splits option.splits dest: rx_send_pending)

lemma on_offer_pending:
  "pending (rx_conn (receive_on_offer lib std api w opts resume em want msg_r st)) \<le> pending (rx_conn st)"
proof -
  have "pending (rx_conn (receive_accepted lib std api w resume m ((rx_report opts x y st')\<lparr>rx_out_meta := m\<rparr>))) \<le>
      pending (rx_conn st)" if "rx_send api b st = (ec, st')" for m b ec st' x y
    using accepted_pending [of lib std w resume m "(rx_report opts x y st')\<lparr>rx_out_meta := m\<rparr>"]
      rx_send_pending [OF that] by simp
  then show ?thesis
    by (auto simp: receive_on_offer_def Let_def split: sum.splits prod.splits dest: rx_send_pending)
qed

lemma on_done_pending: "pending (rx_conn (receive_on_done api m n digest msg_r st)) \<le> pending (rx_conn st)"
  using verify_pending [of m _ digest "st\<lparr>rx_written_out := n\<rparr>"]
  by (auto simp: receive_on_done_def split: sum.splits)

lemma on_chunk_pending:
  "pending (rx_conn (receive_on_chunk lib std api w opts m hw written since msg_r st)) \<le> pending (rx_conn st)"
proof -
  have "pending (rx_conn (receive_stored api opts m hw' n since (st\<lparr>rx_dst := d\<rparr>))) \<le> pending (rx_conn st)"
    "rx_send api b (st\<lparr>rx_dst := d\<rparr>) = (ec, st') \<Longrightarrow> pending (rx_conn st') \<le> pending (rx_conn st)" for hw' n d b ec st'
    using stored_pending [of opts m hw' n since "st\<lparr>rx_dst := d\<rparr>"] rx_send_pending [of b "st\<lparr>rx_dst := d\<rparr>"]
    by auto
  moreover have "pending (rx_conn (verify_and_ack_done api m dec digest (st\<lparr>rx_written_out := n\<rparr>))) \<le> pending (rx_conn st)"
    for dec digest n using verify_pending [of m dec digest "st\<lparr>rx_written_out := n\<rparr>"] by simp
  ultimately show ?thesis
    by (auto simp: receive_on_chunk_def Let_def split: sum.splits prod.splits)
qed

lemma receive_on_msg_pending:
  "pending (rx_conn (receive_on_msg lib std api w opts resume em want ph msg_r st)) \<le> pending (rx_conn st)"
  by (cases ph) (simp_all add: on_offer_pending on_done_pending on_chunk_pending)

lemma receive_on_msg_error:
  "\<forall>ec. ph \<noteq> RcvRet ec \<Longrightarrow>
   \<exists>e. rx_phase (receive_on_msg lib std api w opts resume em want ph (Inl ec) st) = RcvRet e"
  by (cases ph) (auto simp: receive_on_offer_def receive_on_done_def receive_on_chunk_def rx_fail_def rx_return_def)

lemma receive_drive_ret: "rx_phase st = RcvRet ec \<Longrightarrow> receive_drive lib std api w opts resume em want st = Some st"
  by (subst receive_drive.simps) simp

lemma receive_drive_step:
  "\<forall>ec. rx_phase st \<noteq> RcvRet ec \<Longrightarrow> mc_receive api (rx_conn st) = (msg_r, c) \<Longrightarrow>
   receive_drive lib std api w opts resume em want st = receive_drive lib std api w opts resume em want
     (receive_on_msg lib std api w opts resume em want (rx_phase st) msg_r (st\<lparr>rx_conn := c\<rparr>))"
  by (subst receive_drive.simps) (cases "rx_phase st"; simp)

lemma receive_drive_returns: "\<exists>st'. receive_drive lib std api w opts resume em want st = Some st'"
proof (induction "pending (rx_conn st)" arbitrary: st rule: less_induct)
  case less
  show ?case
  proof (cases "\<exists>ec. rx_phase st = RcvRet ec")
    case False
    then have np: "\<forall>ec. rx_phase st \<noteq> RcvRet ec" by simp
    obtain msg_r c where rc: "mc_receive api (rx_conn st) = (msg_r, c)" by fastforce
    show ?thesis
    proof (cases msg_r)
      case (Inl ec)
      with receive_on_msg_error [OF np] receive_drive_step [OF np rc] receive_drive_ret show ?thesis by metis
    next
      case (Inr b)
      with receive_uses rc
        receive_on_msg_pending [of lib std w opts resume em want "rx_phase st" msg_r "st\<lparr>rx_conn := c\<rparr>"]
      have "pending (rx_conn (receive_on_msg lib std api w opts resume em want (rx_phase st) msg_r
          (st\<lparr>rx_conn := c\<rparr>))) < pending (rx_conn st)"
        by (auto intro: le_less_trans)
      then show ?thesis
        unfolding receive_drive_step [OF np rc, of lib std w opts resume em want] by (rule less.hyps)
    qed
  qed (auto simp: receive_drive_ret)
qed

section \<open>The retry loops\<close>

lemma send_attempts_returns: "send_attempts api r nopts m attempts last_err st \<noteq> None"
proof (induction "nat (max_attempts nopts - attempts)" arbitrary: attempts last_err st rule: less_induct)
  case less
  obtain ec st1 where x: "send_xfer api r nopts m st = Some (ec, st1)"
    using send_drive_returns by (fastforce simp: send_xfer_def send_once_def)
  have dec: "nat (max_attempts nopts - (attempts + 1)) < nat (max_attempts nopts - attempts)"
    if "\<not> max_attempts nopts \<le> attempts" using that by simp
  show ?case
    by (subst send_attempts.simps)
      (auto simp: Let_def x less.hyps [OF dec] simp del: not_None_eq split: option.splits prod.splits)
qed

lemma receive_attempts_returns: "receive_attempts lib std api wr nopts m hm written attempts last_err st \<noteq> None"
proof (induction "nat (max_attempts nopts - attempts)" arbitrary: m hm written attempts last_err st rule: less_induct)
  case less
  obtain ec got n st1 where x: "receive_xfer lib std api wr nopts written hm m st = Some (ec, got, n, st1)"
    using receive_drive_returns by (fastforce simp: receive_xfer_def receive_once_def)
  have dec: "nat (max_attempts nopts - (attempts + 1)) < nat (max_attempts nopts - attempts)"
    if "\<not> max_attempts nopts \<le> attempts" using that by simp
  show ?case
    by (subst receive_attempts.simps)
      (auto simp: Let_def x less.hyps [OF dec] simp del: not_None_eq split: option.splits prod.splits)
qed

lemma transfer_send_returns: "transfer_send lib urandom api r opts m st \<noteq> None"
  using send_attempts_returns
  by (fastforce simp: transfer_send_def Let_def split: prod.splits sum.splits)

lemma transfer_receive_returns: "transfer_receive lib std api wr opts resume om st \<noteq> None"
  by (simp add: transfer_receive_def Let_def receive_attempts_returns del: not_None_eq)

lemma send_file_returns: "send_file lib urandom api opts fsy path st \<noteq> None"
  by (cases "open_in fsy path")
    (simp_all add: send_file_def Let_def transfer_send_returns option.map_disc_iff del: not_None_eq)

lemma receive_file_returns: "receive_file lib std api opts path om st \<noteq> None"
proof -
  obtain resume f fsy where "receive_file_open path (xf_dev st) = (resume, f, fsy)" by (metis prod_cases3)
  then show ?thesis
    by (cases f) (simp_all add: receive_file_eq transfer_receive_returns option.map_disc_iff del: not_None_eq)
qed

end

interpretation view: finite_conn view_api "\<lambda>c. length (cv_in c)"
  by unfold_locales (auto simp: view_api_def view_send_def view_receive_def split: list.splits if_splits)

end
