(* ===== verification/Tdx_Transfer_Props.thy ===== *)
theory Tdx_Transfer_Props
  imports Tdx_Transfer_Pair Tdx_Transfer_Term
begin

text \<open>
  The properties of a file transfer: two files at the ends of a working connection, in every
  interleaving of the two routines; a receiver that faces an arbitrary peer; the helpers and the
  retry loops.
\<close>

section \<open>An honest transfer between two files\<close>

text \<open>The parameters of a transfer of \<open>data\<close>, of which the receiver already has \<open>resume\<close> bytes.\<close>

definition honest ::
  "('h, 'r) crypto_lib \<Rightarrow> int \<Rightarrow> (bytes list, 'w) Options \<Rightarrow> (bytes list, 'w) Options \<Rightarrow> meta \<Rightarrow> int \<Rightarrow> bytes \<Rightarrow> bool" where
  "honest lib mx so ro m resume data \<longleftrightarrow>
     length (meta_id m) = 16 \<and> meta_size m = int (length data) \<and> int (length data) < 2 ^ 63 \<and>
     meta_hash m = mbedtls_sha256 lib data \<and> length (meta_name m) \<le> 0xffff \<and>
     63 + int (length (meta_name m)) \<le> mx \<and> 1 \<le> window so \<and> window so < 2 ^ 31 \<and> 1 \<le> ack_every ro \<and>
     0 \<le> resume \<and> resume \<le> int (length data) \<and>
     (case accept_cb ro of None \<Rightarrow> True | Some accept \<Rightarrow> \<not> ec_fails (accept m))"

definition file_env ::
  "('h, 'r) crypto_lib \<Rightarrow> (error_code \<Rightarrow> string) \<Rightarrow> int \<Rightarrow> (bytes list, 'w) Options \<Rightarrow> (bytes list, 'w) Options \<Rightarrow>
   meta \<Rightarrow> int \<Rightarrow> (fstream, fstream, 'h, 'r, 'w) pair_env" where
  "file_env lib std mx so ro m resume = \<lparr>pe_lib = lib, pe_std = std, pe_max = mx, pe_src = FileReaderAt,
     pe_sopts = so, pe_meta = m, pe_snk = FileWriterAt, pe_ropts = ro, pe_resume = resume\<rparr>"

text \<open>The number of chunks still to be sent.\<close>

definition chunk_count :: "int \<Rightarrow> int \<Rightarrow> int \<Rightarrow> bytes \<Rightarrow> nat" where
  "chunk_count mx want resume data =
    (let cs = effective_chunk_size mx want in nat ((int (length data) - resume + cs - 1) div cs))"

text \<open>The source file holds the data, the destination the first part, and there is room.\<close>

definition files_ready :: "int \<Rightarrow> bytes \<Rightarrow> fstream \<Rightarrow> fstream \<Rightarrow> bool" where
  "files_ready resume data f e \<longleftrightarrow> \<not> fs_fail f \<and> fs_content f = data \<and>
     \<not> fs_fail e \<and> fs_content e = take (nat resume) data \<and> length data \<le> fs_room e"

lemma file_pair:
  assumes "crypto_api lib" and "honest lib mx so ro m resume data" and "files_ready resume data f e"
  shows "transfer_pair FileReaderAt fs_content (fs_usable (fs_room f))
    FileWriterAt fs_content (fs_usable (fs_room e)) (fs_room e)
    \<lparr>read_at = FileWriterAt_read_at\<rparr> lib mx so ro m resume data"
  using assms
  by (intro transfer_pair.intro file_src.live_source_axioms file_snk.live_sink_axioms transfer_pair_axioms.intro)
    (auto simp: honest_def files_ready_def)

lemma file_run:
  assumes "crypto_api lib" and "honest lib mx so ro m resume data" and "files_ready resume data f e"
    and "pair_run (file_env lib std mx so ro m resume) acts (pair_start (file_env lib std mx so ro m resume) f e) = Some s"
  shows "\<exists>n. transfer_pair.pair_inv fs_content (fs_usable (fs_room f)) fs_content (fs_usable (fs_room e)) lib mx so ro m resume data s n \<and>
    n + length acts \<le> 2 * chunk_count mx (chunk_size so) resume data + 4"
proof -
  note pair = file_pair [OF assms(1-3)]
  have "fs_usable (fs_room f) f" "fs_content f = data" "fs_usable (fs_room e) e" "fs_content e = take (nat resume) data"
    using assms(3) by (simp_all add: files_ready_def fs_usable_def)
  from transfer_pair.start_inv [OF pair this, of std]
    transfer_pair.run_inv [OF pair _ assms(4) [unfolded file_env_def, folded transfer_pair.env_def [OF pair]]]
  show ?thesis
    by (simp add: file_env_def transfer_pair.env_def [OF pair] transfer_pair.chunks_def [OF pair]
        transfer_pair.cs_def [OF pair] chunk_count_def Let_def)
qed

lemma file_env_eq:
  assumes "transfer_pair FileReaderAt fs_content us FileWriterAt fs_content ud room rdr lib mx so ro m resume data"
  shows "transfer_pair.env FileReaderAt FileWriterAt lib std mx so ro m resume = file_env lib std mx so ro m resume"
  by (simp add: file_env_def transfer_pair.env_def [OF assms])

text \<open>A concrete transfer: three bytes in chunks of one, a window of two.\<close>

definition demo_sopts :: "(bytes list, unit) Options" where
  "demo_sopts = default_options\<lparr>chunk_size := 1, window := 2\<rparr>"

definition demo_ropts :: "(bytes list, unit) Options" where
  "demo_ropts = default_options\<lparr>ack_every := 2, on_progress := True\<rparr>"

definition demo_data :: bytes where "demo_data = [7, 8, 9, 10]"

definition demo_offer :: meta where
  "demo_offer = \<lparr>meta_id = replicate 16 1, meta_name = ''f'', meta_size = 4, meta_hash = pad32 demo_data\<rparr>"

definition demo_src :: fstream where "demo_src = fstream_open 0 demo_data"

definition demo_dst :: fstream where "demo_dst = fstream_open 9 [7]"

abbreviation demo_env :: "(bytes list, unit) Options \<Rightarrow> (fstream, fstream, bytes, nat, unit) pair_env" where
  "demo_env ro \<equiv> file_env demo_lib (\<lambda>_. []) 100 demo_sopts ro demo_offer 1"

definition demo_acts :: "pair_act list" where
  "demo_acts = [To_receiver, To_sender, To_receiver, To_receiver, To_sender, To_receiver, To_sender,
     To_receiver, To_sender]"

lemma demo_ready: "files_ready 1 demo_data demo_src demo_dst"
  by (simp add: files_ready_def demo_src_def demo_dst_def fstream_open_def demo_data_def)

lemma demo_honest:
  "1 \<le> ack_every ro \<Longrightarrow> accept_cb ro = None \<Longrightarrow> honest demo_lib 100 demo_sopts ro demo_offer 1 demo_data"
  by (simp add: honest_def demo_offer_def demo_sopts_def demo_data_def demo_lib_def default_options_def)

interpretation demo_pair: transfer_pair FileReaderAt fs_content "fs_usable (fs_room demo_src)"
    FileWriterAt fs_content "fs_usable (fs_room demo_dst)" "fs_room demo_dst" "\<lparr>read_at = FileWriterAt_read_at\<rparr>"
    demo_lib "\<lambda>_. []" 100 demo_sopts demo_ropts demo_offer 1 demo_data
  by (rule file_pair [OF demo.crypto_api_axioms demo_honest demo_ready])
    (simp_all add: demo_ropts_def default_options_def)

lemma demo_run: "pair_run (demo_env demo_ropts) demo_acts (pair_start (demo_env demo_ropts) demo_src demo_dst) \<noteq> None"
  by code_simp

section \<open>Properties\<close>

text \<open>
  C4. A transfer completes. When the receiver acknowledges at least once per window of the sender,
  every interleaving of the two routines ends, after at most two deliveries per chunk and four more,
  and a state in which nothing more can be delivered is one in which both routines have returned
  success and the destination file holds exactly the source's bytes, also when it resumed from a part.
\<close>

theorem transfer_completes:
  assumes "crypto_api lib" and "honest lib mx so ro m resume data" and "files_ready resume data f e"
    and "ack_every ro \<le> window so"
    and "pair_run (file_env lib std mx so ro m resume) acts
      (pair_start (file_env lib std mx so ro m resume) f e) = Some s"
  shows "length acts \<le> 2 * chunk_count mx (chunk_size so) resume data + 4 \<and>
    ((\<exists>act s'. pair_exec (file_env lib std mx so ro m resume) act s = Some s') \<or>
     tx_phase (pr_tx s) = SndRet NoError \<and> rx_phase (pr_rx s) = RcvRet NoError \<and>
     fs_content (rx_dst (pr_rx s)) = data)"
proof -
  note pair = file_pair [OF assms(1-3)]
  obtain n where n: "transfer_pair.pair_inv fs_content (fs_usable (fs_room f)) fs_content (fs_usable (fs_room e))
      lib mx so ro m resume data s n" "n + length acts \<le> 2 * chunk_count mx (chunk_size so) resume data + 4"
    using file_run [OF assms(1-3,5)] by blast
  show ?thesis
  proof (cases "n = 0")
    case True
    with transfer_pair.inv_done [OF pair] n show ?thesis by auto
  next
    case False
    with transfer_pair.progress [OF pair n(1) assms(4), of std] n(2) show ?thesis
      by (auto simp: file_env_eq [OF pair])
  qed
qed

theorem transfer_completes_witness:
  "\<exists>s. pair_run (demo_env demo_ropts) demo_acts (pair_start (demo_env demo_ropts) demo_src demo_dst) = Some s \<and>
    length demo_acts \<le> 2 * chunk_count 100 1 1 demo_data + 4 \<and>
    ((\<exists>act s'. pair_exec (demo_env demo_ropts) act s = Some s') \<or>
     tx_phase (pr_tx s) = SndRet NoError \<and> rx_phase (pr_rx s) = RcvRet NoError \<and>
     fs_content (rx_dst (pr_rx s)) = demo_data)"
proof -
  obtain s where s: "pair_run (demo_env demo_ropts) demo_acts
      (pair_start (demo_env demo_ropts) demo_src demo_dst) = Some s"
    using demo_run by blast
  have "1 \<le> ack_every demo_ropts" "accept_cb demo_ropts = None" "ack_every demo_ropts \<le> window demo_sopts"
    "chunk_size demo_sopts = 1"
    by (simp_all add: demo_ropts_def demo_sopts_def default_options_def)
  with transfer_completes [OF demo.crypto_api_axioms demo_honest demo_ready _ s] s show ?thesis by simp
qed

text \<open>
  C14. Whatever the window and the acknowledgement interval, in every interleaving the destination
  holds a prefix of the source's bytes; once one of the two routines has returned, the receiver has
  returned success and the destination holds all of them; and the sender returns only success.
\<close>

theorem transfer_prefix:
  assumes "crypto_api lib" and "honest lib mx so ro m resume data" and "files_ready resume data f e"
    and "pair_run (file_env lib std mx so ro m resume) acts
      (pair_start (file_env lib std mx so ro m resume) f e) = Some s"
  shows "(\<exists>k. fs_content (rx_dst (pr_rx s)) = take k data) \<and>
    (\<not> sender_waits (tx_phase (pr_tx s)) \<or> \<not> receiver_waits (rx_phase (pr_rx s)) \<longrightarrow>
       fs_content (rx_dst (pr_rx s)) = data \<and> rx_phase (pr_rx s) = RcvRet NoError) \<and>
    (\<not> sender_waits (tx_phase (pr_tx s)) \<longrightarrow> tx_phase (pr_tx s) = SndRet NoError)"
  using file_run [OF assms] transfer_pair.inv_safe [OF file_pair [OF assms(1-3)]] by blast

theorem transfer_prefix_witness:
  "\<exists>s. pair_run (demo_env demo_ropts) demo_acts (pair_start (demo_env demo_ropts) demo_src demo_dst) = Some s \<and>
    (\<exists>k. fs_content (rx_dst (pr_rx s)) = take k demo_data)"
proof -
  obtain s where s: "pair_run (demo_env demo_ropts) demo_acts
      (pair_start (demo_env demo_ropts) demo_src demo_dst) = Some s"
    using demo_run by blast
  have "1 \<le> ack_every demo_ropts" "accept_cb demo_ropts = None"
    by (simp_all add: demo_ropts_def default_options_def)
  with transfer_prefix [OF demo.crypto_api_axioms demo_honest demo_ready s] s show ?thesis by simp
qed

text \<open>
  C38. With a window smaller than the receiver's acknowledgement interval, and more chunks than one
  window, no interleaving ever ends the transfer: both routines wait in every reachable state, and
  after the offer, its answer and one window of chunks nothing is under way any more.
\<close>

theorem transfer_window_deadlock:
  assumes "crypto_api lib" and "honest lib mx so ro m resume data" and "files_ready resume data f e"
    and "window so < ack_every ro" and "window so < int (chunk_count mx (chunk_size so) resume data)"
    and "pair_run (file_env lib std mx so ro m resume) acts
      (pair_start (file_env lib std mx so ro m resume) f e) = Some s"
  shows "sender_waits (tx_phase (pr_tx s)) \<and> receiver_waits (rx_phase (pr_rx s)) \<and>
    int (length acts) \<le> window so + 2 \<and>
    ((\<forall>act. pair_exec (file_env lib std mx so ro m resume) act s = None) \<longleftrightarrow> int (length acts) = window so + 2)"
proof -
  note pair = file_pair [OF assms(1-3)]
  have "transfer_pair.chunks mx so resume data = chunk_count mx (chunk_size so) resume data"
    by (simp add: chunk_count_def transfer_pair.chunks_def [OF pair] transfer_pair.cs_def [OF pair] Let_def)
  then have w: "nat (window so) < transfer_pair.chunks mx so resume data" "1 \<le> window so"
    using assms(2,5) by (auto simp: honest_def)
  have "fs_usable (fs_room f) f" "fs_content f = data" "fs_usable (fs_room e) e"
    "fs_content e = take (nat resume) data"
    using assms(3) by (simp_all add: files_ready_def fs_usable_def)
  from transfer_pair.stalling_run [OF pair assms(4) w(1) transfer_pair.start_stalling [OF pair this, of std]
      assms(6) [folded file_env_eq [OF pair]]]
  have "transfer_pair.stalling fs_content (fs_usable (fs_room f)) fs_content (fs_usable (fs_room e))
      lib mx so m resume data s (length acts)"
    by (simp add: file_env_eq [OF pair])
  with transfer_pair.stalling_end [OF pair w(1) this, of std] transfer_pair.stalling_waits [OF pair this] w(2)
  show ?thesis by (simp add: file_env_eq [OF pair]) linarith
qed

definition demo_slow :: "(bytes list, unit) Options" where
  "demo_slow = default_options\<lparr>ack_every := 3\<rparr>"

lemma demo_stall:
  "pair_run (demo_env demo_slow) [To_receiver, To_sender, To_receiver, To_receiver]
     (pair_start (demo_env demo_slow) demo_src demo_dst) \<noteq> None"
  by code_simp

theorem transfer_window_deadlock_witness:
  "\<exists>s. pair_run (demo_env demo_slow) [To_receiver, To_sender, To_receiver, To_receiver]
      (pair_start (demo_env demo_slow) demo_src demo_dst) = Some s \<and>
    sender_waits (tx_phase (pr_tx s)) \<and> receiver_waits (rx_phase (pr_rx s)) \<and>
    (\<forall>act. pair_exec (demo_env demo_slow) act s = None)"
proof -
  obtain s where s: "pair_run (demo_env demo_slow) [To_receiver, To_sender, To_receiver, To_receiver]
      (pair_start (demo_env demo_slow) demo_src demo_dst) = Some s"
    using demo_stall by blast
  have h: "honest demo_lib 100 demo_sopts demo_slow demo_offer 1 demo_data"
    by (rule demo_honest) (simp_all add: demo_slow_def default_options_def)
  have w: "window demo_sopts < ack_every demo_slow" "window demo_sopts = 2"
    by (simp_all add: demo_slow_def demo_sopts_def default_options_def)
  have "window demo_sopts < int (chunk_count 100 (chunk_size demo_sopts) 1 demo_data)"
    by (simp add: chunk_count_def effective_chunk_size_def demo_sopts_def default_options_def demo_data_def
        kChunkOverhead_def frame_len_defs)
  from transfer_window_deadlock [OF demo.crypto_api_axioms h demo_ready w(1) this s] w(2) s show ?thesis by simp
qed

text \<open>
  C5. What is received is what was offered, whatever the peer sends and however often the connection is
  redialled: when \<open>receive_file\<close> reports success for an offer with a hash, the bytes written to the
  stream have exactly the announced length and the announced hash. The file holds what closing the
  stream has left of them, cut or filled with zeros to the announced length; so it has that length and
  hash whenever \<open>close\<close> writes the buffer out. The code does not look at the result of \<open>close\<close>, and
  success says no more than this: a \<open>close\<close> that fails leaves a file with another hash. No other file has
  changed.
\<close>

theorem receive_file_integrity:
  assumes "crypto_api lib" and "message_conn api"
    and "receive_file_flush lib std api flush opts path om st = Some (ec, m, st')" and "\<not> ec_fails ec"
    and "\<not> is_zero_hash (meta_hash m)"
  shows "(\<exists>f. int (length (take (nat (meta_size m)) (fs_content f))) = meta_size m \<and>
      mbedtls_sha256 lib (take (nat (meta_size m)) (fs_content f)) = meta_hash m \<and>
      fsys_files (xf_dev st') path =
        Some (take (nat (meta_size m)) (flush f) @ replicate (nat (meta_size m) - length (flush f)) 0) \<and>
      (flush f = fs_content f \<longrightarrow>
        (\<exists>b. fsys_files (xf_dev st') path = Some b \<and> int (length b) = meta_size m \<and> mbedtls_sha256 lib b = meta_hash m))) \<and>
    fsys_files (xf_dev st') |` (- {path}) = fsys_files (xf_dev st) |` (- {path})"
proof
  from receive_file_flush_ok [OF assms] obtain f where
    "0 \<le> meta_size m" "nat (meta_size m) \<le> length (fs_content f)"
    "mbedtls_sha256 lib (take (nat (meta_size m)) (fs_content f)) = meta_hash m"
    "fsys_files (xf_dev st') path =
      Some (take (nat (meta_size m)) (flush f) @ replicate (nat (meta_size m) - length (flush f)) 0)" by blast
  then show "\<exists>f. int (length (take (nat (meta_size m)) (fs_content f))) = meta_size m \<and>
      mbedtls_sha256 lib (take (nat (meta_size m)) (fs_content f)) = meta_hash m \<and>
      fsys_files (xf_dev st') path =
        Some (take (nat (meta_size m)) (flush f) @ replicate (nat (meta_size m) - length (flush f)) 0) \<and>
      (flush f = fs_content f \<longrightarrow>
        (\<exists>b. fsys_files (xf_dev st') path = Some b \<and> int (length b) = meta_size m \<and> mbedtls_sha256 lib b = meta_hash m))"
    by (intro exI [of _ f]) simp
  show "fsys_files (xf_dev st') |` (- {path}) = fsys_files (xf_dev st) |` (- {path})"
    using receive_file_frame [OF assms(3)] by (auto simp: restrict_map_def fun_eq_iff)
qed

theorem receive_file_integrity_witness:
  "(\<exists>ec m st'. demo_receive fs_content = Some (ec, m, st') \<and> ec = NoError \<and>
      (\<exists>b. fsys_files (xf_dev st') ''d'' = Some b \<and> int (length b) = meta_size m \<and>
         mbedtls_sha256 demo_lib b = meta_hash m)) \<and>
   (\<exists>ec m st'. demo_receive lossy = Some (ec, m, st') \<and> ec = NoError \<and>
      fsys_files (xf_dev st') ''d'' = Some [7, 0] \<and> mbedtls_sha256 demo_lib [7, 0] \<noteq> meta_hash m)"
proof
  have ok: "\<not> ec_fails NoError" "\<not> is_zero_hash (meta_hash demo_meta)"
    by (simp_all add: demo_meta_def is_zero_hash_def pad32_def)
  obtain st' where r: "demo_receive fs_content = Some (NoError, demo_meta, st')"
    using demo_receive_result(1) by (auto split: option.splits prod.splits)
  from receive_file_integrity [OF demo.crypto_api_axioms view.message_conn_axioms r [unfolded demo_receive_def] ok] r
  show "\<exists>ec m st'. demo_receive fs_content = Some (ec, m, st') \<and> ec = NoError \<and>
      (\<exists>b. fsys_files (xf_dev st') ''d'' = Some b \<and> int (length b) = meta_size m \<and>
         mbedtls_sha256 demo_lib b = meta_hash m)" by blast
  obtain st' where "demo_receive lossy = Some (NoError, demo_meta, st')" "fsys_files (xf_dev st') ''d'' = Some [7, 0]"
    using demo_receive_result(2) by (auto split: option.splits prod.splits)
  moreover have "mbedtls_sha256 demo_lib [7, 0] \<noteq> meta_hash demo_meta"
    by (simp add: demo_meta_def demo_lib_def pad32_def)
  ultimately show "\<exists>ec m st'. demo_receive lossy = Some (ec, m, st') \<and> ec = NoError \<and>
      fsys_files (xf_dev st') ''d'' = Some [7, 0] \<and> mbedtls_sha256 demo_lib [7, 0] \<noteq> meta_hash m" by blast
qed

text \<open>
  C27. Hashing a file in pieces of 256 KiB is hashing it at once: for a readable stream and any size,
  \<open>hash_reader\<close> gives the SHA-256 of the first \<open>size\<close> bytes, or fails with \<open>other\<close> when the file is
  shorter, and leaves the file as it is.
\<close>

theorem hash_reader_oneshot:
  assumes "crypto_api lib" and "\<not> fs_fail f" and "0 \<le> sz"
  shows "fst (hash_reader lib FileReaderAt sz f) =
      (if sz \<le> int (length (fs_content f)) then Inr (mbedtls_sha256 lib (take (nat sz) (fs_content f)))
       else Inl (TransferEc terrc_other)) \<and>
    fs_content (snd (hash_reader lib FileReaderAt sz f)) = fs_content f"
proof -
  obtain res f' where h: "hash_reader lib FileReaderAt sz f = (res, f')" by fastforce
  have keeps: "fs_content f' = fs_content f"
    by (rule source_at.hash_reader_keeps [OF file_src.source_at_axioms assms(1) h assms(3)])
  show ?thesis
  proof (cases "sz \<le> int (length (fs_content f))")
    case True
    have "fs_usable (fs_room f) f" using assms(2) by (simp add: fs_usable_def)
    from live_source.hash_reader_total [OF file_src.live_source_axioms assms(1) this assms(3)] True h keeps
    show ?thesis by auto
  next
    case False
    then obtain ec where ec: "res = Inl ec"
      using source_at.hash_reader_sound [OF file_src.source_at_axioms assms(1)] h assms(3) by (cases res) fastforce+
    have "ec = TransferEc terrc_other"
    proof (rule source_at.hash_reader_error [OF file_src.source_at_axioms, where P = "\<lambda>ec. ec = TransferEc terrc_other"])
      show "hash_reader lib FileReaderAt sz f = (Inl ec, f')" using h ec by simp
      show "ec = TransferEc terrc_other" if "read_at FileReaderAt off n d = (Inl ec, d')" for off n d ec d'
        using that by (auto simp: FileReaderAt_def FileReaderAt_read_at_def Let_def split: prod.splits if_splits)
    qed
    with False h ec keeps show ?thesis by simp
  qed
qed

theorem hash_reader_oneshot_witness:
  "fst (hash_reader demo_lib FileReaderAt 3 demo_src) = Inr (mbedtls_sha256 demo_lib [7, 8, 9])"
  using hash_reader_oneshot [OF demo.crypto_api_axioms, of demo_src 3]
  by (simp add: demo_src_def fstream_open_def demo_data_def)



text \<open>
  C33. \<open>normalize\<close> yields usable options: every numeric field is at least 1, positive ones and the
  callbacks are kept; and on a connection that takes messages of at least 30 bytes the chunk size used
  is at least 1, at most the wanted one, and a chunk frame with it fits into a message. With a smaller
  limit, which a configuration may have, the chunk size used is 1 and no chunk frame with data fits.
\<close>

theorem normalize_options:
  "1 \<le> chunk_size (normalize opts) \<and> 1 \<le> window (normalize opts) \<and> 1 \<le> ack_every (normalize opts) \<and>
   1 \<le> max_attempts (normalize opts) \<and>
   (\<forall>x. opts = Some x \<longrightarrow>
      (1 \<le> window x \<longrightarrow> window (normalize opts) = window x) \<and>
      (1 \<le> ack_every x \<longrightarrow> ack_every (normalize opts) = ack_every x) \<and>
      (1 \<le> max_attempts x \<longrightarrow> max_attempts (normalize opts) = max_attempts x) \<and>
      (1 \<le> chunk_size x \<longrightarrow> chunk_size (normalize opts) = chunk_size x) \<and>
      redial (normalize opts) = redial x \<and> on_progress (normalize opts) = on_progress x \<and>
      accept_cb (normalize opts) = accept_cb x) \<and>
   (30 \<le> mx \<longrightarrow>
      1 \<le> effective_chunk_size mx (chunk_size (normalize opts)) \<and>
      effective_chunk_size mx (chunk_size (normalize opts)) \<le> chunk_size (normalize opts) \<and>
      (\<forall>tid offset data. length tid = 16 \<longrightarrow>
         int (length data) \<le> effective_chunk_size mx (chunk_size (normalize opts)) \<longrightarrow>
         int (length (encode_chunk tid offset data)) \<le> mx)) \<and>
   (mx < 30 \<longrightarrow>
      effective_chunk_size mx (chunk_size (normalize opts)) = 1 \<and>
      (\<forall>tid offset data. length tid = 16 \<longrightarrow> data \<noteq> [] \<longrightarrow> mx < int (length (encode_chunk tid offset data))))"
proof -
  have n: "1 \<le> chunk_size (normalize opts) \<and> 1 \<le> window (normalize opts) \<and> 1 \<le> ack_every (normalize opts) \<and>
      1 \<le> max_attempts (normalize opts)"
    by (cases opts) (simp_all add: normalize_def default_options_def Let_def)
  have e: "effective_chunk_size mx (chunk_size (normalize opts)) \<le> chunk_size (normalize opts)"
    using n by (auto simp: effective_chunk_size_def Let_def)
  have s: "effective_chunk_size mx (chunk_size (normalize opts)) = 1" if "mx < 30"
    using n that by (auto simp: effective_chunk_size_def kChunkOverhead_def frame_len_defs Let_def)
  have l: "mx < int (length (encode_chunk tid offset data))" if "mx < 30" "length tid = 16" "data \<noteq> []" for tid offset data
  proof -
    from that(3) have "1 \<le> length data" by (cases data) auto
    with that show ?thesis by (simp add: encode_chunk_def kTransferMagic_def)
  qed
  show ?thesis
    using n e s l effective_chunk_size_bounds [of mx "chunk_size (normalize opts)"]
    by (auto simp: normalize_def Let_def encode_chunk_def kTransferMagic_def)
qed

theorem normalize_options_witness:
  "1 \<le> effective_chunk_size 100 (chunk_size (normalize (None :: (unit, unit) Options option)))"
  using normalize_options [of "None :: (unit, unit) Options option" 100] by simp

text \<open>
  C39. A sink that can only be written cannot receive a complete file (an empty one, or one already
  there): an honest sender's offer and final frame, with the right hash, are answered with a failed
  check, because the receiver compares the announced hash with zeros.
\<close>

theorem write_only_sink_mismatch:
  assumes "as_reader w = None" and "frame_wf (Offer m)" and "meta_size m = resume" and "0 \<le> resume"
    and "\<not> is_zero_hash (meta_hash m)" and "accept_cb opts = None"
    and "cv_in (rx_conn st) = encode_frame (Offer m) # encode_done (meta_id m) True (meta_hash m) # rest"
    and "\<not> cv_closed (rx_conn st)" and "54 \<le> cv_max (rx_conn st)"
  shows "\<exists>st'. receive_once lib std view_api w opts resume False want st = Some st' \<and>
    rx_phase st' = RcvRet (TransferEc terrc_hash_mismatch) \<and>
    cv_out (rx_conn st') = cv_out (rx_conn st) @
      [encode_accept (meta_id m) resume, encode_done (meta_id m) False zero_hash]"
proof -
  note decoded = decode_encode_frame [of "Offer m"] decode_encode_frame [of "Done (meta_id m) True (meta_hash m)"]
  have len: "length (encode_accept (meta_id m) resume) = 29" "length (encode_done (meta_id m) False zero_hash) = 54"
    using assms(2) by (simp_all add: encode_accept_def encode_done_def kTransferMagic_def zero_hash_def)
  have ne: "meta_hash m \<noteq> zero_hash" "zero_hash \<noteq> meta_hash m" using assms(5) by auto
  note api = view_api_def view_send_def view_receive_def int_of_size_small
  show ?thesis
    using assms decoded len ne
    by (simp add: receive_once_def receive_drive.simps api receive_on_offer_def receive_accepted_def
        receive_on_done_def verify_and_ack_done_def done_ok_def rx_send_def rx_return_def type_defs Let_def
        default_decoded_def)
qed

definition demo_write_only :: "fstream writer_at" where
  "demo_write_only = \<lparr>write_at = FileWriterAt_write_at, as_reader = None\<rparr>"

definition demo_rx :: "(conn_view, fstream, bytes) rx" where
  "demo_rx = \<lparr>rx_conn = demo_view\<lparr>cv_in := [encode_frame (Offer demo_meta),
       encode_done (replicate 16 1) True (pad32 [7, 8])]\<rparr>,
     rx_dst = fstream_open 9 [7, 8], rx_progress = [], rx_out_meta = default_meta, rx_written_out = 2,
     rx_phase = RcvOffer\<rparr>"

theorem write_only_sink_mismatch_witness:
  "\<exists>st'. receive_once demo_lib (\<lambda>_. []) view_api demo_write_only (default_options :: (conn_view, unit) Options) 2
      False default_meta demo_rx = Some st' \<and>
    rx_phase st' = RcvRet (TransferEc terrc_hash_mismatch)"
proof -
  have "as_reader demo_write_only = None" "frame_wf (Offer demo_meta)" "meta_size demo_meta = 2"
    "\<not> is_zero_hash (meta_hash demo_meta)" "accept_cb (default_options :: (conn_view, unit) Options) = None"
    "\<not> cv_closed (rx_conn demo_rx)" "54 \<le> cv_max (rx_conn demo_rx)"
    "cv_in (rx_conn demo_rx) = encode_frame (Offer demo_meta) #
       encode_done (meta_id demo_meta) True (meta_hash demo_meta) # []"
    by (simp_all add: demo_write_only_def demo_meta_def demo_rx_def demo_view_def default_options_def in_i64_def
        is_zero_hash_def pad32_def)
  with write_only_sink_mismatch [of demo_write_only demo_meta 2 "default_options :: (conn_view, unit) Options"
      demo_rx "[]" demo_lib "\<lambda>_. []" default_meta]
  show ?thesis by auto
qed

text \<open>
  C40. A destination that may be written but not read is lost: \<open>receive_file\<close> cannot open it for both,
  truncates it, cannot open it again and fails, and the file is empty although nothing was received.
\<close>

theorem receive_file_destroys_unreadable:
  assumes "fsys_writable (xf_dev st) path" and "\<not> fsys_readable (xf_dev st) path"
  shows "\<exists>st'. receive_file lib std api opts path om st = Some (TransferEc terrc_other, om, st') \<and>
    fsys_files (xf_dev st') path = Some [] \<and> xf_conn st' = xf_conn st"
  using assms by (simp add: receive_file_eq receive_file_open_def open_in_out_def open_in_def open_trunc_close_def)

theorem receive_file_destroys_unreadable_witness:
  "\<exists>st'. receive_file demo_lib (\<lambda>_. []) view_api None ''d''  default_meta
      \<lparr>xf_conn = demo_view, xf_dev = demo_fs\<lparr>fsys_files := [''d'' \<mapsto> [1, 2]], fsys_readable := (\<lambda>_. False), fsys_writable := (\<lambda>_. True)\<rparr>,
       xf_progress = [], xf_world = ()\<rparr> = Some (TransferEc terrc_other, default_meta, st') \<and>
    fsys_files (xf_dev st') ''d'' = Some []"
  using receive_file_destroys_unreadable [of "\<lparr>xf_conn = demo_view, xf_dev = demo_fs\<lparr>fsys_files := [''d'' \<mapsto> [1, 2]],
      fsys_readable := (\<lambda>_. False), fsys_writable := (\<lambda>_. True)\<rparr>, xf_progress = [], xf_world = ()\<rparr>" "''d''"
      demo_lib "\<lambda>_. []" view_api None default_meta] by auto

end
