(* ===== verification/Tdx_Transfer_Conn.thy ===== *)
theory Tdx_Transfer_Conn
  imports Tdx_Conn_Props Tdx_Transfer_Term
begin

text \<open>
  The connection a transfer works on is the connection machine: a call of \<open>send\<close> or \<open>receive\<close> that
  returns does what \<open>view_send\<close> and \<open>view_receive\<close> say to the caller's view of the machine, so the
  results about \<open>view_api\<close> are results about \<open>Conn\<close>. Also the two refinements behind the properties
  of the connection.
\<close>

section \<open>The order of the shutdown flags\<close>

fun past_close :: "user_pc \<Rightarrow> bool" where
  "past_close (U_sd_close _ _) = False"
| "past_close pc = in_shutdown pc"

lemma past_close_wake [simp]:
  "past_close (wake_send_user pc) = past_close pc" "past_close (wake_recv_user pc) = past_close pc"
  "past_close (wake_done_user pc) = past_close pc"
  by (cases pc; simp)+

definition closed_inv :: "('k, 'r, 'cb) conn \<Rightarrow> bool" where
  "closed_inv c \<longleftrightarrow> c_closed c \<or> \<not> c_stop_send c \<and> (\<forall>u. \<not> past_close (c_users c u))"

lemma worker_closed_inv:
  "exec_reader p lib rpc c = Some (es, c') \<Longrightarrow> closed_inv c \<Longrightarrow> closed_inv c'"
  "exec_writer p lib wpc c = Some (es, c') \<Longrightarrow> closed_inv c \<Longrightarrow> closed_inv c'"
  "exec_deliver dpc c = Some (es, c') \<Longrightarrow> closed_inv c \<Longrightarrow> closed_inv c'"
  subgoal by (cases rpc) (auto simp: closed_inv_def read_one_def read_jobs_def read_enqueue_def read_ping_def
      Conn_abort_recv_users Let_def split: prod.splits sum.splits if_splits)
  subgoal by (cases wpc) (auto simp: closed_inv_def write_lock_def write_flush_def Conn_write_out_def
      Let_def split: prod.splits sum.splits list.splits if_splits)
  subgoal by (cases dpc) (auto simp: closed_inv_def deliver_lock_def deliver_drain_def split: list.splits if_splits)
  done

lemma locked_closed_inv:
  "send_locked u payload t x c = (es, c') \<Longrightarrow> closed_inv c \<Longrightarrow> closed_inv c'"
  "receive_locked u t x c = (es, c') \<Longrightarrow> closed_inv c \<Longrightarrow> closed_inv c'"
  "exec_call u op c = (es, c') \<Longrightarrow> closed_inv c \<Longrightarrow> closed_inv c'"
  subgoal by (auto simp: closed_inv_def send_locked_def Let_def split: if_splits)
  subgoal by (auto simp: closed_inv_def receive_locked_def split: if_splits list.splits)
  subgoal by (cases op) (auto simp: closed_inv_def Conn_send_for_def Conn_receive_for_def Conn_shutdown_def split: if_splits)
  done

lemma user_closed_inv:
  assumes "exec_user p u (c_users c u) c = Some (es, c')" and "closed_inv c"
  shows "closed_inv c'"
proof (cases "c_users c u")
  case (U_send b t)
  with assms locked_closed_inv(1) show ?thesis by (auto split: if_splits)
next
  case (U_recv t)
  with assms locked_closed_inv(2) show ?thesis by (auto split: if_splits)
qed (use assms in \<open>auto simp: closed_inv_def shutdown_return_def shutdown_stop_def shutdown_deliver_def shutdown_sock_def
      Let_def split: if_splits prod.splits dest: spec [of _ u]\<close>)

lemma exec_closed_inv:
  assumes "exec p lib a c = Some (es, c')" and "closed_inv c"
  shows "closed_inv c'"
proof (cases a)
  case (A_timeout u)
  with assms show ?thesis
    by (cases "(u, c_users c u, c)" rule: exec_timeout.cases)
      (auto simp: shutdown_return_def closed_inv_def dest: locked_closed_inv [unfolded closed_inv_def] spec [of _ u] split: if_splits)
next
  case A_spurious
  with assms show ?thesis by (auto simp: spurious_def closed_inv_def)
qed (use assms worker_closed_inv locked_closed_inv user_closed_inv in \<open>auto split: if_splits\<close>)

lemma conn_run_closed_inv:
  assumes "conn_run p lib c as es c'" and "closed_inv c"
  shows "closed_inv c'"
  using assms by (induction rule: conn_run.induct) (auto intro: exec_closed_inv)

section \<open>The caller's view\<close>

definition view_of :: "('k, 'r, 'cb) conn \<Rightarrow> conn_view" where
  "view_of c = \<lparr>cv_in = c_recv_q c, cv_err = c_recv_err c, cv_closed = c_closed c,
     cv_out = text_payloads (c_send_q c), cv_max = max_message_bytes (c_cfg c)\<rparr>"

lemma view_send_refines:
  assumes "as = [A_call u (Call_send b t)] \<or> as = [A_call u (Call_send b t), A_user u]"
    and "run_schedule p lib as c = Some (es, c')" and "Returned u (Ret_send ec) \<in> set es" and "closed_inv c"
  shows "view_send b (view_of c) = (ec, view_of c')"
  using assms
  by (auto simp: view_send_def view_of_def Conn_send_for_def send_locked_def Let_def closed_inv_def
      text_payloads_def locking_def split: if_splits)

lemma view_receive_refines:
  assumes "as = [A_call u (Call_recv t), A_user u]" and "on_message (c_cfg c) = None"
    and "run_schedule p lib as c = Some (es, c')" and "Returned u (Ret_recv r) \<in> set es"
  shows "view_receive (view_of c) = (r, view_of c')"
  using assms
  by (auto simp: view_receive_def view_of_def Conn_receive_for_def receive_locked_def locking_def split: if_splits list.splits)

section \<open>Properties\<close>

text \<open>
  C6. The connection machine, with its threads, locks, condition variables and notifications,
  implements two sequential specifications: every run, under any schedule, projects onto a run of
  the bounded send queue \<open>sender\<close> with the same accepted and written messages, and onto a run of
  the receiver \<open>receiver\<close> with the same messages opened, queued, dropped and handed out.
\<close>

theorem conn_refines_specs:
  assumes "conn_run p lib c as es c'"
  shows "sender_run (send_queue_depth (c_cfg c)) (sender_of c) (send_events es) (sender_of c') \<and>
    receiver_run (c_cfg c) (receiver_of c) (recv_events es) (receiver_of c')"
  using conn_run_refines [OF assms] conn_run_recv [OF assms] by simp

theorem conn_refines_specs_witness:
  "\<exists>es c. es \<noteq> [] \<and> conn_run script_posix demo_lib (wc_conn []) wc_send es c \<and>
     sender_run 2 (sender_of (wc_conn [])) (send_events es) (sender_of c)"
proof -
  obtain es c where r: "conn_run script_posix demo_lib (wc_conn []) wc_send es c"
    and e: "es = [Accepted \<lparr>ob_typ = 1, ob_pt = [1, 2]\<rparr>, Returned 0 (Ret_send NoError),
            Wrote \<lparr>ob_typ = 1, ob_pt = [1, 2]\<rparr> True]"
    by (rule schedule_run [OF wc_send_run]) auto
  have "send_queue_depth (c_cfg (wc_conn [])) = 2" by (simp add: wc_conn_def wc_cfg_def)
  with conn_refines_specs [OF r] have "sender_run 2 (sender_of (wc_conn [])) (send_events es) (sender_of c)" by simp
  moreover have "es \<noteq> []" by (simp add: e)
  ultimately show ?thesis using r by blast
qed

text \<open>
  C23. A caller sees a queue. In every reachable state, a call of \<open>send\<close> that returns without waiting
  returns what the sequential \<open>view_send\<close> returns on the caller's view (refused when closed or too
  large, else the message is appended to what is sent) and changes that view as it says; the same
  for \<open>receive\<close> and \<open>view_receive\<close> (the oldest message, or the recorded error after the last).
\<close>

theorem conn_caller_view:
  assumes "conn_run p lib (Conn_init sock sess cfg k g) as0 es0 c"
    and "run_schedule p lib as c = Some (es, c')"
  shows "((as = [A_call u (Call_send b t)] \<or> as = [A_call u (Call_send b t), A_user u]) \<and>
       Returned u (Ret_send ec) \<in> set es \<longrightarrow> view_send b (view_of c) = (ec, view_of c')) \<and>
    (as = [A_call u (Call_recv t), A_user u] \<and> on_message cfg = None \<and> Returned u (Ret_recv res) \<in> set es \<longrightarrow>
       view_receive (view_of c) = (res, view_of c'))"
proof -
  have "closed_inv (Conn_init sock sess cfg k g)" by (simp add: closed_inv_def Conn_init_def)
  then have "closed_inv c" by (rule conn_run_closed_inv [OF assms(1)])
  moreover have "c_cfg c = cfg" using conn_run_cfg [OF assms(1)] by simp
  ultimately show ?thesis
    using view_send_refines [OF _ assms(2)] view_receive_refines [OF _ _ assms(2)] by blast
qed

theorem conn_caller_view_witness:
  "\<exists>es c. run_schedule script_posix demo_lib [A_call 0 (Call_send [1, 2] None), A_user 0] (wc_conn []) = Some (es, c) \<and>
     view_send [1, 2] (view_of (wc_conn [])) = (NoError, view_of c) \<and> cv_out (view_of c) = [[1, 2]]"
proof -
  let ?as = "[A_call 0 (Call_send [1, 2] None), A_user 0]"
  have run: "map_option (\<lambda>(es, c). (es, map ob_pt (c_send_q c))) (run_schedule script_posix demo_lib ?as (wc_conn [])) =
      Some ([Accepted \<lparr>ob_typ = 1, ob_pt = [1, 2]\<rparr>, Returned 0 (Ret_send NoError)], [[1, 2]])"
    by code_simp
  then obtain es c where s: "run_schedule script_posix demo_lib ?as (wc_conn []) = Some (es, c)"
    and e: "Returned 0 (Ret_send NoError) \<in> set es" by auto
  have "view_send [1, 2] (view_of (wc_conn [])) = (NoError, view_of c)"
    using conn_caller_view [of script_posix demo_lib _ _ _ _ _ "[]" "[]" "wc_conn []", OF _ s, unfolded wc_conn_def,
        OF run_nil] e unfolding wc_conn_def by blast
  moreover from this have "cv_out (view_of c) = [[1, 2]]"
    by (auto simp: view_send_def view_of_def wc_conn_def Conn_init_def text_payloads_def split: if_splits)
  ultimately show ?thesis using s by blast
qed

end
