(* ===== verification/Tdx_Transfer_Logged.thy ===== *)
theory Tdx_Transfer_Logged
  imports Tdx_Transfer_Recv
begin

text \<open>
  The two routines of a transfer seen through the messages they send and receive. \<open>logged_conn\<close> is a
  connection with the two histories of its caller. A sender whose peer accepts at \<open>resume\<close> sends a
  prefix of the honest frames: the offer, pieces that tile the rest of the data, the final frame. A
  receiver that gets a prefix of the honest frames stores a prefix of the data and succeeds only with
  all of it. Neither needs the other to be live, nor anything of the hash function.
\<close>

section \<open>Connections with histories\<close>

locale logged_conn = message_conn api
  for api :: "'c msg_conn" +
  fixes ok :: "'c \<Rightarrow> bool" and sent recvd :: "'c \<Rightarrow> bytes list"
  assumes send_log: "mc_send api b c = (ec, c') \<Longrightarrow> ok c \<Longrightarrow>
      ok c' \<and> recvd c' = recvd c \<and> sent c' = (if ec_fails ec then sent c else sent c @ [b])"
    and receive_log: "mc_receive api c = (res, c') \<Longrightarrow> ok c \<Longrightarrow>
      ok c' \<and> sent c' = sent c \<and> recvd c' = recvd c @ (case res of Inl ec \<Rightarrow> [] | Inr b \<Rightarrow> [b])"

section \<open>Honest frames\<close>

text \<open>\<open>fs\<close> are chunks that carry \<open>data\<close> from \<open>i\<close> to \<open>j\<close>.\<close>

fun tiles :: "bytes \<Rightarrow> bytes \<Rightarrow> nat \<Rightarrow> bytes list \<Rightarrow> nat \<Rightarrow> bool" where
  "tiles tid data i [] j \<longleftrightarrow> j = i"
| "tiles tid data i (f # fs) j \<longleftrightarrow>
    (\<exists>n. 0 < n \<and> i + n \<le> length data \<and> f = encode_chunk tid (int i) (take n (drop i data)) \<and>
       tiles tid data (i + n) fs j)"

definition honest_frames :: "meta \<Rightarrow> bytes \<Rightarrow> nat \<Rightarrow> bytes list \<Rightarrow> bool" where
  "honest_frames m data i fs \<longleftrightarrow> fs = [] \<or>
     (\<exists>cl j. tiles (meta_id m) data i cl j \<and>
        (fs = offer_bytes m # cl \<or>
         j = length data \<and> fs = offer_bytes m # cl @ [encode_done (meta_id m) True (meta_hash m)]))"

lemma tiles_append: "tiles tid data i (xs @ ys) k \<longleftrightarrow> (\<exists>j. tiles tid data i xs j \<and> tiles tid data j ys k)"
  by (induction xs arbitrary: i) auto

lemma tiles_le: "tiles tid data i fs j \<Longrightarrow> i \<le> length data \<Longrightarrow> i \<le> j \<and> j \<le> length data"
  by (induction fs arbitrary: i) fastforce+

lemma encode_chunk_inj: "encode_chunk tid a x = encode_chunk tid a y \<Longrightarrow> x = y"
  by (simp add: encode_chunk_def)

lemma tiles_det: "tiles tid data i fs j \<Longrightarrow> tiles tid data i fs k \<Longrightarrow> i \<le> length data \<Longrightarrow> j = k"
proof (induction fs arbitrary: i)
  case (Cons f fs)
  then obtain n n' where n: "i + n \<le> length data" "f = encode_chunk tid (int i) (take n (drop i data))"
      "tiles tid data (i + n) fs j"
    and n': "i + n' \<le> length data" "f = encode_chunk tid (int i) (take n' (drop i data))"
      "tiles tid data (i + n') fs k" by auto
  have "take n (drop i data) = take n' (drop i data)" using encode_chunk_inj n(2) n'(2) by metis
  then have "length (take n (drop i data)) = length (take n' (drop i data))" by simp
  then have "n = n'" using n(1) n'(1) by simp
  with Cons.IH n n' show ?case by blast
qed simp

lemma tiles_prefix: "tiles tid data i fs j \<Longrightarrow> prefix gs fs \<Longrightarrow> \<exists>k. tiles tid data i gs k"
  by (auto simp: prefix_def tiles_append)

lemma honest_tiles: "tiles (meta_id m) data i cl j \<Longrightarrow> honest_frames m data i (offer_bytes m # cl)"
  by (auto simp: honest_frames_def)

lemma honest_done:
  "tiles (meta_id m) data i cl (length data) \<Longrightarrow>
   honest_frames m data i (offer_bytes m # cl @ [encode_done (meta_id m) True (meta_hash m)])"
  by (auto simp: honest_frames_def)

lemma honest_prefix:
  assumes "honest_frames m data i fs" and "prefix gs fs"
  shows "honest_frames m data i gs"
proof (cases gs)
  case (Cons g gs')
  then have "fs \<noteq> []" using assms(2) by auto
  then obtain cl j where t: "tiles (meta_id m) data i cl j" and
    fs: "fs = offer_bytes m # cl \<or> j = length data \<and> fs = offer_bytes m # cl @ [encode_done (meta_id m) True (meta_hash m)]"
    using assms(1) by (auto simp: honest_frames_def)
  from fs show ?thesis
  proof
    assume "fs = offer_bytes m # cl"
    with Cons assms(2) tiles_prefix [OF t] show ?thesis by (auto intro: honest_tiles)
  next
    assume f: "j = length data \<and> fs = offer_bytes m # cl @ [encode_done (meta_id m) True (meta_hash m)]"
    with Cons assms(2) have "prefix gs' (cl @ [encode_done (meta_id m) True (meta_hash m)])" "g = offer_bytes m" by auto
    with f Cons t tiles_prefix [OF t] show ?thesis
      by (auto simp: prefix_snoc intro: honest_tiles honest_done)
  qed
qed (simp add: honest_frames_def)

text \<open>What comes next after the offer and some chunks.\<close>

lemma honest_first: "honest_frames m data i [f] \<Longrightarrow> f = offer_bytes m"
  by (auto simp: honest_frames_def)

lemma done_not_chunk: "encode_done tid okf h \<noteq> encode_chunk tid' a x"
  by (simp add: encode_done_def encode_chunk_def kTransferMagic_def type_defs)

lemma tiles_no_done: "tiles tid data i cl j \<Longrightarrow> encode_done tid' okf h \<notin> set cl"
  by (induction cl arbitrary: i) (auto simp: done_not_chunk)

lemma honest_next:
  assumes "honest_frames m data i (offer_bytes m # cl @ [f])" and "tiles (meta_id m) data i cl j" and "i \<le> length data"
  shows "(\<exists>n. 0 < n \<and> j + n \<le> length data \<and> f = encode_chunk (meta_id m) (int j) (take n (drop j data)) \<and>
      tiles (meta_id m) data i (cl @ [f]) (j + n)) \<or>
    j = length data \<and> f = encode_done (meta_id m) True (meta_hash m)"
proof -
  obtain cl' k where t: "tiles (meta_id m) data i cl' k" and
    e: "cl @ [f] = cl' \<or> k = length data \<and> cl @ [f] = cl' @ [encode_done (meta_id m) True (meta_hash m)]"
    using assms(1) by (auto simp: honest_frames_def)
  from e show ?thesis
  proof
    assume "cl @ [f] = cl'"
    with t obtain j' where "tiles (meta_id m) data i cl j'" "tiles (meta_id m) data j' [f] k"
      by (auto simp: tiles_append simp del: tiles.simps)
    with tiles_det [OF assms(2) _ assms(3)] assms(2) show ?thesis by (fastforce simp: tiles_append)
  qed (use t tiles_det [OF assms(2) _ assms(3)] in auto)
qed

section \<open>The sender\<close>

text \<open>One round of the inner loop of the sender.\<close>

lemma send_fill_cases:
  assumes "send_fill api r so m acked next_off st = (res, st')"
  obtains
    (full) "res = Some next_off" and "st' = st"
  | (unread) n e d where "0 < n" "next_off + n \<le> meta_size m" "read_at r next_off (nat n) (tx_src st) = (Inl e, d)"
      "res = None" "st' = tx_return e (st\<lparr>tx_src := d\<rparr>)"
  | (sent) n buf d ec c where "next_off < meta_size m" "0 < n" "next_off + n \<le> meta_size m"
      "read_at r next_off (nat n) (tx_src st) = (Inr buf, d)"
      "mc_send api (encode_chunk (meta_id m) next_off buf) (tx_conn st) = (ec, c)"
      "(if ec_fails ec then (None, tx_return (map_conn_err ec) (st\<lparr>tx_src := d, tx_conn := c\<rparr>))
        else send_fill api r so m acked (next_off + n) (st\<lparr>tx_src := d, tx_conn := c\<rparr>)) = (res, st')"
proof -
  let ?go = "1 \<le> tx_chunk_size st \<and> count_in_flight acked next_off (tx_chunk_size st) < window so \<and> next_off < meta_size m"
  define n where "n = (if next_off + tx_chunk_size st > meta_size m then meta_size m - next_off else tx_chunk_size st)"
  show thesis
  proof (cases ?go)
    case False
    then have "send_fill api r so m acked next_off st = (Some next_off, st)"
      by (subst send_fill.simps) (rule if_not_P)
    with assms full show thesis by simp
  next
    case True
    then have n: "0 < n" "next_off + n \<le> meta_size m" by (auto simp: n_def)
    obtain rr d where rd: "read_at r next_off (nat n) (tx_src st) = (rr, d)" by fastforce
    show thesis
    proof (cases rr)
      case (Inl e)
      then have "send_fill api r so m acked next_off st = (None, tx_return e (st\<lparr>tx_src := d\<rparr>))"
        using True rd by (subst send_fill.simps) (simp add: n_def [symmetric])
      with assms unread n rd Inl show thesis by simp
    next
      case (Inr buf)
      obtain ec c where sd: "mc_send api (encode_chunk (meta_id m) next_off buf) (tx_conn st) = (ec, c)" by fastforce
      have "send_fill api r so m acked next_off st =
          (if ec_fails ec then (None, tx_return (map_conn_err ec) (st\<lparr>tx_src := d, tx_conn := c\<rparr>))
           else send_fill api r so m acked (next_off + n) (st\<lparr>tx_src := d, tx_conn := c\<rparr>))"
        using True rd Inr sd by (subst send_fill.simps) (simp add: n_def [symmetric])
      with assms show thesis using sent [OF _ n _ sd] True rd Inr by simp
    qed
  qed
qed

context logged_conn
begin

text \<open>The routine itself receives nothing between two of its pending calls.\<close>

lemma send_fill_keeps:
  assumes "send_fill api r so m acked next_off st = (res, st')" and "ok (tx_conn st)"
  shows "ok (tx_conn st') \<and> recvd (tx_conn st') = recvd (tx_conn st)"
  using assms
proof (induction "nat (meta_size m - next_off)" arbitrary: next_off st rule: less_induct)
  case less
  from less.prems(1) show ?case
  proof (cases rule: send_fill_cases)
    case (sent n buf d ec c)
    with send_log [OF sent(5) less.prems(2)] less.hyps [of "next_off + n" "st\<lparr>tx_src := d, tx_conn := c\<rparr>"]
    show ?thesis by (auto simp: tx_return_def split: if_splits)
  qed (use less.prems in \<open>auto simp: tx_return_def\<close>)
qed

lemma send_loop_keeps:
  assumes "ok (tx_conn st)"
  shows "ok (tx_conn (send_loop api r so m acked next_off st)) \<and>
    recvd (tx_conn (send_loop api r so m acked next_off st)) = recvd (tx_conn st)"
  using assms
  by (auto simp: send_loop_def finish_send_def tx_return_def Let_def split: prod.splits option.splits if_splits
      dest: send_fill_keeps send_log)

lemma send_step_keeps:
  assumes "ok (tx_conn st)"
  shows "ok (tx_conn (send_on_msg api r so m ph res st)) \<and>
    recvd (tx_conn (send_on_msg api r so m ph res st)) = recvd (tx_conn st)"
  using assms
  by (cases ph)
    (auto simp: send_on_accept_def send_on_ack_def finish_send_reply_def finish_send_def tx_return_def Let_def
      send_loop_keeps tx_report_def split: sum.splits prod.splits dest: send_log)

end

text \<open>The first message received, if it is an acceptance, is one at \<open>resume\<close>.\<close>

definition accepts_at :: "int \<Rightarrow> bytes list \<Rightarrow> bool" where
  "accepts_at resume msgs \<longleftrightarrow>
     (\<forall>f fs dec. msgs = f # fs \<longrightarrow> decode_frame f = Inr dec \<longrightarrow> d_typ dec = kTypeAccept \<longrightarrow> d_offset dec = resume)"

lemma accepts_at_append: "accepts_at resume (xs @ ys) \<Longrightarrow> accepts_at resume xs"
  by (cases xs) (auto simp: accepts_at_def)

locale logged_sender = logged_conn api ok sent recvd + source_at r content
  for api :: "'c msg_conn" and ok sent recvd and r :: "'d reader_at" and content +
  fixes m :: meta and resume :: int and data :: bytes
  assumes size: "meta_size m = int (length data)"
begin

definition is_data :: "'d \<Rightarrow> bool" where
  "is_data d \<longleftrightarrow> content d = data"

lemma is_data_keep: "content d' = content d \<Longrightarrow> is_data d' = is_data d"
  by (simp add: is_data_def)

text \<open>The chunks up to \<open>next_off\<close> have been sent.\<close>

definition sent_upto :: "int \<Rightarrow> 'c \<Rightarrow> bool" where
  "sent_upto next_off c \<longleftrightarrow> 0 \<le> next_off \<and> next_off \<le> meta_size m \<and>
     (\<exists>cl. sent c = offer_bytes m # cl \<and> tiles (meta_id m) data (nat resume) cl (nat next_off))"

fun snd_phase_ok :: "snd_phase \<Rightarrow> 'c \<Rightarrow> bool" where
  "snd_phase_ok SndAccept c \<longleftrightarrow> recvd c = [] \<and> sent c = [offer_bytes m]"
| "snd_phase_ok (SndAck acked next_off) c \<longleftrightarrow> recvd c \<noteq> [] \<and> acked \<le> next_off \<and> sent_upto next_off c"
| "snd_phase_ok SndDone c \<longleftrightarrow> recvd c \<noteq> [] \<and> honest_frames m data (nat resume) (sent c)"
| "snd_phase_ok (SndRet ec) c \<longleftrightarrow> honest_frames m data (nat resume) (sent c)"

definition snd_ok :: "('c, 'd) tx \<Rightarrow> bool" where
  "snd_ok st \<longleftrightarrow> is_data (tx_src st) \<and> snd_phase_ok (tx_phase st) (tx_conn st)"

lemma sent_upto_honest: "sent_upto n c \<Longrightarrow> honest_frames m data (nat resume) (sent c)"
  by (auto simp: sent_upto_def intro: honest_tiles)

lemma sent_next:
  assumes "sent_upto next_off c" and "0 < n" and "next_off + int n \<le> meta_size m"
    and "sent c' = sent c @ [encode_chunk (meta_id m) next_off (take n (drop (nat next_off) data))]"
  shows "sent_upto (next_off + int n) c'"
proof -
  from assms(1) obtain cl where cl: "sent c = offer_bytes m # cl"
    "tiles (meta_id m) data (nat resume) cl (nat next_off)" "0 \<le> next_off" by (auto simp: sent_upto_def)
  have "tiles (meta_id m) data (nat next_off) [encode_chunk (meta_id m) next_off (take n (drop (nat next_off) data))]
      (nat (next_off + int n))"
    using assms(2,3) cl(3) size by (auto simp: nat_add_distrib intro!: exI [of _ n])
  with cl(2) have "tiles (meta_id m) data (nat resume)
      (cl @ [encode_chunk (meta_id m) next_off (take n (drop (nat next_off) data))]) (nat (next_off + int n))"
    unfolding tiles_append by blast
  with cl assms show ?thesis by (simp add: sent_upto_def)
qed

lemma send_fill_log:
  assumes "send_fill api r so m acked next_off st = (res, st')" and "ok (tx_conn st)" and "is_data (tx_src st)"
    and "sent_upto next_off (tx_conn st)"
  shows "ok (tx_conn st') \<and> recvd (tx_conn st') = recvd (tx_conn st) \<and> is_data (tx_src st') \<and>
    (case res of Some n \<Rightarrow> next_off \<le> n \<and> sent_upto n (tx_conn st')
     | None \<Rightarrow> (\<exists>ec. tx_phase st' = SndRet ec) \<and> honest_frames m data (nat resume) (sent (tx_conn st')))"
  using assms
proof (induction "nat (meta_size m - next_off)" arbitrary: next_off st rule: less_induct)
  case less
  from less.prems(1) show ?case
  proof (cases rule: send_fill_cases)
    case full
    with less.prems show ?thesis by simp
  next
    case (unread n e d)
    with less.prems is_data_keep [OF read_keeps [OF unread(3)]] show ?thesis
      by (auto simp: tx_return_def intro: sent_upto_honest)
  next
    case (sent n buf d ec c)
    note lg = send_log [OF sent(5) less.prems(2)]
    have off: "0 \<le> next_off" using less.prems(4) by (simp add: sent_upto_def)
    have d: "is_data d" using is_data_keep [OF read_keeps [OF sent(4)]] less.prems(3) by simp
    have buf: "buf = take (nat n) (drop (nat next_off) data)"
      using read_sound [OF sent(4) off] less.prems(3) by (simp add: is_data_def)
    show ?thesis
    proof (cases "ec_fails ec")
      case True
      with sent(6) less.prems lg d show ?thesis by (auto simp: tx_return_def intro: sent_upto_honest)
    next
      case False
      have "sent_upto (next_off + n) c"
        using sent_next [OF less.prems(4), of "nat n" c] sent(2,3) lg False buf by simp
      with less.hyps [of "next_off + n" "st\<lparr>tx_src := d, tx_conn := c\<rparr>"] sent False less.prems lg d
      show ?thesis by (auto split: option.splits)
    qed
  qed
qed

lemma finish_send_log:
  assumes "ok (tx_conn st)" and "recvd (tx_conn st) \<noteq> []" and "is_data (tx_src st)"
    and "sent_upto (meta_size m) (tx_conn st)"
  shows "snd_ok (finish_send api m st)"
proof -
  obtain ec c where sd: "mc_send api (encode_done (meta_id m) True (meta_hash m)) (tx_conn st) = (ec, c)" by fastforce
  have "honest_frames m data (nat resume) (sent (tx_conn st) @ [encode_done (meta_id m) True (meta_hash m)])"
    using assms(4) size by (auto simp: sent_upto_def intro: honest_done)
  with sd assms send_log [OF sd assms(1)] sent_upto_honest [OF assms(4)] show ?thesis
    by (simp add: finish_send_def tx_return_def snd_ok_def Let_def)
qed

lemma send_loop_log:
  assumes "ok (tx_conn st)" and "recvd (tx_conn st) \<noteq> []" and "is_data (tx_src st)"
    and "acked \<le> next_off" and "sent_upto next_off (tx_conn st)"
  shows "snd_ok (send_loop api r so m acked next_off st)"
proof (cases "acked < meta_size m")
  case True
  obtain res st' where f: "send_fill api r so m acked next_off st = (res, st')" by fastforce
  from send_fill_log [OF f assms(1,3,5)] f True assms show ?thesis
    by (cases res) (auto simp: send_loop_def snd_ok_def)
next
  case False
  then have "next_off = meta_size m" using assms(4,5) by (auto simp: sent_upto_def)
  with finish_send_log [OF assms(1-3)] assms(5) False show ?thesis by (simp add: send_loop_def)
qed

lemma tx_report_sel [simp]:
  "tx_conn (tx_report so x y st) = tx_conn st" "tx_src (tx_report so x y st) = tx_src st"
  "tx_phase (tx_report so x y st) = tx_phase st"
  by (simp_all add: tx_report_def)

lemma send_step_log:
  assumes "snd_ok st" and "\<forall>ec. tx_phase st \<noteq> SndRet ec" and "mc_receive api (tx_conn st) = (res, c)"
    and "ok (tx_conn st)" and "accepts_at resume (recvd c)"
  shows "snd_ok (send_on_msg api r so m (tx_phase st) res (st\<lparr>tx_conn := c\<rparr>))"
proof -
  let ?st = "st\<lparr>tx_conn := c\<rparr>"
  note lg = receive_log [OF assms(3,4)]
  have src: "is_data (tx_src st)" using assms(1) by (simp add: snd_ok_def)
  have hon: "honest_frames m data (nat resume) (sent c)"
    using assms(1,2) lg by (cases "tx_phase st") (auto simp: snd_ok_def sent_upto_honest honest_tiles [of m data _ "[]"])
  have ret: "snd_ok (tx_return ec ?st)" for ec using src hon by (simp add: tx_return_def snd_ok_def)
  show ?thesis
  proof (cases "tx_phase st")
    case SndAccept
    with assms(1) have logs: "recvd (tx_conn st) = []" "sent (tx_conn st) = [offer_bytes m]" by (simp_all add: snd_ok_def)
    have go: "snd_ok (if off = meta_size m then finish_send api m (tx_report so off (meta_size m) ?st)
        else send_loop api r so m off off (tx_report so off (meta_size m) ?st))"
      if "res = Inr msg" "decode_frame msg = Inr dec" "d_typ dec = kTypeAccept" "off = d_offset dec" "0 \<le> off" "off \<le> meta_size m"
      for msg dec off
    proof -
      have "off = resume" using assms(5) lg that logs by (simp add: accepts_at_def)
      then have "sent_upto off c" using lg logs that by (simp add: sent_upto_def)
      with finish_send_log [of "tx_report so off (meta_size m) ?st"]
        send_loop_log [of "tx_report so off (meta_size m) ?st" off off so] lg src that
      show ?thesis by (cases "off = meta_size m") auto
    qed
    show ?thesis
      using ret SndAccept go by (auto simp: send_on_accept_def Let_def split: sum.splits)
  next
    case (SndAck acked next_off)
    with assms(1) lg have logs: "recvd c \<noteq> []" "sent_upto next_off c"
      by (auto simp: snd_ok_def sent_upto_def)
    show ?thesis
      using ret SndAck lg src logs
      by (auto simp: send_on_ack_def Let_def intro!: send_loop_log split: sum.splits)
  next
    case SndDone
    then show ?thesis using ret by (auto simp: finish_send_reply_def split: sum.splits)
  qed (use assms(2) in simp)
qed

lemma send_start_log:
  assumes "ok (tx_conn st)" and "is_data (tx_src st)" and "sent (tx_conn st) = []" and "recvd (tx_conn st) = []"
  shows "snd_ok (send_start api so m st)"
proof -
  have e: "encode_offer m = Inr b \<Longrightarrow> b = offer_bytes m" for b
    by (auto simp: encode_offer_def offer_bytes_def split: if_splits)
  show ?thesis
    using assms by (auto simp: send_start_def Let_def tx_return_def snd_ok_def honest_frames_def e
        split: sum.splits prod.splits dest!: send_log)
qed

text \<open>The whole routine.\<close>

lemma send_start_keeps:
  "ok (tx_conn st) \<Longrightarrow> ok (tx_conn (send_start api so m st))"
  by (auto simp: send_start_def Let_def tx_return_def split: sum.splits prod.splits dest: send_log)

theorem send_once_log:
  assumes "send_once api r so m st = Some st'" and "ok (tx_conn st)" and "content (tx_src st) = data"
    and "sent (tx_conn st) = []" and "recvd (tx_conn st) = []" and "accepts_at resume (recvd (tx_conn st'))"
  shows "honest_frames m data (nat resume) (sent (tx_conn st')) \<and> ok (tx_conn st')"
proof -
  let ?P = "\<lambda>st. ok (tx_conn st) \<and> (accepts_at resume (recvd (tx_conn st)) \<longrightarrow> snd_ok st)"
  have "?P st' \<and> (\<exists>ec. tx_phase st' = SndRet ec)"
  proof (rule send_drive_induct [OF assms(1) [unfolded send_once_def]])
    show "?P (send_start api so m st)"
      using send_start_log [of st so] send_start_keeps [of st so] assms(2-5) by (simp add: is_data_def)
  next
    fix st msg_r c
    assume P: "?P st" and ph: "\<forall>ec. tx_phase st \<noteq> SndRet ec" and rc: "mc_receive api (tx_conn st) = (msg_r, c)"
    note lg = receive_log [OF rc] and k = send_step_keeps [of "st\<lparr>tx_conn := c\<rparr>" r so m "tx_phase st" msg_r]
    from P lg have ok: "ok c" "recvd c = recvd (tx_conn st) @ (case msg_r of Inl ec \<Rightarrow> [] | Inr b \<Rightarrow> [b])" by simp_all
    have "snd_ok (send_on_msg api r so m (tx_phase st) msg_r (st\<lparr>tx_conn := c\<rparr>))" if "accepts_at resume (recvd c)"
      using send_step_log [OF _ ph rc _ that] P accepts_at_append that ok(2) by metis
    with k ok(1) show "?P (send_on_msg api r so m (tx_phase st) msg_r (st\<lparr>tx_conn := c\<rparr>))" by simp
  qed
  with assms(6) show ?thesis by (auto simp: snd_ok_def)
qed

end

end
