(* ===== verification/Tdx_Transfer_Stored.thy ===== *)
theory Tdx_Transfer_Stored
  imports Tdx_Transfer_Logged
begin

text \<open>
  The receiver of a transfer over a connection with histories: what it answers to the offer, and that
  the honest frames put a prefix of the data into its sink.
\<close>

section \<open>What the receiver answers\<close>

context logged_conn
begin

text \<open>The handlers only send.\<close>

definition extends :: "'c \<Rightarrow> 'c \<Rightarrow> bool" where
  "extends c c' \<longleftrightarrow> ok c' \<and> recvd c' = recvd c \<and> (\<exists>xs. sent c' = sent c @ xs)"

lemma extends_refl: "ok c \<Longrightarrow> extends c c"
  by (simp add: extends_def)

lemma extends_trans: "extends a b \<Longrightarrow> extends b c \<Longrightarrow> extends a c"
  by (auto simp: extends_def)

lemma rx_send_log:
  assumes "rx_send api b st = (ec, st')" and "ok (rx_conn st)"
  shows "ok (rx_conn st') \<and> recvd (rx_conn st') = recvd (rx_conn st) \<and>
    sent (rx_conn st') = (if ec_fails ec then sent (rx_conn st) else sent (rx_conn st) @ [b])"
  using assms by (auto simp: rx_send_def Let_def split: prod.splits dest: send_log)

lemma rx_send_extends: "rx_send api b st = (ec, st') \<Longrightarrow> ok (rx_conn st) \<Longrightarrow> extends (rx_conn st) (rx_conn st')"
  using rx_send_log [of b st ec st'] by (simp add: extends_def)

lemma rx_conn_same [simp]:
  "rx_conn (rx_return ec st) = rx_conn st" "rx_conn (rx_fail n ec st) = rx_conn st"
  "rx_conn (receive_loop m hw written since st) = rx_conn st"
  by (simp_all add: rx_return_def rx_fail_def receive_loop_def)

lemma verify_extends: "ok (rx_conn st) \<Longrightarrow> extends (rx_conn st) (rx_conn (verify_and_ack_done api m dec digest st))"
  by (auto simp: verify_and_ack_done_def Let_def split: prod.splits dest: rx_send_extends)

lemma stored_extends:
  "ok (rx_conn st) \<Longrightarrow> extends (rx_conn st) (rx_conn (receive_stored api opts m hw written since st))"
  by (auto simp: receive_stored_def Let_def extends_refl split: prod.splits dest: rx_send_extends)

lemma accepted_extends:
  assumes "ok (rx_conn st)"
  shows "extends (rx_conn st) (rx_conn (receive_accepted lib std api w resume m st))"
  using assms rx_send_extends [of _ "st\<lparr>rx_dst := d\<rparr>" for d]
  by (auto simp: receive_accepted_def Let_def extends_refl split: prod.splits sum.splits option.splits)

lemma on_offer_extends:
  assumes "ok (rx_conn st)"
  shows "extends (rx_conn st) (rx_conn (receive_on_offer lib std api w opts resume em want msg_r st))"
proof -
  have "extends (rx_conn st) (rx_conn (receive_accepted lib std api w resume m ((rx_report opts x y st')\<lparr>rx_out_meta := m\<rparr>)))"
    if "rx_send api b st = (ec, st')" for m b ec st' x y
  proof -
    have "extends (rx_conn st) (rx_conn st')" by (rule rx_send_extends [OF that assms])
    then show ?thesis
      using accepted_extends [of "(rx_report opts x y st')\<lparr>rx_out_meta := m\<rparr>" lib std w resume m]
      by (auto intro: extends_trans simp: extends_def)
  qed
  with assms show ?thesis
    by (auto simp: receive_on_offer_def Let_def extends_refl split: sum.splits prod.splits dest: rx_send_extends)
qed

lemma on_done_extends:
  "ok (rx_conn st) \<Longrightarrow> extends (rx_conn st) (rx_conn (receive_on_done api m n digest msg_r st))"
  using verify_extends [of "st\<lparr>rx_written_out := n\<rparr>" m _ digest]
  by (auto simp: receive_on_done_def extends_refl split: sum.splits)

lemma on_chunk_extends:
  assumes "ok (rx_conn st)"
  shows "extends (rx_conn st) (rx_conn (receive_on_chunk lib std api w opts m hw written since msg_r st))"
  using assms stored_extends [of "st\<lparr>rx_dst := d\<rparr>" opts m hw' n since for d hw' n]
    rx_send_extends [of b "st\<lparr>rx_dst := d\<rparr>" for b d]
    verify_extends [of "st\<lparr>rx_written_out := n\<rparr>" m dec digest for n dec digest]
  by (auto simp: receive_on_chunk_def Let_def extends_refl split: sum.splits prod.splits)

lemma receive_step_extends:
  "ok (rx_conn st) \<Longrightarrow> extends (rx_conn st) (rx_conn (receive_on_msg lib std api w opts resume em want ph msg_r st))"
  by (cases ph) (simp_all add: on_offer_extends on_done_extends on_chunk_extends extends_refl)

end

text \<open>No handler goes back to waiting for an offer.\<close>

lemma offer_phase:
  "rx_phase (receive_on_offer lib std api w opts resume em want msg_r st) \<noteq> RcvOffer"
  by (auto simp: receive_on_offer_def receive_accepted_def receive_loop_def rx_fail_def rx_return_def Let_def
      split: sum.splits prod.splits option.splits)

lemma rx_phase_sel:
  "rx_phase (rx_return ec st) = RcvRet ec" "rx_phase (rx_fail n ec st) = RcvRet ec"
  "rx_phase (receive_loop m hw written since st) \<noteq> RcvOffer"
  "\<exists>ec. rx_phase (verify_and_ack_done api m dec digest st) = RcvRet ec"
  "rx_phase (receive_stored api opts m hw written since st) \<noteq> RcvOffer"
  by (auto simp: rx_return_def rx_fail_def receive_loop_def verify_and_ack_done_def receive_stored_def Let_def
      split: prod.splits)

lemma verify_phase: "rx_phase (verify_and_ack_done api m dec digest st) \<noteq> RcvOffer"
  using rx_phase_sel(4) [of api m dec digest st] by auto

lemma later_phase:
  "ph \<noteq> RcvOffer \<Longrightarrow> \<forall>ec. ph \<noteq> RcvRet ec \<Longrightarrow>
   rx_phase (receive_on_msg lib std api w opts resume em want ph msg_r st) \<noteq> RcvOffer"
  by (cases ph)
    (auto simp: receive_on_done_def receive_on_chunk_def Let_def rx_phase_sel verify_phase split: sum.splits prod.splits)

text \<open>Whatever follows, the first message sent in answer to the offer accepts at \<open>resume\<close> or does not accept.\<close>

lemma accepts_at_extend: "accepts_at resume xs \<Longrightarrow> xs \<noteq> [] \<Longrightarrow> accepts_at resume (xs @ ys)"
  by (cases xs) (auto simp: accepts_at_def)

lemma accepts_at_accept: "length (meta_id m) = 16 \<Longrightarrow> in_i64 resume \<Longrightarrow> accepts_at resume (encode_accept (meta_id m) resume # fs)"
  using decode_encode_frame [of "Accept (meta_id m) resume"] by (simp add: accepts_at_def)

lemma accepts_at_reject: "accepts_at resume (encode_reject tid reason # fs)"
  using decode_frame_header [of "encode_reject tid reason"]
  by (auto simp: accepts_at_def encode_reject_def Let_def kTransferMagic_def type_defs)

locale logged_receiver = logged_conn api ok sent recvd
  for api :: "'c msg_conn" and ok sent recvd +
  fixes m :: meta and resume :: int and data :: bytes
  assumes size: "meta_size m = int (length data)" and offer_wf: "frame_wf (Offer m)"
    and res: "0 \<le> resume" "resume \<le> int (length data)"
begin

lemma res64: "in_i64 resume" "length (meta_id m) = 16"
  using res offer_wf size by (auto simp: in_i64_def)

lemma decode_own_offer: "decode_frame (offer_bytes m) = Inr (decoded_of (Offer m))"
  using decode_encode_frame [OF offer_wf] by simp

definition answered :: "('c, 'd, 'h) rx \<Rightarrow> bool" where
  "answered st \<longleftrightarrow> ok (rx_conn st) \<and>
     (rx_phase st = RcvOffer \<longrightarrow> recvd (rx_conn st) = [] \<and> sent (rx_conn st) = []) \<and>
     (recvd (rx_conn st) = [] \<longrightarrow> sent (rx_conn st) = [] \<and> (rx_phase st = RcvOffer \<or> (\<exists>ec. rx_phase st = RcvRet ec))) \<and>
     (\<forall>fs. recvd (rx_conn st) = offer_bytes m # fs \<longrightarrow> accepts_at resume (sent (rx_conn st)) \<and>
        (sent (rx_conn st) = [] \<longrightarrow> (\<exists>ec. rx_phase st = RcvRet ec)))"

lemma offer_answered:
  fixes st :: "('c, 'd, 'h) rx"
  assumes "ok (rx_conn st)" and "sent (rx_conn st) = []" and "recvd (rx_conn st) = [offer_bytes m]"
  shows "answered (receive_on_offer lib std api w opts resume em want (Inr (offer_bytes m)) st)"
proof -
  have ret: "answered (rx_fail n e st')"
    if "ok (rx_conn st')" "recvd (rx_conn st') = [offer_bytes m]" "accepts_at resume (sent (rx_conn st'))"
    for n e and st' :: "('c, 'd, 'h) rx"
    using that by (simp add: answered_def rx_fail_def rx_return_def)
  have acc: "answered (receive_accepted lib std api w resume m st')"
    if "ok (rx_conn st')" "recvd (rx_conn st') = [offer_bytes m]" "sent (rx_conn st') = [encode_accept (meta_id m) resume]"
    for st' :: "('c, 'd, 'h) rx"
  proof -
    note h = that
    let ?t = "receive_accepted lib std api w resume m st'"
    have "extends (rx_conn st') (rx_conn ?t)" by (rule accepted_extends [OF that(1)])
    then obtain xs where "ok (rx_conn ?t)" "recvd (rx_conn ?t) = [offer_bytes m]"
      "sent (rx_conn ?t) = encode_accept (meta_id m) resume # xs"
      using h by (auto simp: extends_def)
    moreover have "rx_phase ?t \<noteq> RcvOffer"
      by (auto simp: receive_accepted_def Let_def rx_fail_def rx_return_def receive_loop_def split: prod.splits sum.splits option.splits)
    ultimately show ?thesis using accepts_at_accept [OF res64(2,1)] by (simp add: answered_def)
  qed
  have sends: "ok (rx_conn st') \<and> recvd (rx_conn st') = [offer_bytes m] \<and>
      sent (rx_conn st') = (if ec_fails ec then [] else [b])" if "rx_send api b st = (ec, st')" for b ec st'
    using rx_send_log [OF that assms(1)] assms(2,3) by simp
  have nil: "accepts_at resume []" by (simp add: accepts_at_def)
  show ?thesis
    using decode_own_offer res size
    by (auto simp: receive_on_offer_def Let_def default_decoded_def type_defs nil accepts_at_reject
        intro!: ret acc split: prod.splits if_splits dest!: sends)
qed

lemma step_answered:
  assumes "answered st" and "\<forall>ec. rx_phase st \<noteq> RcvRet ec" and "mc_receive api (rx_conn st) = (msg_r, c)"
  shows "answered (receive_on_msg lib std api w opts resume em want (rx_phase st) msg_r (st\<lparr>rx_conn := c\<rparr>))"
    (is "answered ?t")
proof -
  have ok: "ok (rx_conn st)" using assms(1) by (simp add: answered_def)
  note lg = receive_log [OF assms(3) ok]
  have ext: "extends c (rx_conn ?t)" using receive_step_extends [of "st\<lparr>rx_conn := c\<rparr>"] lg by simp
  then obtain xs where xs: "ok (rx_conn ?t)" "recvd (rx_conn ?t) = recvd c" "sent (rx_conn ?t) = sent c @ xs"
    by (auto simp: extends_def)
  show ?thesis
  proof (cases "rx_phase st = RcvOffer")
    case True
    then have z: "recvd (rx_conn st) = []" "sent (rx_conn st) = []" using assms(1) by (simp_all add: answered_def)
    show ?thesis
    proof (cases msg_r)
      case (Inl ec)
      with True z lg show ?thesis
        by (simp add: receive_on_offer_def answered_def rx_fail_def rx_return_def)
    next
      case (Inr b)
      show ?thesis
      proof (cases "b = offer_bytes m")
        case True
        with Inr \<open>rx_phase st = RcvOffer\<close> z lg show ?thesis by (simp add: offer_answered)
      next
        case False
        with Inr \<open>rx_phase st = RcvOffer\<close> z lg xs show ?thesis using offer_phase
          by (simp add: answered_def)
      qed
    qed
  next
    case False
    then have "rx_phase ?t \<noteq> RcvOffer" using later_phase assms(2) by blast
    moreover obtain f fs where f: "recvd (rx_conn st) = f # fs"
      using assms(1,2) False by (cases "recvd (rx_conn st)") (auto simp: answered_def)
    moreover have "accepts_at resume (sent (rx_conn st))" "sent (rx_conn st) \<noteq> []" if "f = offer_bytes m"
      using assms(1,2) f that by (auto simp: answered_def)
    ultimately show ?thesis using xs lg accepts_at_extend by (auto simp: answered_def)
  qed
qed

lemma receive_once_answered:
  assumes "receive_once lib std api w opts resume em want st = Some st'" and "ok (rx_conn st)"
    and "sent (rx_conn st) = []" and "recvd (rx_conn st) = []"
  shows "answered st'"
proof -
  have "answered (st\<lparr>rx_phase := RcvOffer\<rparr>)" using assms(2-4) by (simp add: answered_def accepts_at_def)
  with assms(1) have "answered st' \<and> (\<exists>ec. rx_phase st' = RcvRet ec)"
    unfolding receive_once_def by (rule receive_drive_induct) (rule step_answered)
  then show ?thesis ..
qed

end

section \<open>What the receiver stores\<close>

text \<open>A sink in which a write that leaves no gap puts the bytes, or the first of them when it fails.\<close>

locale partial_sink = sink_at +
  assumes write_part: "write_at w off b d = (ec, d') \<Longrightarrow> 0 \<le> off \<Longrightarrow> nat off \<le> length (content d) \<Longrightarrow>
    \<exists>k \<le> length b. content d' = take (nat off) (content d) @ take k b @ drop (nat off + k) (content d)"

interpretation file_snk: partial_sink FileWriterAt fs_content
proof
  fix off b d ec d'
  assume w: "write_at FileWriterAt off b d = (ec, d')" and off: "0 \<le> off" "nat off \<le> length (fs_content d)"
  let ?k = "if fs_fail d then 0 else min (fs_room d - nat off) (length b)"
  have "fs_content d' = take (nat off) (fs_content d) @ take ?k b @ drop (nat off + ?k) (fs_content d)"
    using w off
    by (auto simp: FileWriterAt_def FileWriterAt_write_at_def fstream_seek_def fstream_write_def overwrite_inside Let_def min_def)
  then show "\<exists>k \<le> length b. fs_content d' = take (nat off) (fs_content d) @ take k b @ drop (nat off + k) (fs_content d)"
    by (intro exI [of _ ?k]) simp
qed

text \<open>Writing a piece of the data over a part of the data that reaches its place.\<close>

lemma write_piece:
  assumes "prefix c data" and "n \<le> length c" and "k \<le> j" and "n + j \<le> length data"
  shows "take n c @ take k (take j (drop n data)) @ drop (n + k) c = take (max (n + k) (length c)) data"
proof -
  obtain r where d: "data = c @ r" using assms(1) by (auto elim: prefixE)
  have a: "take n c @ take k (take j (drop n data)) = take (n + k) data"
    using assms(2,3) d take_add [of n k data] by (simp add: min_def add.commute)
  have "take (n + k) data @ drop (n + k) c = take (max (n + k) (length c)) data"
    using d by (cases "n + k \<le> length c") (simp_all add: max_def)
  with a show ?thesis by (metis append.assoc)
qed

locale stored_receiver = logged_receiver api ok sent recvd m resume data + partial_sink w content + crypto_api lib
  for api :: "'c msg_conn" and ok sent recvd m resume data
    and w :: "'d writer_at" and content and lib :: "('h, 'r) crypto_lib"
begin

definition has_upto :: "int \<Rightarrow> 'd \<Rightarrow> bool" where
  "has_upto n d \<longleftrightarrow> resume \<le> n \<and> prefix (content d) data \<and> nat n \<le> length (content d)"

definition is_meta :: "meta \<Rightarrow> bool" where
  "is_meta om \<longleftrightarrow> om = m"

lemma is_meta_m [simp]: "is_meta m"
  by (simp add: is_meta_def)

lemma has_upto_keep: "content d' = content d \<Longrightarrow> has_upto n d' = has_upto n d"
  by (simp add: has_upto_def)

text \<open>The offer and the chunks up to \<open>n\<close> have been received.\<close>

definition got_upto :: "int \<Rightarrow> 'c \<Rightarrow> bool" where
  "got_upto n c \<longleftrightarrow> 0 \<le> n \<and> n \<le> meta_size m \<and>
     (\<exists>cl. recvd c = offer_bytes m # cl \<and> tiles (meta_id m) data (nat resume) cl (nat n))"

fun stored_phase :: "'h rcv_phase \<Rightarrow> 'c \<Rightarrow> 'd \<Rightarrow> int \<Rightarrow> meta \<Rightarrow> bool" where
  "stored_phase RcvOffer c d n om \<longleftrightarrow> recvd c = [] \<and> has_upto resume d"
| "stored_phase (RcvComplete m' digest) c d n om \<longleftrightarrow>
     m' = m \<and> is_meta om \<and> meta_size m = resume \<and> has_upto resume d \<and> got_upto resume c"
| "stored_phase (RcvChunk m' hw written since) c d n om \<longleftrightarrow>
     m' = m \<and> is_meta om \<and> hw_offset hw = written \<and> written < meta_size m \<and> has_upto written d \<and> got_upto written c"
| "stored_phase (RcvFinal m' hw written) c d n om \<longleftrightarrow>
     m' = m \<and> is_meta om \<and> written = meta_size m \<and> has_upto written d \<and> got_upto written c"
| "stored_phase (RcvRet ec) c d n om \<longleftrightarrow> has_upto n d \<and> (\<not> ec_fails ec \<longrightarrow> has_upto (meta_size m) d \<and> is_meta om)"

definition stored :: "('c, 'd, 'h) rx \<Rightarrow> bool" where
  "stored st \<longleftrightarrow> stored_phase (rx_phase st) (rx_conn st) (rx_dst st) (rx_written_out st) (rx_out_meta st)"

lemma fail_stored: "ec_fails ec \<Longrightarrow> has_upto n (rx_dst st) \<Longrightarrow> stored (rx_fail n ec st)"
  by (simp add: stored_def rx_fail_def rx_return_def)

lemma return_stored: "has_upto (rx_written_out st) (rx_dst st) \<Longrightarrow>
    (\<not> ec_fails ec \<Longrightarrow> has_upto (meta_size m) (rx_dst st) \<and> is_meta (rx_out_meta st)) \<Longrightarrow> stored (rx_return ec st)"
  by (simp add: stored_def rx_return_def)

lemma loop_stored:
  assumes "is_meta (rx_out_meta st)" and "hw_offset hw = written" and "has_upto written (rx_dst st)" and "got_upto written (rx_conn st)"
  shows "stored (receive_loop m hw written since st)"
  using assms by (auto simp: receive_loop_def stored_def got_upto_def)

lemma accepted_stored:
  assumes "is_meta (rx_out_meta st)" and "has_upto resume (rx_dst st)" and "got_upto resume (rx_conn st)"
  shows "stored (receive_accepted lib std api w resume m st)"
proof (cases "meta_size m = resume")
  case True
  show ?thesis
  proof (cases "as_reader w")
    case None
    with True assms show ?thesis by (simp add: receive_accepted_def stored_def)
  next
    case (Some ra)
    obtain rr d where h: "hash_reader lib ra (meta_size m) (rx_dst st) = (rr, d)" by fastforce
    note src = reader_sound [OF Some]
    have "content d = content (rx_dst st)"
      using source_at.hash_reader_keeps [OF src crypto_api_axioms h] res(1) True by simp
    then have d: "has_upto resume d" using has_upto_keep assms(2) by blast
    show ?thesis
    proof (cases rr)
      case (Inl e)
      with h source_at.hash_reader_fails [OF src] have "ec_fails e" by blast
      with Inl h True Some d show ?thesis by (simp add: receive_accepted_def fail_stored)
    next
      case (Inr digest)
      with h True Some d assms show ?thesis by (simp add: receive_accepted_def stored_def)
    qed
  qed
next
  case False
  obtain rr d where h: "HashingWriter_init lib w resume (rx_dst st) = (rr, d)" by fastforce
  have keep: "content d = content (rx_dst st)"
    using h res(1) source_at.hash_loop_sound [OF reader_sound crypto_api_axioms _ order.refl]
    by (fastforce simp: HashingWriter_init_def Let_def split: if_splits option.splits prod.splits sum.splits)
  then have d: "has_upto resume d" using has_upto_keep assms(2) by blast
  show ?thesis
  proof (cases rr)
    case (Inl hec)
    with HashingWriter_init_ok [OF crypto_api_axioms h res(1)] have "ec_fails hec" by simp
    with Inl h False d show ?thesis
      by (auto simp: receive_accepted_def Let_def intro!: fail_stored split: prod.splits)
  next
    case (Inr hw)
    with HashingWriter_init_ok [OF crypto_api_axioms h res(1)] have "hw_offset hw = resume" by (simp add: hashed_def)
    with Inr h False d assms loop_stored [of "st\<lparr>rx_dst := d\<rparr>" hw resume 0] show ?thesis by (simp add: receive_accepted_def)
  qed
qed

lemma got_offer: "recvd c = [offer_bytes m] \<Longrightarrow> got_upto resume c"
  using res size by (simp add: got_upto_def)

lemma got_next:
  assumes "got_upto n c" and "recvd c' = recvd c @ [f]" and "honest_frames m data (nat resume) (recvd c')"
  shows "(\<exists>k. 0 < k \<and> n + int k \<le> meta_size m \<and> f = encode_chunk (meta_id m) n (take k (drop (nat n) data)) \<and>
      got_upto (n + int k) c') \<or> n = meta_size m \<and> f = encode_done (meta_id m) True (meta_hash m)"
proof -
  from assms(1) obtain cl where cl: "0 \<le> n" "recvd c = offer_bytes m # cl" "tiles (meta_id m) data (nat resume) cl (nat n)"
    by (auto simp: got_upto_def)
  have "nat resume \<le> length data" using res by simp
  from honest_next [OF _ cl(3) this, of f] assms(2,3) cl(2)
  consider k where "0 < k" "nat n + k \<le> length data" "f = encode_chunk (meta_id m) (int (nat n)) (take k (drop (nat n) data))"
      "tiles (meta_id m) data (nat resume) (cl @ [f]) (nat n + k)"
    | "nat n = length data" "f = encode_done (meta_id m) True (meta_hash m)" by auto
  then show ?thesis
  proof cases
    case 1
    with cl assms(2) size show ?thesis
      by (intro disjI1 exI [of _ k]) (auto simp: got_upto_def nat_add_distrib)
  next
    case 2
    with cl(1) size show ?thesis by auto
  qed
qed

lemma offer_stored:
  assumes "recvd (rx_conn st) = [offer_bytes m]" and "has_upto resume (rx_dst st)" and "ok (rx_conn st)"
  shows "stored (receive_on_offer lib std api w opts resume em want (Inr (offer_bytes m)) st)"
proof -
  have sends: "got_upto resume (rx_conn st') \<and> rx_dst st' = rx_dst st" if "rx_send api b st = (ec, st')" for b ec st'
    using rx_send_log [OF that assms(3)] assms(1) that by (auto intro!: got_offer)
  show ?thesis
    using decode_own_offer res size assms(2)
    by (auto simp: receive_on_offer_def Let_def default_decoded_def type_defs ec_simps map_conn_err_fails
        simp del: ec_fails.simps
        intro!: fail_stored accepted_stored split: prod.splits if_splits dest!: sends)
qed

lemma verify_stored:
  assumes "has_upto (meta_size m) (rx_dst st)" and "rx_written_out st = meta_size m" and "is_meta (rx_out_meta st)"
  shows "stored (verify_and_ack_done api m dec digest st)"
  using assms
  by (auto simp: verify_and_ack_done_def Let_def intro!: return_stored split: prod.splits)

lemma done_stored:
  assumes "has_upto (meta_size m) (rx_dst st)" and "is_meta (rx_out_meta st)" and "\<And>ec. msg_r = Inl ec \<Longrightarrow> ec_fails ec"
  shows "stored (receive_on_done api m (meta_size m) digest msg_r st)"
  using assms
  by (auto simp: receive_on_done_def map_conn_err_fails decode_frame_fails ec_simps simp del: ec_fails.simps
      intro!: fail_stored verify_stored split: sum.splits)

lemma written_piece:
  assumes "has_upto n (rx_dst st)" and "0 < k" and "n + int k \<le> meta_size m"
    and "write_at w n (take k (drop (nat n) data)) (rx_dst st) = (ec, d)"
  shows "has_upto n d" and "\<not> ec_fails ec \<Longrightarrow> has_upto (n + int k) d"
proof -
  let ?b = "take k (drop (nat n) data)" and ?c = "content (rx_dst st)"
  have n: "0 \<le> n" "nat n \<le> length ?c" "prefix ?c data" "nat n + k \<le> length data" "resume \<le> n"
    using assms(1,3) size res(1) by (auto simp: has_upto_def)
  then have len: "length ?b = k" by simp
  note pc = write_piece [OF n(3,2) _ n(4)]
  obtain i where i: "i \<le> k" "content d = take (nat n) ?c @ take i ?b @ drop (nat n + i) ?c"
    using write_part [OF assms(4) n(1,2)] len by auto
  with pc [of i] n show "has_upto n d" by (simp add: has_upto_def take_is_prefix)
  show "has_upto (n + int k) d" if "\<not> ec_fails ec"
    using write_sound [OF assms(4) that n(1,2)] pc [of k] n len by (simp add: has_upto_def take_is_prefix nat_add_distrib)
qed

lemma chunk_stored:
  assumes "has_upto n (rx_dst st)" and "is_meta (rx_out_meta st)" and "hw_offset hw = n" and "0 < k"
    and "n + int k \<le> meta_size m" and "got_upto (n + int k) (rx_conn st)" and "ok (rx_conn st)"
  shows "stored (receive_on_chunk lib std api w opts m hw n since (Inr (encode_chunk (meta_id m) n (take k (drop (nat n) data)))) st)"
proof -
  let ?b = "take k (drop (nat n) data)"
  have n: "0 \<le> n" using assms(1) res(1) by (simp add: has_upto_def)
  have wf: "frame_wf (Chunk (meta_id m) n ?b)" using res64 n assms(5) size offer_wf by (auto simp: in_i64_def)
  have dec: "decode_frame (encode_chunk (meta_id m) n ?b) = Inr (decoded_of (Chunk (meta_id m) n ?b))"
    using decode_encode_frame [OF wf] by simp
  have len: "length ?b = k" using n assms(5) size by simp
  obtain e hw' d where wr: "HashingWriter_write_at lib w ?b n hw (rx_dst st) = (e, hw', d)" by (metis prod_cases3)
  then obtain ec where w0: "write_at w n ?b (rx_dst st) = (ec, d)" and
    eq: "ec_fails e = ec_fails ec" "\<not> ec_fails ec \<Longrightarrow> hw_offset hw' = n + int k"
    using assms(3) len
    by (cases "write_at w n ?b (rx_dst st)")
      (auto simp: HashingWriter_write_at_def Let_def split: if_splits)
  note up = written_piece [OF assms(1,4,5) w0]
  show ?thesis
  proof (cases "ec_fails ec")
    case True
    with dec wr eq(1) up(1) assms(5) len show ?thesis
      by (auto simp: receive_on_chunk_def type_defs Let_def default_decoded_def intro!: fail_stored split: prod.splits)
  next
    case False
    have st: "stored (receive_stored api opts m hw' (n + int k) since (st\<lparr>rx_dst := d\<rparr>))"
      using up(2) [OF False] assms(2,6,7) eq(2) [OF False] rx_send_log [of _ "rx_report opts (n + int k) (meta_size m) (st\<lparr>rx_dst := d\<rparr>)"]
      by (auto simp: receive_stored_def Let_def got_upto_def map_conn_err_fails intro!: fail_stored loop_stored split: prod.splits)
    with dec wr eq(1) False assms(5) len show ?thesis
      by (simp add: receive_on_chunk_def type_defs Let_def default_decoded_def)
  qed
qed

lemma step_stored:
  assumes inv: "stored st" and ph: "\<forall>ec. rx_phase st \<noteq> RcvRet ec" and rc: "mc_receive api (rx_conn st) = (msg_r, c)"
    and ok: "ok (rx_conn st)" and hon: "honest_frames m data (nat resume) (recvd c)"
  shows "stored (receive_on_msg lib std api w opts resume em want (rx_phase st) msg_r (st\<lparr>rx_conn := c\<rparr>))"
proof -
  note lg = receive_log [OF rc ok]
  have err: "ec_fails ec" if "msg_r = Inl ec" for ec using receive_fails rc that by blast
  show ?thesis
  proof (cases "rx_phase st")
    case RcvOffer
    with inv have z: "recvd (rx_conn st) = []" "has_upto resume (rx_dst st)" by (simp_all add: stored_def)
    show ?thesis
    proof (cases msg_r)
      case (Inl ec)
      with err have "ec_fails ec" by simp
      with Inl RcvOffer z(2) show ?thesis
        by (simp add: receive_on_offer_def fail_stored map_conn_err_fails)
    next
      case (Inr b)
      with lg z hon have "recvd c = [b]" "b = offer_bytes m" by (simp_all add: honest_first)
      with Inr RcvOffer z lg offer_stored [of "st\<lparr>rx_conn := c\<rparr>"] show ?thesis by simp
    qed
  next
    case (RcvComplete m' digest)
    with inv have "m' = m" "meta_size m = resume" "has_upto (meta_size m) (rx_dst st)" "is_meta (rx_out_meta st)" by (simp_all add: stored_def)
    with RcvComplete err done_stored [of "st\<lparr>rx_conn := c\<rparr>" msg_r digest] show ?thesis by simp
  next
    case (RcvFinal m' hw n)
    with inv have "m' = m" "n = meta_size m" "has_upto (meta_size m) (rx_dst st)" "is_meta (rx_out_meta st)" by (auto simp: stored_def)
    with RcvFinal err done_stored [of "st\<lparr>rx_conn := c\<rparr>" msg_r "HashingWriter_sum lib hw"] show ?thesis by simp
  next
    case (RcvChunk m' hw n since)
    with inv have z: "m' = m" "hw_offset hw = n" "n < meta_size m" "has_upto n (rx_dst st)" "is_meta (rx_out_meta st)"
      "got_upto n (rx_conn st)" by (simp_all add: stored_def)
    show ?thesis
    proof (cases msg_r)
      case (Inl ec)
      with err have "ec_fails ec" by simp
      with Inl RcvChunk z(4) show ?thesis
        by (simp add: receive_on_chunk_def fail_stored map_conn_err_fails)
    next
      case (Inr b)
      with lg got_next [OF z(6) _ hon, of b] z(3) obtain k where
        k: "0 < k" "n + int k \<le> meta_size m" "b = encode_chunk (meta_id m) n (take k (drop (nat n) data))" "got_upto (n + int k) c"
        by auto
      have "0 \<le> n" using z(6) by (simp add: got_upto_def)
      with chunk_stored [of n "st\<lparr>rx_conn := c\<rparr>" hw k] k z lg Inr RcvChunk show ?thesis by simp
    qed
  qed (use ph in simp)
qed

lemma receive_once_stored:
  assumes "receive_once lib std api w opts resume em want st = Some st'" and "ok (rx_conn st)"
    and "sent (rx_conn st) = []" and "recvd (rx_conn st) = []" and "prefix (content (rx_dst st)) data" and "nat resume \<le> length (content (rx_dst st))"
    and "honest_frames m data (nat resume) (recvd (rx_conn st'))"
  shows "prefix (content (rx_dst st')) data \<and> resume \<le> rx_written_out st' \<and> nat (rx_written_out st') \<le> length (content (rx_dst st')) \<and>
    (\<forall>ec. rx_phase st' = RcvRet ec \<longrightarrow> \<not> ec_fails ec \<longrightarrow> content (rx_dst st') = data \<and> rx_out_meta st' = m)"
proof -
  let ?P = "\<lambda>st. ok (rx_conn st) \<and> (honest_frames m data (nat resume) (recvd (rx_conn st)) \<longrightarrow> stored st)"
  have "?P st' \<and> (\<exists>ec. rx_phase st' = RcvRet ec)"
  proof (rule receive_drive_induct [OF assms(1) [unfolded receive_once_def]])
    show "?P (st\<lparr>rx_phase := RcvOffer\<rparr>)" using assms(2-6) by (simp add: stored_def has_upto_def)
  next
    fix st msg_r c
    assume P: "?P st" and ph: "\<forall>ec. rx_phase st \<noteq> RcvRet ec" and rc: "mc_receive api (rx_conn st) = (msg_r, c)"
    let ?t = "receive_on_msg lib std api w opts resume em want (rx_phase st) msg_r (st\<lparr>rx_conn := c\<rparr>)"
    have lg: "ok c" "prefix (recvd (rx_conn st)) (recvd c)" using receive_log [OF rc] P by auto
    have "extends c (rx_conn ?t)" using receive_step_extends [of "st\<lparr>rx_conn := c\<rparr>"] lg(1) by simp
    then have t: "ok (rx_conn ?t)" "recvd (rx_conn ?t) = recvd c" by (auto simp: extends_def)
    moreover have "stored ?t" if "honest_frames m data (nat resume) (recvd c)"
      using step_stored [OF _ ph rc _ that] honest_prefix [OF that lg(2)] P by blast
    ultimately show "?P ?t" by simp
  qed
  moreover have "content d = data" if "has_upto (meta_size m) d" for d
    using that size by (auto simp: has_upto_def prefix_def)
  ultimately show ?thesis using assms(7) by (auto simp: stored_def has_upto_def is_meta_def)
qed

end

end
