(* ===== verification/Tdx_Transfer_Confirm.thy ===== *)
theory Tdx_Transfer_Confirm
  imports Tdx_Transfer_Stored
begin

text \<open>
  The last message of a transfer. A receiver that has sent a positive final frame returns success at
  once, and a sender succeeds only when it has received one: over any connection with histories the
  success of the sender is the success of the receiver.
\<close>

definition is_done_ok :: "bytes \<Rightarrow> bool" where
  "is_done_ok f \<longleftrightarrow> (\<exists>dec. decode_frame f = Inr dec \<and> d_typ dec = kTypeDone \<and> d_ok dec)"

definition confirmed :: "bytes list \<Rightarrow> bool" where
  "confirmed msgs \<longleftrightarrow> (\<exists>f \<in> set msgs. is_done_ok f)"

lemma confirmed_prefix: "confirmed xs \<Longrightarrow> prefix xs ys \<Longrightarrow> confirmed ys"
  by (auto simp: confirmed_def prefix_def)

lemma not_done_ok:
  "\<not> is_done_ok (encode_accept tid n)" "\<not> is_done_ok (encode_ack tid n)" "\<not> is_done_ok (encode_reject tid r)"
  "\<not> is_done_ok (encode_abort tid r)"
  using decode_frame_header
  by (fastforce simp: is_done_ok_def encode_accept_def encode_ack_def encode_reject_def encode_abort_def Let_def
      kTransferMagic_def type_defs)+

lemma done_false: "length tid = 16 \<Longrightarrow> \<not> is_done_ok (encode_done tid False h)"
  by (auto simp: is_done_ok_def decode_frame_def encode_done_def kTransferMagic_def type_defs Let_def nth_append
      split: if_splits)

lemma offer_id_length:
  assumes "decode_frame b = Inr dec" and "d_typ dec = kTypeOffer"
  shows "length (meta_id (d_meta dec)) = 16"
proof -
  obtain f where "frame_wf f" "dec = decoded_of f" using decode_frame_sound [OF assms(1)] by (auto simp: explained_def)
  with assms(2) show ?thesis by (cases f) (auto simp: type_defs default_decoded_def)
qed

section \<open>The receiver\<close>

fun phase_id :: "'h rcv_phase \<Rightarrow> bool" where
  "phase_id (RcvComplete m _) \<longleftrightarrow> length (meta_id m) = 16"
| "phase_id (RcvChunk m _ _ _) \<longleftrightarrow> length (meta_id m) = 16"
| "phase_id (RcvFinal m _ _) \<longleftrightarrow> length (meta_id m) = 16"
| "phase_id _ \<longleftrightarrow> True"

context logged_conn
begin

definition unconfirmed :: "('c, 'd, 'h) rx \<Rightarrow> bool" where
  "unconfirmed st \<longleftrightarrow> ok (rx_conn st) \<and> \<not> confirmed (sent (rx_conn st))"

definition confirms :: "('c, 'd, 'h) rx \<Rightarrow> bool" where
  "confirms st \<longleftrightarrow> ok (rx_conn st) \<and> phase_id (rx_phase st) \<and>
     (confirmed (sent (rx_conn st)) \<longrightarrow> rx_phase st = RcvRet NoError)"

lemma unconfirmed_confirms:
  "unconfirmed st \<Longrightarrow> confirms (rx_return ec st)" "unconfirmed st \<Longrightarrow> confirms (rx_fail n ec st)"
  "unconfirmed st \<Longrightarrow> length (meta_id m) = 16 \<Longrightarrow> confirms (receive_loop m hw written since st)"
  by (auto simp: unconfirmed_def confirms_def rx_return_def rx_fail_def receive_loop_def)

lemma unconfirmed_send:
  "rx_send api b st = (ec, st') \<Longrightarrow> unconfirmed st \<Longrightarrow> \<not> is_done_ok b \<Longrightarrow> unconfirmed st'"
  using rx_send_log [of b st ec st'] by (auto simp: unconfirmed_def confirmed_def)

lemma unconfirmed_upd [simp]:
  "unconfirmed (rx_report opts x y st) = unconfirmed st" "unconfirmed (st\<lparr>rx_dst := d\<rparr>) = unconfirmed st"
  "unconfirmed (st\<lparr>rx_out_meta := om\<rparr>) = unconfirmed st" "unconfirmed (st\<lparr>rx_written_out := n\<rparr>) = unconfirmed st"
  by (simp_all add: unconfirmed_def rx_report_def)

lemma verify_confirms:
  assumes "unconfirmed st" and "length (meta_id m) = 16"
  shows "confirms (verify_and_ack_done api m dec digest st)"
proof (cases "done_ok m dec digest")
  case True
  with assms show ?thesis
    by (auto simp: verify_and_ack_done_def Let_def confirms_def rx_return_def unconfirmed_def split: prod.splits dest!: rx_send_log)
next
  case False
  with assms done_false show ?thesis
    by (auto simp: verify_and_ack_done_def Let_def intro!: unconfirmed_confirms split: prod.splits dest: unconfirmed_send)
qed

lemma accepted_confirms:
  assumes "unconfirmed st" and "length (meta_id m) = 16"
  shows "confirms (receive_accepted lib std api w resume m st)"
  using assms unconfirmed_send [of _ "st\<lparr>rx_dst := d\<rparr>" for d]
  by (auto simp: receive_accepted_def Let_def not_done_ok intro!: unconfirmed_confirms split: option.splits prod.splits sum.splits)
    (auto simp: confirms_def unconfirmed_def)

lemma offer_confirms:
  assumes "unconfirmed st"
  shows "confirms (receive_on_offer lib std api w opts resume em want msg_r st)"
  using assms
  by (auto simp: receive_on_offer_def Let_def not_done_ok offer_id_length split: sum.splits prod.splits if_splits
      intro!: unconfirmed_confirms accepted_confirms dest: unconfirmed_send)
    (metis offer_id_length)

lemma done_confirms:
  "unconfirmed st \<Longrightarrow> length (meta_id m) = 16 \<Longrightarrow> confirms (receive_on_done api m n digest msg_r st)"
  by (auto simp: receive_on_done_def intro!: unconfirmed_confirms verify_confirms split: sum.splits)

lemma stored_confirms:
  assumes "unconfirmed st" and "length (meta_id m) = 16"
  shows "confirms (receive_stored api opts m hw written since st)"
  using assms
  by (auto simp: receive_stored_def Let_def not_done_ok split: prod.splits intro!: unconfirmed_confirms dest: unconfirmed_send)

lemma chunk_confirms:
  assumes "unconfirmed st" and "length (meta_id m) = 16"
  shows "confirms (receive_on_chunk lib std api w opts m hw written since msg_r st)"
  using assms
  by (auto simp: receive_on_chunk_def Let_def not_done_ok split: sum.splits prod.splits
      intro!: unconfirmed_confirms stored_confirms verify_confirms dest: unconfirmed_send)

lemma step_confirms:
  assumes "confirms st" and "\<forall>ec. rx_phase st \<noteq> RcvRet ec" and "mc_receive api (rx_conn st) = (msg_r, c)"
  shows "confirms (receive_on_msg lib std api w opts resume em want (rx_phase st) msg_r (st\<lparr>rx_conn := c\<rparr>))"
proof -
  from assms have "unconfirmed (st\<lparr>rx_conn := c\<rparr>)"
    using receive_log [OF assms(3)] by (simp add: confirms_def unconfirmed_def)
  moreover have "phase_id (rx_phase st)" using assms(1) by (simp add: confirms_def)
  ultimately show ?thesis
    using assms(2) by (cases "rx_phase st") (simp_all add: offer_confirms done_confirms chunk_confirms)
qed

lemma receive_once_confirms:
  assumes "receive_once lib std api w opts resume em want st = Some st'" and "ok (rx_conn st)" and "sent (rx_conn st) = []"
    and "confirmed (sent (rx_conn st'))"
  shows "rx_phase st' = RcvRet NoError"
proof -
  have "confirms (st\<lparr>rx_phase := RcvOffer\<rparr>)" using assms(2,3) by (simp add: confirms_def confirmed_def)
  with assms(1) have "confirms st' \<and> (\<exists>ec. rx_phase st' = RcvRet ec)"
    unfolding receive_once_def by (rule receive_drive_induct) (rule step_confirms)
  with assms(4) show ?thesis by (simp add: confirms_def)
qed

end

section \<open>The sender\<close>

definition tx_success :: "('c, 'd) tx \<Rightarrow> bool" where
  "tx_success st \<longleftrightarrow> (\<exists>ec. tx_phase st = SndRet ec \<and> \<not> ec_fails ec)"

lemma tx_success_return [simp]: "tx_success (tx_return ec st) \<longleftrightarrow> \<not> ec_fails ec"
  by (simp add: tx_success_def tx_return_def)

lemma finish_send_no_success: "\<not> tx_success (finish_send api m st)"
  by (auto simp: finish_send_def Let_def map_conn_err_fails split: prod.splits)
    (simp add: tx_success_def)

context source_at
begin

lemma send_fill_no_success:
  "send_fill api r so m acked next_off st = (None, st') \<Longrightarrow> \<not> tx_success st'"
proof (induction "nat (meta_size m - next_off)" arbitrary: next_off st rule: less_induct)
  case less
  from less.prems show ?case
  proof (cases rule: send_fill_cases)
    case (unread n e d)
    with read_fails [OF unread(3)] show ?thesis by simp
  next
    case (sent n buf d ec c)
    with less.hyps [of "next_off + n" "st\<lparr>tx_src := d, tx_conn := c\<rparr>"] show ?thesis
      by (auto simp: map_conn_err_fails split: if_splits)
  qed simp
qed

lemma send_loop_no_success: "\<not> tx_success (send_loop api r so m acked next_off st)"
proof (cases "acked < meta_size m")
  case True
  with send_fill_no_success [of api so m acked next_off st] show ?thesis
    by (auto simp: send_loop_def split: prod.splits option.splits) (simp add: tx_success_def)
qed (simp add: send_loop_def finish_send_no_success)

lemma send_step_success:
  assumes "tx_success (send_on_msg api r so m ph msg_r st)" and "\<forall>ec. ph \<noteq> SndRet ec" and "\<And>ec. msg_r = Inl ec \<Longrightarrow> ec_fails ec"
  shows "\<exists>f. msg_r = Inr f \<and> is_done_ok f"
  using assms
  by (cases ph)
    (auto simp: send_on_accept_def send_on_ack_def finish_send_reply_def Let_def finish_send_no_success send_loop_no_success
      map_conn_err_fails decode_frame_fails ec_simps is_done_ok_def split: sum.splits if_splits simp del: ec_fails.simps)

end

context logged_conn
begin

lemma send_once_confirmed:
  assumes "source_at r content" and "send_once api r so m st = Some st'" and "ok (tx_conn st)" and "tx_success st'"
  shows "confirmed (recvd (tx_conn st'))"
proof -
  let ?P = "\<lambda>st. ok (tx_conn st) \<and> (tx_success st \<longrightarrow> confirmed (recvd (tx_conn st)))"
  have "?P st' \<and> (\<exists>ec. tx_phase st' = SndRet ec)"
  proof (rule send_drive_induct [OF assms(2) [unfolded send_once_def]])
    have "\<not> tx_success (send_start api so m st)"
      by (auto simp: send_start_def Let_def map_conn_err_fails encode_offer_def ec_simps split: sum.splits prod.splits if_splits
          simp del: ec_fails.simps) (simp add: tx_success_def)
    then show "?P (send_start api so m st)"
      using assms(3)
      by (auto simp: send_start_def Let_def tx_return_def split: sum.splits prod.splits dest: send_log)
  next
    fix s :: "('c, 'a) tx" and msg_r c
    assume P: "?P s" and ph: "\<forall>ec. tx_phase s \<noteq> SndRet ec" and rc: "mc_receive api (tx_conn s) = (msg_r, c)"
    let ?t = "send_on_msg api r so m (tx_phase s) msg_r (s\<lparr>tx_conn := c\<rparr>)"
    have lg: "ok c" "recvd c = recvd (tx_conn s) @ (case msg_r of Inl ec \<Rightarrow> [] | Inr b \<Rightarrow> [b])"
      using receive_log [OF rc] P by simp_all
    from lg send_step_keeps [of "s\<lparr>tx_conn := c\<rparr>" r so m "tx_phase s" msg_r]
    have t: "ok (tx_conn ?t)" "recvd (tx_conn ?t) = recvd c" by simp_all
    have "msg_r = Inl ec \<Longrightarrow> ec_fails ec" for ec using receive_fails rc by blast
    with source_at.send_step_success [OF assms(1) _ ph, of api so m msg_r "s\<lparr>tx_conn := c\<rparr>"] t lg(2)
    show "?P ?t" by (fastforce simp: confirmed_def)
  qed
  with assms(4) show ?thesis by simp
qed

end

end
