(* ===== verification/Tdx_Transfer_Link.thy ===== *)
theory Tdx_Transfer_Link
  imports Tdx_Transfer_Conn Tdx_Transfer_Confirm
begin

text \<open>
  The connection machine as the connection of a transfer. The routine's thread is caller \<open>0\<close>; a
  schedule says which thread of the connection runs when. A call of \<open>send\<close> or \<open>receive\<close> starts with
  caller \<open>0\<close> and then follows the schedule until that call returns; the other callers may only shut
  the connection down. A call that is still blocked when the schedule ends has not returned: the
  link then reports \<open>canceled\<close>, which stands for the observation stopping there. The link keeps the
  events of the run, and with them the two histories of \<open>logged_conn\<close>.
\<close>

section \<open>The link\<close>

record ('k, 'r, 'cb) link =
  lk_conn :: "('k, 'r, 'cb) conn"
  lk_sched :: "action list"
  lk_events :: "event list"

fun returned :: "event list \<Rightarrow> ret option" where
  "returned [] = None"
| "returned (Returned u r # es) = (if u = 0 then Some r else returned es)"
| "returned (_ # es) = returned es"

text \<open>What a schedule may contain while the routine runs.\<close>

fun link_action :: "action \<Rightarrow> bool" where
  "link_action (A_call u (Call_shutdown t)) = (u \<noteq> 0)"
| "link_action (A_call u Call_destroy) = (u \<noteq> 0)"
| "link_action (A_call u _) = False"
| "link_action _ = True"

text \<open>Up to the return of the pending call; steps that are not enabled are passed over.\<close>

fun link_run ::
  "('k, 'a) posix \<Rightarrow> ('h, 'r) crypto_lib \<Rightarrow> action list \<Rightarrow> event list \<Rightarrow> ('k, 'r, 'cb) conn \<Rightarrow>
   ret option \<times> ('k, 'r, 'cb) link" where
  "link_run p lib [] log c = (None, \<lparr>lk_conn = c, lk_sched = [], lk_events = log\<rparr>)"
| "link_run p lib (a # as) log c =
    (if \<not> link_action a then link_run p lib as log c
     else case exec p lib a c of
         None \<Rightarrow> link_run p lib as log c
       | Some (es, c) \<Rightarrow>
           if returned es = None then link_run p lib as (log @ es) c
           else (returned es, \<lparr>lk_conn = c, lk_sched = as, lk_events = log @ es\<rparr>))"

definition link_call ::
  "('k, 'a) posix \<Rightarrow> ('h, 'r) crypto_lib \<Rightarrow> call \<Rightarrow> ('k, 'r, 'cb) link \<Rightarrow> ret option \<times> ('k, 'r, 'cb) link" where
  "link_call p lib op l =
    (case exec p lib (A_call 0 op) (lk_conn l) of
       None \<Rightarrow> (None, l)
     | Some (es, c) \<Rightarrow>
         if returned es = None then link_run p lib (lk_sched l) (lk_events l @ es) c
         else (returned es, l\<lparr>lk_conn := c, lk_events := lk_events l @ es\<rparr>))"

definition link_send ::
  "('k, 'a) posix \<Rightarrow> ('h, 'r) crypto_lib \<Rightarrow> bytes \<Rightarrow> ('k, 'r, 'cb) link \<Rightarrow> error_code \<times> ('k, 'r, 'cb) link" where
  "link_send p lib b l =
    (case link_call p lib (Call_send b None) l of
       (Some (Ret_send ec), l) \<Rightarrow> (ec, l)
     | (_, l) \<Rightarrow> (DuplexEc errc_canceled, l))"

definition link_receive ::
  "('k, 'a) posix \<Rightarrow> ('h, 'r) crypto_lib \<Rightarrow> ('k, 'r, 'cb) link \<Rightarrow> (error_code + bytes) \<times> ('k, 'r, 'cb) link" where
  "link_receive p lib l =
    (case link_call p lib (Call_recv None) l of
       (Some (Ret_recv r), l) \<Rightarrow> (r, l)
     | (_, l) \<Rightarrow> (Inl (DuplexEc errc_canceled), l))"

definition link_api :: "('k, 'a) posix \<Rightarrow> ('h, 'r) crypto_lib \<Rightarrow> ('k, 'r, 'cb) link msg_conn" where
  "link_api p lib = \<lparr>mc_send = link_send p lib, mc_receive = link_receive p lib,
     mc_max_message_bytes = (\<lambda>l. Conn_max_message_bytes (lk_conn l))\<rparr>"

definition link_start :: "('k, 'r, 'cb) conn \<Rightarrow> action list \<Rightarrow> ('k, 'r, 'cb) link" where
  "link_start c sched = \<lparr>lk_conn = c, lk_sched = sched, lk_events = []\<rparr>"

text \<open>After the routine has returned, the threads follow the rest of the schedule.\<close>

definition link_finish ::
  "('k, 'a) posix \<Rightarrow> ('h, 'r) crypto_lib \<Rightarrow> ('k, 'r, 'cb) link \<Rightarrow> ('k, 'r, 'cb) link" where
  "link_finish p lib l = snd (link_run p lib (lk_sched l) (lk_events l) (lk_conn l))"

definition link_sent :: "('k, 'r, 'cb) link \<Rightarrow> bytes list" where
  "link_sent l = text_payloads (accepted (lk_events l))"

definition link_recvd :: "('k, 'r, 'cb) link \<Rightarrow> bytes list" where
  "link_recvd l = delivered (lk_events l)"

section \<open>The other callers\<close>

fun quiet :: "user_pc \<Rightarrow> bool" where
  "quiet U_idle = True"
| "quiet U_join = True"
| "quiet pc = in_shutdown pc"

lemma quiet_wake [simp]:
  "quiet (wake_send_user pc) = quiet pc" "quiet (wake_recv_user pc) = quiet pc" "quiet (wake_done_user pc) = quiet pc"
  by (cases pc; simp)+

definition others_quiet :: "('k, 'r, 'cb) conn \<Rightarrow> bool" where
  "others_quiet c \<longleftrightarrow> (\<forall>u. u \<noteq> 0 \<longrightarrow> quiet (c_users c u))"

text \<open>Where caller \<open>0\<close> is: outside, in \<open>send\<close>, or in \<open>receive\<close>.\<close>

fun calling :: "user_pc \<Rightarrow> call option" where
  "calling (U_send b t) = Some (Call_send b t)"
| "calling (U_send_wait b t) = Some (Call_send b t)"
| "calling (U_recv t) = Some (Call_recv t)"
| "calling (U_recv_wait t) = Some (Call_recv t)"
| "calling _ = None"

lemma calling_wake [simp]:
  "calling (wake_send_user pc) = calling pc" "calling (wake_recv_user pc) = calling pc" "calling (wake_done_user pc) = calling pc"
  by (cases pc; simp)+

lemma quiet_calling: "quiet pc \<Longrightarrow> calling pc = None"
  by (cases pc) simp_all

text \<open>A step of a worker or another caller: nothing of caller \<open>0\<close> moves, no text is taken or handed out.\<close>

definition aside :: "('k, 'r, 'cb) conn \<Rightarrow> event list \<Rightarrow> ('k, 'r, 'cb) conn \<Rightarrow> bool" where
  "aside c es c' \<longleftrightarrow> others_quiet c' \<and> calling (c_users c' 0) = calling (c_users c 0) \<and>
     (c_users c 0 = U_idle \<longrightarrow> c_users c' 0 = U_idle) \<and>
     returned es = None \<and> text_payloads (accepted es) = [] \<and> delivered es = []"

lemma worker_aside:
  "others_quiet c \<Longrightarrow> exec_reader p lib rpc c = Some (es, c') \<Longrightarrow> aside c es c'"
  "others_quiet c \<Longrightarrow> exec_writer p lib wpc c = Some (es, c') \<Longrightarrow> aside c es c'"
  "others_quiet c \<Longrightarrow> exec_deliver dpc c = Some (es, c') \<Longrightarrow> aside c es c'"
  subgoal by (cases rpc) (auto simp: aside_def others_quiet_def read_one_def read_jobs_def read_enqueue_def
      read_ping_def Conn_abort_recv_users Let_def text_payloads_def split: prod.splits sum.splits if_splits)
  subgoal by (cases wpc) (auto simp: aside_def others_quiet_def write_lock_def write_flush_def Conn_write_out_def
      Let_def text_payloads_def split: prod.splits sum.splits list.splits if_splits)
  subgoal by (cases dpc) (auto simp: aside_def others_quiet_def deliver_lock_def deliver_drain_def text_payloads_def
      split: list.splits if_splits)
  done

lemma other_user_aside:
  assumes "others_quiet c" and "u \<noteq> 0" and "quiet pc"
  shows "exec_user p u pc c = Some (es, c') \<Longrightarrow> aside c es c'"
    and "exec_timeout u pc c = Some (es, c') \<Longrightarrow> aside c es c'"
proof -
  show "exec_user p u pc c = Some (es, c') \<Longrightarrow> aside c es c'"
    using assms
    by (cases pc) (auto simp: aside_def others_quiet_def shutdown_return_def shutdown_stop_def
        shutdown_deliver_def shutdown_sock_def text_payloads_def Let_def split: if_splits prod.splits)
  show "exec_timeout u pc c = Some (es, c') \<Longrightarrow> aside c es c'"
    using assms
    by (cases "(u, pc, c)" rule: exec_timeout.cases)
      (auto simp: aside_def others_quiet_def shutdown_return_def text_payloads_def split: if_splits)
qed

lemma shutdown_call_aside:
  assumes "others_quiet c" and "link_action (A_call u op)" and "exec_call u op c = (es, c')"
  shows "aside c es c'"
  using assms by (cases op) (auto simp: aside_def others_quiet_def Conn_shutdown_def text_payloads_def split: if_splits)

text \<open>A step of caller \<open>0\<close> inside its call: it goes on waiting, or it returns.\<close>

definition call_step :: "call \<Rightarrow> event list \<Rightarrow> ('k, 'r, 'cb) conn \<Rightarrow> bool" where
  "call_step op es c' \<longleftrightarrow> others_quiet c' \<and>
     (case returned es of
        None \<Rightarrow> calling (c_users c' 0) = Some op \<and> text_payloads (accepted es) = [] \<and> delivered es = []
      | Some (Ret_send ec) \<Rightarrow> c_users c' 0 = U_idle \<and> delivered es = [] \<and>
          (\<exists>b t. op = Call_send b t \<and> text_payloads (accepted es) = (if ec_fails ec then [] else [b]))
      | Some (Ret_recv r) \<Rightarrow> c_users c' 0 = U_idle \<and> text_payloads (accepted es) = [] \<and>
          (\<exists>t. op = Call_recv t) \<and> delivered es = (case r of Inl ec \<Rightarrow> [] | Inr b \<Rightarrow> [b])
      | _ \<Rightarrow> False)"

lemma locked_call_step:
  assumes "others_quiet c"
  shows "send_locked 0 b t x c = (es, c') \<Longrightarrow> call_step (Call_send b t) es c'"
    and "receive_locked 0 t x c = (es, c') \<Longrightarrow> call_step (Call_recv t) es c'"
  using assms
  by (auto simp: call_step_def others_quiet_def send_locked_def receive_locked_def Let_def text_payloads_def
      split: if_splits list.splits)

text \<open>Every other step is aside.\<close>

lemma exec_aside:
  assumes "exec p lib a c = Some (es, c')" and "link_action a" and "others_quiet c" and "a \<noteq> A_user 0" and "a \<noteq> A_timeout 0"
  shows "aside c es c'"
proof -
  have "aside c es c'" if "a = A_spurious"
    using that assms(1,3) by (auto simp: aside_def spurious_def others_quiet_def text_payloads_def)
  moreover have "aside c es c'" if "exec_user p u (c_users c u) c = Some (es, c') \<or> exec_timeout u (c_users c u) c = Some (es, c')" "u \<noteq> 0" for u
  proof -
    have "quiet (c_users c u)" using assms(3) that(2) by (simp add: others_quiet_def)
    with that(1) other_user_aside [OF assms(3) that(2)] show ?thesis by blast
  qed
  moreover have "aside c es c'" if "a = A_call u op'" for u op'
    using that assms(1-3) shutdown_call_aside [OF assms(3)] by (auto split: if_splits)
  moreover have "aside c es c'" if "a = A_reader \<or> a = A_writer \<or> a = A_deliver"
    using that assms(1) worker_aside [OF assms(3)] by auto
  ultimately show ?thesis using assms(1,4,5) by (cases a) (metis exec.simps(5,6))+
qed

lemma exec_in_call:
  assumes "exec p lib a c = Some (es, c')" and "link_action a" and "others_quiet c" and "calling (c_users c 0) = Some op"
  shows "call_step op es c'"
proof (cases "a = A_user 0 \<or> a = A_timeout 0")
  case True
  moreover have "call_step op es c'" if "exec_user p 0 (c_users c 0) c = Some (es, c')"
    using that assms(3,4) locked_call_step by (cases "c_users c 0") (auto split: if_splits)
  moreover have "call_step op es c'" if "exec_timeout 0 (c_users c 0) c = Some (es, c')"
    using that assms(3,4) locked_call_step
    by (cases "(0 :: nat, c_users c 0, c)" rule: exec_timeout.cases) (auto split: if_splits)
  ultimately show ?thesis using assms(1) by auto
next
  case False
  with exec_aside [OF assms(1-3)] assms(4) show ?thesis by (simp add: aside_def call_step_def)
qed

lemma start_call_step:
  assumes "exec p lib (A_call 0 op) c = Some (es, c')" and "others_quiet c" and "(\<exists>b t. op = Call_send b t) \<or> (\<exists>t. op = Call_recv t)"
  shows "call_step op es c'"
  using assms
  by (auto simp: call_step_def others_quiet_def Conn_send_for_def Conn_receive_for_def text_payloads_def ec_simps
      split: if_splits simp del: ec_fails.simps)

section \<open>A link is a connection with histories\<close>

text \<open>The run so far; caller \<open>0\<close> is outside, or the schedule is at its end.\<close>

definition link_ok ::
  "('k, 'a) posix \<Rightarrow> ('h, 'r) crypto_lib \<Rightarrow> ('k, 'r, 'cb) conn \<Rightarrow> ('k, 'r, 'cb) link \<Rightarrow> bool" where
  "link_ok p lib c0 l \<longleftrightarrow> (\<exists>as. conn_run p lib c0 as (lk_events l) (lk_conn l)) \<and> others_quiet (lk_conn l) \<and>
     (c_users (lk_conn l) 0 = U_idle \<or> lk_sched l = [])"

text \<open>What a call leaves: the histories grown by its result.\<close>

definition call_log :: "call \<Rightarrow> ret option \<Rightarrow> bytes list \<Rightarrow> bytes list \<Rightarrow> ('k, 'r, 'cb) link \<Rightarrow> bool" where
  "call_log op r snt rcv l' \<longleftrightarrow>
     (case r of
        None \<Rightarrow> link_sent l' = snt \<and> link_recvd l' = rcv
      | Some (Ret_send ec) \<Rightarrow> link_recvd l' = rcv \<and>
          (\<exists>b t. op = Call_send b t \<and> link_sent l' = (if ec_fails ec then snt else snt @ [b]))
      | Some (Ret_recv res) \<Rightarrow> link_sent l' = snt \<and> (\<exists>t. op = Call_recv t) \<and>
          link_recvd l' = rcv @ (case res of Inl ec \<Rightarrow> [] | Inr b \<Rightarrow> [b])
      | _ \<Rightarrow> False)"

lemma link_run_log:
  assumes "link_run p lib sched log c = (r, l')" and "conn_run p lib c0 as log c" and "others_quiet c"
    and "calling (c_users c 0) = Some op"
  shows "link_ok p lib c0 l' \<and> call_log op r (text_payloads (accepted log)) (delivered log) l'"
  using assms
proof (induction sched arbitrary: as log c)
  case Nil
  then show ?case by (auto simp: link_ok_def call_log_def link_sent_def link_recvd_def)
next
  case (Cons a sched)
  show ?case
  proof (cases "link_action a \<and> exec p lib a c \<noteq> None")
    case False
    with Cons show ?thesis by (auto split: if_splits option.splits)
  next
    case True
    then obtain es c1 where x: "exec p lib a c = Some (es, c1)" "link_action a" by auto
    have s: "call_step op es c1" by (rule exec_in_call [OF x Cons.prems(3,4)])
    have run: "conn_run p lib c0 (as @ [a]) (log @ es) c1" by (rule run_step [OF Cons.prems(2) x(1)])
    show ?thesis
    proof (cases "returned es")
      case None
      with s have q: "others_quiet c1" "calling (c_users c1 0) = Some op" "text_payloads (accepted es) = []" "delivered es = []"
        by (simp_all add: call_step_def)
      from None x Cons.prems(1) have "link_run p lib sched (log @ es) c1 = (r, l')" by simp
      from Cons.IH [OF this run q(1,2)] q(3,4) show ?thesis by simp
    next
      case (Some ret)
      with x Cons.prems(1) have "r = Some ret" "l' = \<lparr>lk_conn = c1, lk_sched = sched, lk_events = log @ es\<rparr>" by auto
      with s run Some show ?thesis
        by (auto simp: call_step_def link_ok_def call_log_def link_sent_def link_recvd_def split: ret.splits)
    qed
  qed
qed

lemma link_call_log:
  assumes "link_call p lib op l = (r, l')" and "link_ok p lib c0 l" and "(\<exists>b t. op = Call_send b t) \<or> (\<exists>t. op = Call_recv t)"
  shows "link_ok p lib c0 l' \<and> call_log op r (link_sent l) (link_recvd l) l'"
proof (cases "exec p lib (A_call 0 op) (lk_conn l)")
  case None
  with assms show ?thesis by (auto simp: link_call_def call_log_def)
next
  case (Some res)
  obtain es c1 where res: "res = (es, c1)" by fastforce
  note x = Some [unfolded res]
  from assms(2) obtain as where l: "conn_run p lib c0 as (lk_events l) (lk_conn l)" "others_quiet (lk_conn l)"
    by (auto simp: link_ok_def)
  have s: "call_step op es c1" by (rule start_call_step [OF x l(2) assms(3)])
  have run: "conn_run p lib c0 (as @ [A_call 0 op]) (lk_events l @ es) c1" by (rule run_step [OF l(1) x])
  show ?thesis
  proof (cases "returned es")
    case None
    with s have q: "others_quiet c1" "calling (c_users c1 0) = Some op" "text_payloads (accepted es) = []" "delivered es = []"
      by (simp_all add: call_step_def)
    from None x assms(1) have "link_run p lib (lk_sched l) (lk_events l @ es) c1 = (r, l')" by (simp add: link_call_def)
    from link_run_log [OF this run q(1,2)] q(3,4) show ?thesis by (simp add: link_sent_def link_recvd_def)
  next
    case (Some ret)
    with x assms(1) have "r = Some ret" "l' = l\<lparr>lk_conn := c1, lk_events := lk_events l @ es\<rparr>"
      by (auto simp: link_call_def)
    with s run Some show ?thesis
      by (auto simp: call_step_def link_ok_def call_log_def link_sent_def link_recvd_def split: ret.splits)
  qed
qed

text \<open>Whatever the state, an error that \<open>receive\<close> reports is one.\<close>

lemma returned_in: "returned es = Some r \<Longrightarrow> Returned 0 r \<in> set es"
  by (induction es rule: returned.induct) (auto split: if_splits)

lemma recv_error_fails:
  assumes "exec p lib a c = Some (es, c')" and "Returned u (Ret_recv (Inl ec)) \<in> set es"
  shows "ec_fails ec"
proof -
  have "ec_fails ec" if "receive_locked v t x c = (es, c')" for v t x
    using that assms(2) by (auto simp: receive_locked_def ec_simps split: if_splits list.splits simp del: ec_fails.simps)
  moreover have "ec_fails ec" if "exec_call v op c = (es, c')" for v op
    using that assms(2) by (cases op) (auto simp: Conn_send_for_def Conn_receive_for_def Conn_shutdown_def ec_simps
        split: if_splits simp del: ec_fails.simps)
  moreover have "ec_fails ec" if "exec_user p v pc c = Some (es, c') \<or> exec_timeout v pc c = Some (es, c')" for v pc
    using that recv_error_source(1) [OF _ assms(2)] recv_error_source(2) [OF _ assms(2)] calculation(1) by blast
  moreover have False if "a = A_reader \<or> a = A_writer \<or> a = A_deliver"
    using that assms worker_no_return by fastforce
  moreover have False if "a = A_spurious" using that assms by simp
  ultimately show ?thesis using assms(1) by (cases a) (simp_all split: if_splits, metis+)
qed

lemma link_run_error: "link_run p lib sched log c = (Some (Ret_recv (Inl ec)), l') \<Longrightarrow> ec_fails ec"
  by (induction sched arbitrary: log c)
    (auto split: if_splits option.splits dest!: returned_in intro: recv_error_fails)

lemma link_receive_fails: "link_receive p lib l = (Inl ec, l') \<Longrightarrow> ec_fails ec"
  by (auto simp: link_receive_def link_call_def ec_simps split: prod.splits option.splits ret.splits if_splits
      dest!: returned_in intro: link_run_error recv_error_fails simp del: exec.simps ec_fails.simps)

interpretation link: logged_conn "link_api p lib" "link_ok p lib c0" link_sent link_recvd for p lib c0
proof
  show "ec_fails ec" if "mc_receive (link_api p lib) c = (Inl ec, c')" for c ec c'
    using that link_receive_fails by (simp add: link_api_def)
next
  fix b l l' ec
  assume "mc_send (link_api p lib) b l = (ec, l')" and ok: "link_ok p lib c0 l"
  then obtain r where c: "link_call p lib (Call_send b None) l = (r, l')"
    and ec: "ec = (case r of Some (Ret_send ec) \<Rightarrow> ec | _ \<Rightarrow> DuplexEc errc_canceled)"
    by (auto simp: link_api_def link_send_def split: prod.splits option.splits ret.splits)
  from link_call_log [OF c ok] ec
  show "link_ok p lib c0 l' \<and> link_recvd l' = link_recvd l \<and>
      link_sent l' = (if ec_fails ec then link_sent l else link_sent l @ [b])"
    by (auto simp: call_log_def ec_simps split: option.splits ret.splits simp del: ec_fails.simps)
next
  fix l l' res
  assume "mc_receive (link_api p lib) l = (res, l')" and ok: "link_ok p lib c0 l"
  then obtain r where c: "link_call p lib (Call_recv None) l = (r, l')"
    and res: "res = (case r of Some (Ret_recv res) \<Rightarrow> res | _ \<Rightarrow> Inl (DuplexEc errc_canceled))"
    by (auto simp: link_api_def link_receive_def split: prod.splits option.splits ret.splits)
  from link_call_log [OF c ok] res
  show "link_ok p lib c0 l' \<and> link_sent l' = link_sent l \<and>
      link_recvd l' = link_recvd l @ (case res of Inl ec \<Rightarrow> [] | Inr b \<Rightarrow> [b])"
    by (auto simp: call_log_def split: option.splits ret.splits)
qed

lemma link_start_ok: "link_ok p lib (Conn_init sock sess cfg k g) (link_start (Conn_init sock sess cfg k g) sched)"
  by (auto simp: link_ok_def link_start_def others_quiet_def Conn_init_def intro: run_nil)

lemma link_start_empty [simp]: "link_sent (link_start c sched) = []" "link_recvd (link_start c sched) = []"
  by (simp_all add: link_sent_def link_recvd_def link_start_def text_payloads_def)

text \<open>The rest of the schedule adds nothing to the histories.\<close>

lemma link_run_idle:
  assumes "link_run p lib sched log c = (r, l')" and "conn_run p lib c0 as log c" and "others_quiet c" and "c_users c 0 = U_idle"
  shows "link_ok p lib c0 l' \<and> link_sent l' = text_payloads (accepted log) \<and> link_recvd l' = delivered log"
  using assms
proof (induction sched arbitrary: as log c)
  case Nil
  then show ?case by (auto simp: link_ok_def link_sent_def link_recvd_def)
next
  case (Cons a sched)
  show ?case
  proof (cases "link_action a \<and> exec p lib a c \<noteq> None")
    case False
    with Cons show ?thesis by (auto split: if_splits option.splits)
  next
    case True
    then obtain es c1 where x: "exec p lib a c = Some (es, c1)" "link_action a" by auto
    have s: "aside c es c1" by (rule exec_aside [OF x Cons.prems(3)]) (use x Cons.prems(4) in auto)
    then have n: "returned es = None" by (simp add: aside_def)
    with x Cons.prems(1) have "link_run p lib sched (log @ es) c1 = (r, l')" by simp
    from Cons.IH [OF this run_step [OF Cons.prems(2) x(1)]] s Cons.prems(4) show ?thesis by (simp add: aside_def)
  qed
qed

lemma link_finish_log:
  assumes "link_ok p lib c0 l"
  shows "link_ok p lib c0 (link_finish p lib l) \<and> link_sent (link_finish p lib l) = link_sent l \<and>
    link_recvd (link_finish p lib l) = link_recvd l"
proof (cases "lk_sched l = []")
  case True
  with assms show ?thesis by (simp add: link_finish_def link_ok_def link_sent_def link_recvd_def)
next
  case False
  obtain r l' where r: "link_run p lib (lk_sched l) (lk_events l) (lk_conn l) = (r, l')" by fastforce
  from False assms link_run_idle [OF r] r show ?thesis by (auto simp: link_finish_def link_ok_def link_sent_def link_recvd_def)
qed

section \<open>Files over links\<close>

text \<open>
  The contracts of the two routines hold of links and files: for every source of the announced size,
  and for the offers \<open>send_file\<close> makes of files below 4 GiB, resumed anywhere.
\<close>

interpretation file_sender: logged_sender "link_api p lib" "link_ok p lib c0" link_sent link_recvd FileReaderAt fs_content
    "m\<lparr>meta_size := int (length data)\<rparr>" resume data for p lib c0 m resume data
  by (intro logged_sender.intro logged_sender_axioms.intro link.logged_conn_axioms file_src.source_at_axioms) simp

definition file_offer :: "('h, 'r) crypto_lib \<Rightarrow> bytes \<Rightarrow> string \<Rightarrow> bytes \<Rightarrow> meta" where
  "file_offer lib got name data = \<lparr>meta_id = new_id got, meta_name = take 0xffff name,
     meta_size = int (length (take 0xffffffff data)), meta_hash = mbedtls_sha256 lib (take 0xffffffff data)\<rparr>"

lemma file_offer_wf: "crypto_api lib \<Longrightarrow> frame_wf (Offer (file_offer lib got name data))"
  using crypto_api.sha_len [of lib] crypto_api.sha_oneshot [of lib]
  by (auto simp: file_offer_def new_id_def in_i64_def)

interpretation file_receiver: stored_receiver "link_api p demo_lib" "link_ok p demo_lib c0" link_sent link_recvd
    "file_offer demo_lib got name data" "int (min k (length (take 0xffffffff data)))" "take 0xffffffff data"
    FileWriterAt fs_content demo_lib for p c0 got name data k
  by (intro stored_receiver.intro logged_receiver.intro logged_receiver_axioms.intro link.logged_conn_axioms
      file_snk.partial_sink_axioms demo.crypto_api_axioms file_offer_wf) (auto simp: file_offer_def min_def)

end
