(* ===== verification/Tdx_Transfer_End.thy ===== *)
theory Tdx_Transfer_End
  imports Tdx_Transfer_Link
begin

text \<open>
  A file sent by one machine and received by another. The two routines are joined by the histories
  of their connections only: what one received is a prefix of what the other sent. From
  \<open>logged_conn\<close> on both sides follows that the destination always holds a prefix of the source and,
  when the receiver reports success, all of it; \<open>Tdx_Transfer_Link\<close> gives the histories of two
  connection machines.
\<close>

section \<open>One attempt\<close>

lemma normalize_attempts: "1 \<le> max_attempts (normalize opts)"
  by (auto simp: normalize_def default_options_def Let_def split: option.splits)

lemma send_attempts_once:
  assumes "redial nopts = None" and "1 \<le> max_attempts nopts"
  shows "send_attempts api r nopts m 0 NoError st =
    map_option (\<lambda>(err, st). (if ec_fails err then err else NoError, st)) (send_xfer api r nopts m st)"
  using assms by (subst send_attempts.simps) (auto simp: Let_def split: option.splits)

lemma receive_attempts_once:
  assumes "redial nopts = None" and "1 \<le> max_attempts nopts"
  shows "receive_attempts lib std api wr nopts m have_meta written 0 NoError st =
    map_option (\<lambda>(err, got, n, st). if ec_fails err then (err, if meta_id got \<noteq> zero_id then got else m, st) else (NoError, got, st))
      (receive_xfer lib std api wr nopts written have_meta m st)"
  using assms by (subst receive_attempts.simps) (auto simp: Let_def split: option.splits)

lemma send_once_no_offer:
  assumes "encode_offer m = Inl e" and "send_once api r so m st = Some st'"
  shows "tx_conn st' = tx_conn st"
  using assms by (simp add: send_once_def send_start_def tx_return_def send_drive.simps Let_def) auto

lemma accepts_at_prefix: "accepts_at resume ys \<Longrightarrow> prefix xs ys \<Longrightarrow> accepts_at resume xs"
  by (auto simp: prefix_def intro: accepts_at_append)

lemma accepts_at_some: "\<exists>resume. accepts_at resume xs"
proof (cases "\<exists>f fs dec. xs = f # fs \<and> decode_frame f = Inr dec")
  case True
  then obtain f fs dec where "xs = f # fs" "decode_frame f = Inr dec" by blast
  then have "accepts_at (d_offset dec) xs" by (simp add: accepts_at_def)
  then show ?thesis ..
qed (auto simp: accepts_at_def)

section \<open>What a sent file puts on a connection\<close>

definition sends_honestly :: "meta \<Rightarrow> bytes \<Rightarrow> bytes list \<Rightarrow> bytes list \<Rightarrow> bool" where
  "sends_honestly m data snt rcv \<longleftrightarrow> meta_size m = int (length data) \<and> (snt \<noteq> [] \<longrightarrow> frame_wf (Offer m)) \<and>
     (\<forall>resume. accepts_at resume rcv \<longrightarrow> honest_frames m data (nat resume) snt)"

lemma sends_nothing: "meta_size m = int (length data) \<Longrightarrow> sends_honestly m data [] rcv"
  by (simp add: sends_honestly_def honest_frames_def)

context logged_conn
begin

lemma send_once_honest:
  assumes "source_at r content" and "send_once api r so m st = Some st'" and "ok (tx_conn st)" and "content (tx_src st) = data"
    and "sent (tx_conn st) = []" and "recvd (tx_conn st) = []" and "meta_size m = int (length data)"
    and "length data < 2 ^ 63" and "length (meta_id m) = 16" and "length (meta_hash m) = 32"
  shows "ok (tx_conn st') \<and> sends_honestly m data (sent (tx_conn st')) (recvd (tx_conn st'))"
proof -
  have snd: "logged_sender api ok sent recvd r content m data"
    by (intro logged_sender.intro logged_sender_axioms.intro logged_conn_axioms assms(1,7))
  have hon: "honest_frames m data (nat resume) (sent (tx_conn st')) \<and> ok (tx_conn st')"
    if "accepts_at resume (recvd (tx_conn st'))" for resume
    by (rule logged_sender.send_once_log [OF snd assms(2-6) that])
  have wf: "frame_wf (Offer m)" if "sent (tx_conn st') \<noteq> []"
  proof (cases "encode_offer m")
    case (Inl e)
    from send_once_no_offer [OF this assms(2)] that assms(5) show ?thesis by simp
  next
    case (Inr b)
    with assms(7-10) show ?thesis by (auto simp: encode_offer_def in_i64_def split: if_splits)
  qed
  from hon wf assms(7) accepts_at_some show ?thesis by (auto simp: sends_honestly_def)
qed

lemma send_xfer_honest:
  assumes "source_at r content" and "send_xfer api r nopts m st = Some (ec, st')" and "ok (xf_conn st)"
    and "content (xf_dev st) = data" and "sent (xf_conn st) = []" and "recvd (xf_conn st) = []"
    and "meta_size m = int (length data)" and "length data < 2 ^ 63" and "length (meta_id m) = 16" and "length (meta_hash m) = 32"
  shows "ok (xf_conn st') \<and> sends_honestly m data (sent (xf_conn st')) (recvd (xf_conn st'))"
  using assms send_once_honest [OF assms(1), of nopts m _ _ data] by (auto simp: send_xfer_def)

lemma transfer_send_honest:
  assumes "source_at r content" and "crypto_api lib" and "redial (normalize opts) = None"
    and "transfer_send lib urandom api r opts m st = Some (ec, st')" and "ok (xf_conn st)"
    and "content (xf_dev st) = data" and "sent (xf_conn st) = []" and "recvd (xf_conn st) = []"
    and "meta_size m = int (length data)" and "length data < 2 ^ 63"
    and "length (meta_id m) = 16" and "length (meta_hash m) = 32"
  shows "ok (xf_conn st') \<and> (\<exists>m'. sends_honestly m' data (sent (xf_conn st')) (recvd (xf_conn st')))"
proof -
  obtain m1 st1 where m1: "(if meta_id m = zero_id then
        let (got, w) = urandom (xf_world st) in (m\<lparr>meta_id := new_id got\<rparr>, st\<lparr>xf_world := w\<rparr>) else (m, st)) = (m1, st1)"
    by fastforce
  then have eq: "meta_size m1 = meta_size m" "length (meta_id m1) = 16" "meta_hash m1 = meta_hash m"
      "xf_conn st1 = xf_conn st" "xf_dev st1 = xf_dev st"
    using assms(11) by (auto simp: new_id_def Let_def split: if_splits prod.splits)
  note once = send_attempts_once [OF assms(3) normalize_attempts]
  show ?thesis
  proof (cases "is_zero_hash (meta_hash m)")
    case True
    obtain rr d where h: "hash_reader lib r (meta_size m) (xf_dev st) = (rr, d)" by fastforce
    have d: "content d = data" using source_at.hash_reader_keeps [OF assms(1,2) h] assms(6,9) by simp
    show ?thesis
    proof (cases rr)
      case (Inl e)
      with True h m1 eq assms(4,7-9) have "sent (xf_conn st') = [] \<and> xf_conn st' = xf_conn st"
        by (auto simp: transfer_send_def Let_def)
      with sends_nothing [OF assms(9), of "recvd (xf_conn st)"] assms(5) show ?thesis by (auto intro!: exI [of _ m])
    next
      case (Inr hs)
      then have "length hs = 32"
        using h crypto_api.sha_len [OF assms(2)] by (auto simp: hash_reader_def split: prod.splits sum.splits)
      moreover have "\<exists>e. send_xfer api r (normalize opts) (m1\<lparr>meta_hash := hs\<rparr>) (st1\<lparr>xf_dev := d\<rparr>) = Some (e, st')"
        using True h Inr m1 eq assms(4,9) by (auto simp: transfer_send_def Let_def once split: prod.splits)
      ultimately show ?thesis
        using send_xfer_honest [OF assms(1), of "normalize opts" "m1\<lparr>meta_hash := hs\<rparr>" "st1\<lparr>xf_dev := d\<rparr>"] assms eq d by auto
    qed
  next
    case False
    with m1 eq assms(4,9) have "\<exists>e. send_xfer api r (normalize opts) m1 st1 = Some (e, st')"
      by (auto simp: transfer_send_def Let_def once split: prod.splits)
    then show ?thesis using send_xfer_honest [OF assms(1), of "normalize opts" m1 st1] assms eq by auto
  qed
qed

lemma transfer_send_confirmed:
  assumes "source_at r content" and "redial (normalize opts) = None"
    and "transfer_send lib urandom api r opts m st = Some (ec, st')" and "ok (xf_conn st)" and "\<not> ec_fails ec"
  shows "confirmed (recvd (xf_conn st'))"
proof -
  note once = send_attempts_once [OF assms(2) normalize_attempts]
  obtain m1 st1 where m1: "(if meta_id m = zero_id then
        let (got, w) = urandom (xf_world st) in (m\<lparr>meta_id := new_id got\<rparr>, st\<lparr>xf_world := w\<rparr>) else (m, st)) = (m1, st1)"
    by fastforce
  then have c: "xf_conn st1 = xf_conn st" by (auto simp: Let_def split: if_splits prod.splits)
  obtain m2 d e where x: "send_xfer api r (normalize opts) m2 (st1\<lparr>xf_dev := d\<rparr>) = Some (e, st')" "\<not> ec_fails e"
  proof (cases "is_zero_hash (meta_hash m1)")
    case True
    obtain rr d where h: "hash_reader lib r (meta_size m1) (xf_dev st1) = (rr, d)" by fastforce
    have f: "ec_fails e" if "rr = Inl e" for e
      using source_at.hash_reader_fails [OF assms(1), of lib "meta_size m1" "xf_dev st1" e d] h that by simp
    have "\<exists>hs. rr = Inr hs"
      using True h m1 assms(3,5) f
      by (cases rr) (auto simp: transfer_send_def Let_def ec_simps split: if_splits simp del: ec_fails.simps)
    then obtain hs where "rr = Inr hs" ..
    with True h m1 assms(3,5) that [of "m1\<lparr>meta_hash := hs\<rparr>" d] show thesis
      by (auto simp: transfer_send_def Let_def once ec_simps split: if_splits simp del: ec_fails.simps)
  next
    case False
    have "st1\<lparr>xf_dev := xf_dev st1\<rparr> = st1" by simp
    with False m1 assms(3,5) that [of m1 "xf_dev st1"] show thesis
      by (auto simp: transfer_send_def Let_def once ec_simps split: if_splits simp del: ec_fails.simps)
  qed
  with c obtain t where t: "send_once api r (normalize opts) m2 \<lparr>tx_conn = xf_conn st, tx_src = d, tx_chunk_size = 0,
      tx_progress = xf_progress st1, tx_phase = SndAccept\<rparr> = Some t" and r: "e = tx_result t" "xf_conn st' = tx_conn t"
    by (auto simp: send_xfer_def)
  have "\<exists>ec. tx_phase t = SndRet ec" using send_drive_induct [OF t [unfolded send_once_def], of "\<lambda>_. True"] by simp
  with x(2) r have "tx_success t" by (auto simp: tx_success_def)
  from send_once_confirmed [OF assms(1) t _ this] assms(4) r show ?thesis by simp
qed

lemma send_file_honest:
  assumes "crypto_api lib" and "redial (normalize opts) = None" and "open_in fsy path = Some data"
    and "send_file lib urandom api opts fsy path st = Some (ec, Some st')" and "ok (xf_conn st)"
    and "sent (xf_conn st) = []" and "recvd (xf_conn st) = []" and "length data < 2 ^ 63"
  shows "ok (xf_conn st') \<and> (\<exists>m. sends_honestly m data (sent (xf_conn st')) (recvd (xf_conn st'))) \<and>
    (\<not> ec_fails ec \<longrightarrow> confirmed (recvd (xf_conn st')))"
proof -
  let ?m = "default_meta\<lparr>meta_name := path_base path, meta_size := int (length data)\<rparr>"
  let ?st = "\<lparr>xf_conn = xf_conn st, xf_dev = fstream_open (fsys_room fsy) data, xf_progress = xf_progress st, xf_world = xf_world st\<rparr>"
  have t: "transfer_send lib urandom api FileReaderAt opts ?m ?st = Some (ec, st')"
    using assms(3,4) by (auto simp: send_file_def Let_def)
  from transfer_send_honest [OF file_src.source_at_axioms assms(1,2) t]
    transfer_send_confirmed [OF file_src.source_at_axioms assms(2) t] assms(5-8) show ?thesis
    by (simp add: fstream_open_def default_meta_def zero_id_def zero_hash_def)
qed

end

section \<open>Two ends\<close>

text \<open>
  The receiver's history is a prefix of the honest sender's, and the sender's of the receiver's
  answers: then the receiver's history is a prefix of the honest frames for its own offset.
\<close>

lemma histories_honest:
  assumes "sends_honestly m data snt rcv" and "prefix got snt" and "prefix rcv ans"
    and "\<And>fs. got = offer_bytes m # fs \<Longrightarrow> accepts_at resume ans"
  shows "honest_frames m data (nat resume) got"
proof (cases got)
  case Nil
  then show ?thesis by (simp add: honest_frames_def)
next
  case (Cons f fs)
  obtain other where "accepts_at other rcv" using accepts_at_some by blast
  with assms(1) have "honest_frames m data (nat other) snt" by (simp add: sends_honestly_def)
  with assms(2) Cons have "f = offer_bytes m" by (auto dest!: honest_prefix simp: honest_frames_def)
  with Cons assms(4) have "accepts_at resume rcv" using accepts_at_prefix assms(3) by blast
  with assms(1,2) show ?thesis by (auto simp: sends_honestly_def intro: honest_prefix)
qed

text \<open>The file at the destination, before and after.\<close>

definition holds_part :: "bytes \<Rightarrow> string \<Rightarrow> file_system \<Rightarrow> bool" where
  "holds_part data path fsy \<longleftrightarrow> (\<forall>b. fsys_files fsy path = Some b \<longrightarrow> prefix b data)"

lemma receive_file_open_part:
  assumes "receive_file_open path fsy = (resume, f, fsy')" and "holds_part data path fsy"
  shows "holds_part data path fsy' \<and>
    (\<forall>b. f = Some b \<longrightarrow> fsys_writable fsy' path \<and> resume = int (length b) \<and> prefix b data)"
  using assms
  by (auto simp: receive_file_open_def open_in_out_def open_in_def open_trunc_close_def holds_part_def Let_def
      split: if_splits option.splits)

context logged_conn
begin

lemma receive_once_from_honest:
  assumes "crypto_api lib" and "partial_sink w content" and "receive_once lib std api w opts resume em want st = Some st'"
    and "ok (rx_conn st)" and "sent (rx_conn st) = []" and "recvd (rx_conn st) = []"
    and "0 \<le> resume" and "prefix (content (rx_dst st)) data" and "nat resume \<le> length (content (rx_dst st))"
    and "sends_honestly m data snt rcv" and "prefix (recvd (rx_conn st')) snt" and "prefix rcv (sent (rx_conn st'))"
    and "length data < 2 ^ 63"
  shows "prefix (content (rx_dst st')) data \<and> resume \<le> rx_written_out st' \<and> nat (rx_written_out st') \<le> length (content (rx_dst st')) \<and>
    (\<forall>ec. rx_phase st' = RcvRet ec \<longrightarrow> \<not> ec_fails ec \<longrightarrow> content (rx_dst st') = data \<and> meta_size (rx_out_meta st') = int (length data))"
proof -
  define m' where "m' = (if snt = [] then default_meta\<lparr>meta_size := int (length data)\<rparr> else m)"
  have m': "meta_size m' = int (length data)" "frame_wf (Offer m')"
    using assms(10,13) by (auto simp: m'_def sends_honestly_def default_meta_def zero_id_def zero_hash_def in_i64_def)
  have "resume \<le> int (length data)" using assms(7-9) prefix_length_le [OF assms(8)] by simp
  then have rcv: "stored_receiver api ok sent recvd m' resume data w content lib"
    by (intro stored_receiver.intro logged_receiver.intro logged_receiver_axioms.intro logged_conn_axioms assms(1,2,7) m')
  have ans: "accepts_at resume (sent (rx_conn st'))" if "recvd (rx_conn st') = offer_bytes m' # fs" for fs
    using logged_receiver.receive_once_answered [OF stored_receiver.axioms(1) [OF rcv] assms(3-6)] that
    by (simp add: logged_receiver.answered_def [OF stored_receiver.axioms(1) [OF rcv]])
  have "honest_frames m' data (nat resume) (recvd (rx_conn st'))"
  proof (cases "snt = []")
    case True
    with assms(11) show ?thesis by (simp add: honest_frames_def)
  next
    case False
    with histories_honest [OF assms(10-12)] ans show ?thesis by (simp add: m'_def)
  qed
  from stored_receiver.receive_once_stored [OF rcv assms(3-6,8,9) this] m'(1) show ?thesis by auto
qed

lemma transfer_receive_from_honest:
  assumes "crypto_api lib" and "partial_sink w content" and "redial (normalize opts) = None"
    and "transfer_receive lib std api w opts resume om st = Some (ec, om', st')"
    and "ok (xf_conn st)" and "sent (xf_conn st) = []" and "recvd (xf_conn st) = []"
    and "0 \<le> resume" and "prefix (content (xf_dev st)) data" and "nat resume \<le> length (content (xf_dev st))"
    and "sends_honestly m data snt rcv" and "prefix (recvd (xf_conn st')) snt" and "prefix rcv (sent (xf_conn st'))"
    and "length data < 2 ^ 63"
  shows "prefix (content (xf_dev st')) data \<and>
    (\<not> ec_fails ec \<longrightarrow> content (xf_dev st') = data \<and> meta_size om' = int (length data))"
proof -
  let ?st = "\<lparr>rx_conn = xf_conn st, rx_dst = xf_dev st, rx_progress = xf_progress st,
    rx_out_meta = default_meta, rx_written_out = resume, rx_phase = RcvOffer\<rparr>"
  obtain t where t: "receive_once lib std api w (normalize opts) resume False default_meta ?st = Some t"
    and eq: "xf_conn st' = rx_conn t" "xf_dev st' = rx_dst t" "ec_fails ec = ec_fails (rx_result t)"
      "\<not> ec_fails ec \<Longrightarrow> om' = rx_out_meta t"
    using assms(4,8)
    by (auto simp: transfer_receive_def receive_attempts_once [OF assms(3) normalize_attempts] receive_xfer_def Let_def
        split: if_splits)
  have "\<exists>ec. rx_phase t = RcvRet ec"
    using receive_drive_induct [OF t [unfolded receive_once_def], of "\<lambda>_. True"] by simp
  then obtain e where ret: "rx_phase t = RcvRet e" ..
  from receive_once_from_honest [OF assms(1,2) t _ _ _ assms(8)] assms(5-7,9-14) eq ret show ?thesis by auto
qed

text \<open>The connection's history stays one of its runs.\<close>

lemma receive_once_ok:
  assumes "receive_once lib std api w opts resume em want st = Some st'" and "ok (rx_conn st)"
  shows "ok (rx_conn st')"
proof -
  have "ok (rx_conn st') \<and> (\<exists>ec. rx_phase st' = RcvRet ec)"
  proof (rule receive_drive_induct [OF assms(1) [unfolded receive_once_def]])
    show "ok (rx_conn (receive_on_msg lib std api w opts resume em want (rx_phase s) msg_r (s\<lparr>rx_conn := c\<rparr>)))"
      if "ok (rx_conn s)" and "mc_receive api (rx_conn s) = (msg_r, c)" for s msg_r c
      using receive_log [OF that(2,1)] receive_step_extends [of "s\<lparr>rx_conn := c\<rparr>" lib std w opts resume em want "rx_phase s" msg_r]
      by (simp add: extends_def)
  qed (use assms(2) in simp)
  then show ?thesis ..
qed

lemma transfer_receive_conn_ok:
  assumes "redial (normalize opts) = None" and "transfer_receive lib std api w opts resume om st = Some (ec, om', st')"
    and "ok (xf_conn st)"
  shows "ok (xf_conn st')"
proof -
  have "ok (xf_conn t)" if "receive_xfer lib std api w (normalize opts) resume False default_meta st = Some (e, g, n, t)" for e g n t
    using that assms(3) by (auto simp: receive_xfer_def dest!: receive_once_ok)
  with assms(2,3) show ?thesis
    by (auto simp: transfer_receive_def receive_attempts_once [OF assms(1) normalize_attempts] Let_def split: if_splits)
qed

lemma receive_file_conn_ok:
  assumes "redial (normalize opts) = None" and "receive_file lib std api opts path om st = Some (ec, om', st')"
    and "ok (xf_conn st)"
  shows "ok (xf_conn st')"
  using assms(2,3)
  by (auto simp: receive_file_eq split: prod.splits option.splits dest!: transfer_receive_conn_ok [OF assms(1)])

text \<open>A positive final frame leaves the receiver only with its success.\<close>

lemma transfer_receive_confirms:
  assumes "redial (normalize opts) = None" and "transfer_receive lib std api w opts resume om st = Some (ec, om', st')"
    and "ok (xf_conn st)" and "sent (xf_conn st) = []" and "confirmed (sent (xf_conn st'))"
  shows "\<not> ec_fails ec"
proof -
  have r: "\<not> ec_fails e" if "receive_xfer lib std api w (normalize opts) resume False default_meta st = Some (e, g, n, st')" for e g n
    using that assms(3-5) by (auto simp: receive_xfer_def dest!: receive_once_confirms)
  have "resume < 0 \<Longrightarrow> st' = st" using assms(2) by (auto simp: transfer_receive_def)
  with assms(4,5) have "0 \<le> resume" by (fastforce simp: confirmed_def)
  with assms(2) r show ?thesis
    by (auto simp: transfer_receive_def receive_attempts_once [OF assms(1) normalize_attempts] Let_def split: if_splits)
qed

lemma receive_file_confirms:
  assumes "redial (normalize opts) = None" and "receive_file lib std api opts path om st = Some (ec, om', st')"
    and "ok (xf_conn st)" and "sent (xf_conn st) = []" and "confirmed (sent (xf_conn st'))"
  shows "\<not> ec_fails ec"
proof -
  obtain resume f fsy where op: "receive_file_open path (xf_dev st) = (resume, f, fsy)" by (metis prod_cases3)
  have "f \<noteq> None" using assms(2,4,5) op by (cases f) (auto simp: receive_file_eq confirmed_def)
  with assms(2) op obtain b e t where "transfer_receive lib std api FileWriterAt opts resume om
        \<lparr>xf_conn = xf_conn st, xf_dev = fstream_open (fsys_room fsy) b, xf_progress = xf_progress st, xf_world = xf_world st\<rparr> =
      Some (e, om', t)" "ec = (if ec_fails e then e else NoError)" "xf_conn st' = xf_conn t"
    by (auto simp: receive_file_eq)
  with transfer_receive_confirms [OF assms(1) this(1)] assms(3-5) show ?thesis by simp
qed

lemma receive_file_from_honest:
  assumes "crypto_api lib" and "redial (normalize opts) = None"
    and "receive_file lib std api opts path om st = Some (ec, om', st')"
    and "ok (xf_conn st)" and "sent (xf_conn st) = []" and "recvd (xf_conn st) = []"
    and "holds_part data path (xf_dev st)"
    and "sends_honestly m data snt rcv" and "prefix (recvd (xf_conn st')) snt" and "prefix rcv (sent (xf_conn st'))"
    and "length data < 2 ^ 63"
  shows "holds_part data path (xf_dev st') \<and> (\<not> ec_fails ec \<longrightarrow> fsys_files (xf_dev st') path = Some data)"
proof -
  obtain resume f fsy where op: "receive_file_open path (xf_dev st) = (resume, f, fsy)" by (metis prod_cases3)
  note o = receive_file_open_part [OF op assms(7)]
  show ?thesis
  proof (cases f)
    case None
    with op o assms(3) show ?thesis by (auto simp: receive_file_eq ec_simps simp del: ec_fails.simps)
  next
    case (Some b)
    then have b: "fsys_writable fsy path" "resume = int (length b)" "prefix b data" using o by auto
    let ?st = "\<lparr>xf_conn = xf_conn st, xf_dev = fstream_open (fsys_room fsy) b, xf_progress = xf_progress st, xf_world = xf_world st\<rparr>"
    from assms(3) op Some obtain e t where t: "transfer_receive lib std api FileWriterAt opts resume om ?st = Some (e, om', t)"
      and eq: "ec_fails ec = ec_fails e" "xf_conn st' = xf_conn t" "xf_dev st' = receive_file_close fs_content path e om' (xf_dev t) fsy"
      by (auto simp: receive_file_eq split: if_splits)
    from transfer_receive_from_honest [OF assms(1) file_snk.partial_sink_axioms assms(2) t, of data m snt rcv] assms(4-6,8-11) eq b(2,3)
    have "prefix (fs_content (xf_dev t)) data" and
      "\<not> ec_fails ec \<longrightarrow> fs_content (xf_dev t) = data \<and> meta_size om' = int (length data)"
      by (auto simp: fstream_open_def)
    with eq b(1) show ?thesis
      by (auto simp: receive_file_close_def posix_truncate_def holds_part_def Let_def take_is_prefix split: if_splits)
  qed
qed

end

section \<open>Two links\<close>

text \<open>Two machines with one key, each reading what the other wrote: the histories of their links match.\<close>

lemma links_exchange:
  assumes "conn_env pA fdA inpA outA lib" and "conn_env pB fdB inpB outB lib"
    and "on_message cfgA = None" and "on_message cfgB = None"
    and "link_ok pA lib (Conn_init \<lparr>sock_fd = fdA\<rparr> sess cfgA kA gA) lA"
    and "link_ok pB lib (Conn_init \<lparr>sock_fd = fdB\<rparr> sess cfgB kB gB) lB"
    and "outA (c_kernel (lk_conn (link_finish pA lib lA))) = outA kA @ sentA" and "prefix (inpB kB) sentA"
    and "outB (c_kernel (lk_conn (link_finish pB lib lB))) = outB kB @ sentB" and "prefix (inpA kA) sentB"
  shows "prefix (link_recvd lB) (link_sent lA) \<and> prefix (link_recvd lA) (link_sent lB)"
proof -
  note finA = link_finish_log [OF assms(5)] and finB = link_finish_log [OF assms(6)]
  let ?cA = "Conn_init \<lparr>sock_fd = fdA\<rparr> sess cfgA kA gA" and ?cB = "Conn_init \<lparr>sock_fd = fdB\<rparr> sess cfgB kB gB"
  let ?fA = "link_finish pA lib lA" and ?fB = "link_finish pB lib lB"
  from finA finB obtain asA asB where rA: "conn_run pA lib ?cA asA (lk_events ?fA) (lk_conn ?fA)" and
    rB: "conn_run pB lib ?cB asB (lk_events ?fB) (lk_conn ?fB)"
    unfolding link_ok_def by blast
  from messages_exchange [OF assms(1,2) rA rB assms(7,8,4)] messages_exchange [OF assms(2,1) rB rA assms(9,10,3)] finA finB
  show ?thesis by (simp add: link_recvd_def link_sent_def)
qed

text \<open>A file sent over one link and received over another whose histories match.\<close>

lemma file_over_links:
  assumes lib: "crypto_api lib" and rd: "redial (normalize optsA) = None" "redial (normalize optsB) = None"
    and src: "open_in fsA pathA = Some data" "length data < 2 ^ 63" and dst: "holds_part data pathB fsB"
    and snd: "send_file lib urandom (link_api pA lib) optsA fsA pathA
       \<lparr>xf_conn = link_start (Conn_init sockA sessA cfgA kA gA) schedA, xf_dev = (), xf_progress = [], xf_world = wA\<rparr> =
       Some (ecA, Some tA)"
    and rcv: "receive_file lib std (link_api pB lib) optsB pathB om
       \<lparr>xf_conn = link_start (Conn_init sockB sessB cfgB kB gB) schedB, xf_dev = fsB, xf_progress = [], xf_world = wB\<rparr> =
       Some (ecB, m, tB)"
  shows "link_ok pA lib (Conn_init sockA sessA cfgA kA gA) (xf_conn tA)"
    and "link_ok pB lib (Conn_init sockB sessB cfgB kB gB) (xf_conn tB)"
    and "prefix (link_recvd (xf_conn tB)) (link_sent (xf_conn tA)) \<Longrightarrow>
      prefix (link_recvd (xf_conn tA)) (link_sent (xf_conn tB)) \<Longrightarrow>
      holds_part data pathB (xf_dev tB) \<and> (\<not> ec_fails ecB \<longrightarrow> fsys_files (xf_dev tB) pathB = Some data) \<and>
      (\<not> ec_fails ecA \<longrightarrow> \<not> ec_fails ecB)"
proof -
  let ?cA = "Conn_init sockA sessA cfgA kA gA" and ?cB = "Conn_init sockB sessB cfgB kB gB"
  from link.send_file_honest [OF lib rd(1) src(1) snd, of ?cA] src(2) obtain mA where
    okA: "link_ok pA lib ?cA (xf_conn tA)" and
    hon: "sends_honestly mA data (link_sent (xf_conn tA)) (link_recvd (xf_conn tA))" and
    conf: "\<not> ec_fails ecA \<longrightarrow> confirmed (link_recvd (xf_conn tA))"
    using link_start_ok by fastforce
  show "link_ok pA lib ?cA (xf_conn tA)" by (rule okA)
  show "link_ok pB lib ?cB (xf_conn tB)"
    using link.receive_file_conn_ok [OF rd(2) rcv] link_start_ok by fastforce
  assume AB: "prefix (link_recvd (xf_conn tB)) (link_sent (xf_conn tA))"
    and BA: "prefix (link_recvd (xf_conn tA)) (link_sent (xf_conn tB))"
  have "\<not> ec_fails ecA \<longrightarrow> \<not> ec_fails ecB"
    using conf confirmed_prefix [OF _ BA] link.receive_file_confirms [OF rd(2) rcv, where ?c0.0 = ?cB]
    by (auto simp: link_start_ok)
  moreover have "holds_part data pathB (xf_dev tB) \<and> (\<not> ec_fails ecB \<longrightarrow> fsys_files (xf_dev tB) pathB = Some data)"
    by (rule link.receive_file_from_honest [OF lib rd(2) rcv _ _ _ _ hon AB BA src(2), where ?c0.0 = ?cB])
      (simp_all add: dst link_start_ok)
  ultimately show "holds_part data pathB (xf_dev tB) \<and> (\<not> ec_fails ecB \<longrightarrow> fsys_files (xf_dev tB) pathB = Some data) \<and>
      (\<not> ec_fails ecA \<longrightarrow> \<not> ec_fails ecB)" by blast
qed

section \<open>Properties\<close>

text \<open>
  C2. A file transferred between two connections. Two connection machines hold the same session key
  and each reads (a prefix of) the bytes the other has put on the wire; \<open>send_file\<close> runs on one,
  \<open>receive_file\<close> on the other, under any schedules of the threads of both and with other callers that
  may shut the connections down. If the destination is absent or holds a prefix of the source (an
  earlier attempt), then it holds a prefix of the source afterwards, however the transfer ended, so
  that a later attempt can resume it. When \<open>receive_file\<close> reports success it holds all of the source,
  and when \<open>send_file\<close> reports success, so does \<open>receive_file\<close>. Nothing is assumed of the hash
  function beyond its length.
\<close>

theorem file_over_connections:
  assumes "conn_env pA fdA inpA outA lib" and "conn_env pB fdB inpB outB lib"
    and "on_message cfgA = None" and "on_message cfgB = None"
    and "redial (normalize optsA) = None" and "redial (normalize optsB) = None"
    and "open_in fsA pathA = Some data" and "length data < 2 ^ 63" and "holds_part data pathB fsB"
    and "send_file lib urandom (link_api pA lib) optsA fsA pathA
       \<lparr>xf_conn = link_start (Conn_init \<lparr>sock_fd = fdA\<rparr> sess cfgA kA gA) schedA, xf_dev = (), xf_progress = [], xf_world = wA\<rparr> =
       Some (ecA, Some tA)"
    and "receive_file lib std (link_api pB lib) optsB pathB om
       \<lparr>xf_conn = link_start (Conn_init \<lparr>sock_fd = fdB\<rparr> sess cfgB kB gB) schedB, xf_dev = fsB, xf_progress = [], xf_world = wB\<rparr> =
       Some (ecB, m, tB)"
    and "outA (c_kernel (lk_conn (link_finish pA lib (xf_conn tA)))) = outA kA @ sentA" and "prefix (inpB kB) sentA"
    and "outB (c_kernel (lk_conn (link_finish pB lib (xf_conn tB)))) = outB kB @ sentB" and "prefix (inpA kA) sentB"
  shows "holds_part data pathB (xf_dev tB) \<and> (\<not> ec_fails ecB \<longrightarrow> fsys_files (xf_dev tB) pathB = Some data) \<and>
    (\<not> ec_fails ecA \<longrightarrow> \<not> ec_fails ecB)"
proof -
  have lib: "crypto_api lib" using assms(1) by (simp add: conn_env_def)
  note f = file_over_links [OF lib assms(5-11)]
  from links_exchange [OF assms(1-4) f(1,2) assms(12-15)] f(3) show ?thesis by blast
qed

text \<open>A transfer of two bytes between two machines, run to its end.\<close>

definition le_cfg :: "unit FrozenConfig" where
  "le_cfg = freeze_config None"

fun le_wire :: "bytes list \<Rightarrow> nat seal_rng \<Rightarrow> bytes" where
  "le_wire [] g = []"
| "le_wire (b # bs) g =
    (case Session_seal demo_lib \<lparr>session_key = demo_key\<rparr> b g of
       (Inl ec, g) \<Rightarrow> []
     | (Inr sealed, g) \<Rightarrow> record_bytes kMsgText sealed @ le_wire bs g)"

definition le_answers :: "bytes list" where
  "le_answers = [encode_accept (replicate 16 1) 0, encode_ack (replicate 16 1) 2,
     encode_done (replicate 16 1) True (pad32 [7, 8])]"

definition le_frames :: "bytes list" where
  "le_frames = [offer_bytes demo_meta, encode_chunk (replicate 16 1) 0 [7, 8],
     encode_done (replicate 16 1) True (pad32 [7, 8])]"

definition le_conn :: "bytes list \<Rightarrow> (script_kernel, nat, unit) conn" where
  "le_conn inbox = Conn_init \<lparr>sock_fd = 7\<rparr> \<lparr>session_key = demo_key\<rparr> le_cfg (wc_kernel [le_wire inbox demo_rng]) demo_rng"

definition le_sched :: "action list" where
  "le_sched = concat (replicate 3 [A_user 0, A_writer, A_writer, A_reader, A_reader, A_user 0])"

definition le_sched_rcv :: "action list" where
  "le_sched_rcv = concat (replicate 4 [A_reader, A_reader, A_user 0, A_user 0, A_writer, A_writer])"

definition le_fs :: file_system where
  "le_fs = demo_fs\<lparr>fsys_files := [''f'' \<mapsto> [7, 8]]\<rparr>"

definition le_send ::
  "(error_code \<times> ((script_kernel, nat, unit) link, fstream, unit) xfer option) option" where
  "le_send = send_file demo_lib (\<lambda>w :: unit. (replicate 16 1, w)) (link_api script_posix demo_lib) None le_fs ''f''
     \<lparr>xf_conn = link_start (le_conn le_answers) le_sched, xf_dev = (), xf_progress = [], xf_world = ()\<rparr>"

definition le_receive ::
  "(error_code \<times> meta \<times> ((script_kernel, nat, unit) link, file_system, unit) xfer) option" where
  "le_receive = receive_file demo_lib (\<lambda>_. []) (link_api script_posix demo_lib) None ''d'' default_meta
     \<lparr>xf_conn = link_start (le_conn le_frames) le_sched_rcv, xf_dev = demo_fs, xf_progress = [], xf_world = ()\<rparr>"

definition le_out :: "(script_kernel, nat, unit) link \<Rightarrow> bytes" where
  "le_out l = tx_log (c_kernel (lk_conn (link_finish script_posix demo_lib l)))"

lemma le_run:
  "case le_send of Some (ec, Some t) \<Rightarrow> ec = NoError \<and> le_out (xf_conn t) = le_wire le_frames demo_rng | _ \<Rightarrow> False"
  "case le_receive of Some (ec, m, t) \<Rightarrow> ec = NoError \<and> le_out (xf_conn t) = le_wire le_answers demo_rng | _ \<Rightarrow> False"
  by code_simp+

theorem file_over_connections_witness:
  "\<exists>tA m tB. le_send = Some (NoError, Some tA) \<and> le_receive = Some (NoError, m, tB) \<and>
     fsys_files (xf_dev tB) ''d'' = Some [7, 8]"
proof -
  from le_run(1) obtain tA where A: "le_send = Some (NoError, Some tA)" "le_out (xf_conn tA) = le_wire le_frames demo_rng"
    by (auto split: option.splits prod.splits)
  from le_run(2) obtain m tB where B: "le_receive = Some (NoError, m, tB)" "le_out (xf_conn tB) = le_wire le_answers demo_rng"
    by (auto split: option.splits prod.splits)
  have cfg: "on_message le_cfg = None" by (simp add: le_cfg_def freeze_config_def default_config_def)
  have opts: "redial (normalize None) = None" by (simp add: normalize_def default_options_def)
  have src: "open_in le_fs ''f'' = Some [7, 8]" "holds_part [7, 8] ''d'' demo_fs"
    by (simp_all add: le_fs_def open_in_def demo_fs_def holds_part_def)
  have k: "concat (rx_segments (wc_kernel [x])) = x" "tx_log (wc_kernel [x]) = []" for x by (simp_all add: wc_kernel_def)
  from file_over_connections [OF demo.conn_env_axioms demo.conn_env_axioms cfg cfg opts opts src(1) _ src(2)
      A(1) [unfolded le_send_def le_conn_def] B(1) [unfolded le_receive_def le_conn_def], of "le_wire le_frames demo_rng"
      "le_wire le_answers demo_rng"] A(2) B(2)
  have "fsys_files (xf_dev tB) ''d'' = Some [7, 8]" by (simp add: k le_out_def)
  with A(1) B(1) show ?thesis by blast
qed

end
