(* ===== verification/Tdx_Transfer_Redial.thy ===== *)
theory Tdx_Transfer_Redial
  imports Tdx_Transfer_End
begin

text \<open>
  Transfers over several connections: the retry loops of \<open>send\<close> and \<open>receive\<close> when \<open>redial\<close> is set. Each
  attempt runs on a fresh connection; the receiver asks the sender to go on where its file ends, and
  may write again what it already has. The two sides are joined by the histories of their
  connections, as in \<open>Tdx_Transfer_End\<close>.
\<close>

section \<open>The connections used\<close>

text \<open>The connections of the attempts of \<open>send_attempts\<close> and \<open>receive_attempts\<close>, as each attempt left them.\<close>

function send_conns ::
  "'c msg_conn \<Rightarrow> 'd reader_at \<Rightarrow> ('c, 'w) Options \<Rightarrow> meta \<Rightarrow> int \<Rightarrow> ('c, 'd, 'w) xfer \<Rightarrow> 'c list" where
  "send_conns api r nopts m attempts st =
    (if attempts + 1 > max_attempts nopts then []
     else
       (case send_xfer api r nopts m st of
          None \<Rightarrow> []
        | Some (err, st) \<Rightarrow>
            xf_conn st #
            (if \<not> ec_fails err \<or> \<not> is_retriable err then []
             else
               (case redial nopts of
                  None \<Rightarrow> []
                | Some dial \<Rightarrow>
                    (case dial (xf_world st) of
                       ((dec, Some c), w) \<Rightarrow>
                         if ec_fails dec then []
                         else send_conns api r nopts m (attempts + 1) (st\<lparr>xf_world := w, xf_conn := c\<rparr>)
                     | _ \<Rightarrow> [])))))"
  by pat_completeness auto
termination
  by (relation "measure (\<lambda>(api, r, nopts, m, attempts, st). nat (max_attempts nopts - attempts))") auto

function receive_conns ::
  "('h, 'r) crypto_lib \<Rightarrow> (error_code \<Rightarrow> string) \<Rightarrow> 'c msg_conn \<Rightarrow> 'd writer_at \<Rightarrow> ('c, 'w) Options \<Rightarrow>
   meta \<Rightarrow> bool \<Rightarrow> int \<Rightarrow> int \<Rightarrow> ('c, 'd, 'w) xfer \<Rightarrow> 'c list" where
  "receive_conns lib std api wr nopts m have_meta written attempts st =
    (if attempts + 1 > max_attempts nopts then []
     else
       (case receive_xfer lib std api wr nopts written have_meta m st of
          None \<Rightarrow> []
        | Some (err, got, n, st) \<Rightarrow>
            xf_conn st #
            (if \<not> ec_fails err \<or> \<not> is_retriable err then []
             else
               (case redial nopts of
                  None \<Rightarrow> []
                | Some dial \<Rightarrow>
                    (case dial (xf_world st) of
                       ((dec, Some c), w) \<Rightarrow>
                         if ec_fails dec then []
                         else
                           let (m, have_meta) = (if meta_id got \<noteq> zero_id then (got, True) else (m, have_meta))
                           in receive_conns lib std api wr nopts m have_meta (if n > written then n else written)
                                (attempts + 1) (st\<lparr>xf_world := w, xf_conn := c\<rparr>)
                     | _ \<Rightarrow> [])))))"
  by pat_completeness auto
termination
  by (relation "measure (\<lambda>(lib, std, api, wr, nopts, m, have_meta, written, attempts, st).
        nat (max_attempts nopts - attempts))") auto

declare send_conns.simps [simp del] receive_conns.simps [simp del]

text \<open>Those of the public routines, which prepare the first attempt.\<close>

definition transfer_send_conns ::
  "('h, 'r) crypto_lib \<Rightarrow> ('w \<Rightarrow> bytes \<times> 'w) \<Rightarrow> 'c msg_conn \<Rightarrow> 'd reader_at \<Rightarrow> ('c, 'w) Options option \<Rightarrow>
   meta \<Rightarrow> ('c, 'd, 'w) xfer \<Rightarrow> 'c list" where
  "transfer_send_conns lib urandom api r opts m st =
    (let (m, st) =
           (if meta_id m = zero_id then
              let (got, w) = urandom (xf_world st) in (m\<lparr>meta_id := new_id got\<rparr>, st\<lparr>xf_world := w\<rparr>)
            else (m, st))
     in if is_zero_hash (meta_hash m) then
          (case hash_reader lib r (meta_size m) (xf_dev st) of
             (Inl ec, d) \<Rightarrow> []
           | (Inr h, d) \<Rightarrow> send_conns api r (normalize opts) (m\<lparr>meta_hash := h\<rparr>) 0 (st\<lparr>xf_dev := d\<rparr>))
        else send_conns api r (normalize opts) m 0 st)"

definition send_file_conns ::
  "('h, 'r) crypto_lib \<Rightarrow> ('w \<Rightarrow> bytes \<times> 'w) \<Rightarrow> 'c msg_conn \<Rightarrow> ('c, 'w) Options option \<Rightarrow> file_system \<Rightarrow>
   string \<Rightarrow> ('c, unit, 'w) xfer \<Rightarrow> 'c list" where
  "send_file_conns lib urandom api opts fsy path st =
    (case open_in fsy path of
       None \<Rightarrow> []
     | Some b \<Rightarrow>
         transfer_send_conns lib urandom api FileReaderAt opts
           (default_meta\<lparr>meta_name := path_base path, meta_size := int (length b)\<rparr>)
           \<lparr>xf_conn = xf_conn st, xf_dev = fstream_open (fsys_room fsy) b, xf_progress = xf_progress st, xf_world = xf_world st\<rparr>)"

definition receive_file_conns ::
  "('h, 'r) crypto_lib \<Rightarrow> (error_code \<Rightarrow> string) \<Rightarrow> 'c msg_conn \<Rightarrow> ('c, 'w) Options option \<Rightarrow> string \<Rightarrow>
   ('c, file_system, 'w) xfer \<Rightarrow> 'c list" where
  "receive_file_conns lib std api opts path st =
    (case receive_file_open path (xf_dev st) of
       (resume, None, fsy) \<Rightarrow> []
     | (resume, Some b, fsy) \<Rightarrow>
         receive_conns lib std api FileWriterAt (normalize opts) default_meta False resume 0
           \<lparr>xf_conn = xf_conn st, xf_dev = fstream_open (fsys_room fsy) b, xf_progress = xf_progress st, xf_world = xf_world st\<rparr>)"

section \<open>The sender keeps its source\<close>

context source_at
begin

lemma send_fill_source:
  "send_fill api r so m acked next_off st = (res, st') \<Longrightarrow> content (tx_src st') = content (tx_src st)"
proof (induction "nat (meta_size m - next_off)" arbitrary: next_off st rule: less_induct)
  case less
  from less.prems show ?case
  proof (cases rule: send_fill_cases)
    case (unread n e d)
    with read_keeps [OF unread(3)] show ?thesis by (simp add: tx_return_def)
  next
    case (sent n buf d ec c)
    with read_keeps [OF sent(4)] less.hyps [of "next_off + n" "st\<lparr>tx_src := d, tx_conn := c\<rparr>"] show ?thesis
      by (auto simp: tx_return_def split: if_splits)
  qed simp
qed

lemma send_loop_source: "content (tx_src (send_loop api r so m acked next_off st)) = content (tx_src st)"
  by (auto simp: send_loop_def finish_send_def tx_return_def Let_def split: prod.splits option.splits if_splits dest: send_fill_source)

lemma send_step_source: "content (tx_src (send_on_msg api r so m ph res st)) = content (tx_src st)"
  by (cases ph)
    (auto simp: send_on_accept_def send_on_ack_def finish_send_reply_def finish_send_def tx_return_def Let_def
      send_loop_source tx_report_def split: sum.splits prod.splits)

lemma send_once_source:
  assumes "send_once api r so m st = Some st'"
  shows "content (tx_src st') = content (tx_src st)"
proof -
  have "content (tx_src st') = content (tx_src st) \<and> (\<exists>ec. tx_phase st' = SndRet ec)"
  proof (rule send_drive_induct [OF assms [unfolded send_once_def]])
    show "content (tx_src (send_start api so m st)) = content (tx_src st)"
      by (auto simp: send_start_def tx_return_def Let_def split: sum.splits prod.splits)
  qed (simp add: send_step_source)
  then show ?thesis ..
qed

lemma send_xfer_source: "send_xfer api r nopts m st = Some (ec, st') \<Longrightarrow> content (xf_dev st') = content (xf_dev st)"
  by (auto simp: send_xfer_def dest: send_once_source)

end

section \<open>One round of the loops\<close>

lemma send_attempts_round:
  assumes "send_attempts api r nopts m attempts last_err st = Some (ec, st')"
  obtains
    (none) "ec_fails ec" and "send_conns api r nopts m attempts st = []"
  | (last) err st1 where "send_xfer api r nopts m st = Some (err, st1)" and "send_conns api r nopts m attempts st = [xf_conn st1]"
      and "ec_fails ec \<longleftrightarrow> ec_fails err"
  | (again) err st1 dial dec c w where "attempts < max_attempts nopts" and "send_xfer api r nopts m st = Some (err, st1)"
      and "redial nopts = Some dial" and "dial (xf_world st1) = ((dec, Some c), w)" and "\<not> ec_fails dec"
      and "send_attempts api r nopts m (attempts + 1) err (st1\<lparr>xf_world := w, xf_conn := c\<rparr>) = Some (ec, st')"
      and "send_conns api r nopts m attempts st =
        xf_conn st1 # send_conns api r nopts m (attempts + 1) (st1\<lparr>xf_world := w, xf_conn := c\<rparr>)"
proof (cases "attempts + 1 > max_attempts nopts")
  case True
  with assms none show thesis
    by (auto simp: send_attempts.simps [of api] send_conns.simps [of api] ec_simps Let_def split: if_splits simp del: ec_fails.simps)
next
  case False
  with assms obtain err st1 where x: "send_xfer api r nopts m st = Some (err, st1)"
    by (auto simp: send_attempts.simps [of api] Let_def split: option.splits)
  note unfold = send_attempts.simps [of api r nopts m attempts] send_conns.simps [of api r nopts m attempts]
  show thesis
  proof (cases "ec_fails err \<and> is_retriable err \<and> (\<exists>dial dec c w. redial nopts = Some dial \<and>
      dial (xf_world st1) = ((dec, Some c), w) \<and> \<not> ec_fails dec)")
    case True
    then obtain dial dec c w where r: "ec_fails err" "is_retriable err" "redial nopts = Some dial"
      "dial (xf_world st1) = ((dec, Some c), w)" "\<not> ec_fails dec" by blast
    show thesis
      by (rule again [OF _ x r(3-5)]) (use assms False x r in \<open>simp_all add: unfold Let_def\<close>)
  next
    case more: False
    show thesis
      by (rule last [OF x]) (use assms False x more in \<open>auto simp: unfold Let_def
        split: if_splits option.splits prod.splits\<close>)
  qed
qed

lemma receive_attempts_round:
  assumes "receive_attempts lib std api w nopts m em written attempts last_err st = Some (ec, om, st')"
  obtains
    (none) "ec_fails ec" and "st' = st" and "receive_conns lib std api w nopts m em written attempts st = []"
  | (last) err got n st1 where "receive_xfer lib std api w nopts written em m st = Some (err, got, n, st1)"
      and "receive_conns lib std api w nopts m em written attempts st = [xf_conn st1]" and "xf_dev st' = xf_dev st1"
      and "ec_fails ec \<longleftrightarrow> ec_fails err" and "\<not> ec_fails ec \<Longrightarrow> om = got"
  | (again) err got n st1 dial dec c wd m' em' where "attempts < max_attempts nopts" and "ec_fails err"
      and "receive_xfer lib std api w nopts written em m st = Some (err, got, n, st1)"
      and "redial nopts = Some dial" and "dial (xf_world st1) = ((dec, Some c), wd)" and "\<not> ec_fails dec"
      and "receive_attempts lib std api w nopts m' em' (max written n) (attempts + 1) err (st1\<lparr>xf_world := wd, xf_conn := c\<rparr>) =
        Some (ec, om, st')"
      and "receive_conns lib std api w nopts m em written attempts st =
        xf_conn st1 # receive_conns lib std api w nopts m' em' (max written n) (attempts + 1) (st1\<lparr>xf_world := wd, xf_conn := c\<rparr>)"
proof (cases "attempts + 1 > max_attempts nopts")
  case True
  with assms none show thesis
    by (auto simp: receive_attempts.simps [of lib] receive_conns.simps [of lib] ec_simps Let_def split: if_splits simp del: ec_fails.simps)
next
  case False
  with assms obtain err got n st1 where x: "receive_xfer lib std api w nopts written em m st = Some (err, got, n, st1)"
    by (auto simp: receive_attempts.simps [of lib] Let_def split: option.splits)
  note unfold = receive_attempts.simps [of lib std api w nopts m em written attempts]
    receive_conns.simps [of lib std api w nopts m em written attempts]
  have mx: "(if n > written then n else written) = max written n" by simp
  show thesis
  proof (cases "ec_fails err \<and> is_retriable err \<and> (\<exists>dial dec c w. redial nopts = Some dial \<and>
      dial (xf_world st1) = ((dec, Some c), w) \<and> \<not> ec_fails dec)")
    case True
    then obtain dial dec c wd where r: "ec_fails err" "is_retriable err" "redial nopts = Some dial"
      "dial (xf_world st1) = ((dec, Some c), wd)" "\<not> ec_fails dec" by blast
    obtain m' em' where m': "(if meta_id got \<noteq> zero_id then (got, True) else (m, em)) = (m', em')" by fastforce
    show thesis
      by (rule again [OF _ r(1) x r(3-5)])
        (use assms False x r m' in \<open>simp_all add: unfold Let_def mx split: prod.splits\<close>)
  next
    case more: False
    show thesis
      by (rule last [OF x]) (use assms False x more in \<open>auto simp: unfold Let_def
        split: if_splits option.splits prod.splits\<close>)
  qed
qed

section \<open>All attempts of a sender\<close>

definition fresh_conn :: "('c \<Rightarrow> bool) \<Rightarrow> ('c \<Rightarrow> bytes list) \<Rightarrow> ('c \<Rightarrow> bytes list) \<Rightarrow> 'c \<Rightarrow> bool" where
  "fresh_conn ok sent recvd c \<longleftrightarrow> ok c \<and> sent c = [] \<and> recvd c = []"

text \<open>What \<open>redial\<close> returns without an error is a fresh connection.\<close>

definition dials_fresh :: "('c \<Rightarrow> bool) \<Rightarrow> ('c \<Rightarrow> bytes list) \<Rightarrow> ('c \<Rightarrow> bytes list) \<Rightarrow> ('c, 'w) Options \<Rightarrow> bool" where
  "dials_fresh ok sent recvd nopts \<longleftrightarrow>
     (\<forall>dial w dec c w'. redial nopts = Some dial \<longrightarrow> dial w = ((dec, Some c), w') \<longrightarrow> \<not> ec_fails dec \<longrightarrow> fresh_conn ok sent recvd c)"

text \<open>The peer of a connection is an honest sender of \<open>data\<close>, or sent nothing.\<close>

definition peer_sends :: "('c \<Rightarrow> bytes list) \<Rightarrow> ('c \<Rightarrow> bytes list) \<Rightarrow> bytes \<Rightarrow> 'c \<Rightarrow> bool" where
  "peer_sends sent recvd data c \<longleftrightarrow>
     (\<exists>m snt rcv. sends_honestly m data snt rcv \<and> prefix (recvd c) snt \<and> prefix rcv (sent c))"

text \<open>The sink holds a part of \<open>data\<close> that reaches at least to \<open>n\<close>.\<close>

definition holds_upto :: "('d \<Rightarrow> bytes) \<Rightarrow> bytes \<Rightarrow> int \<Rightarrow> 'd \<Rightarrow> bool" where
  "holds_upto content data n d \<longleftrightarrow> 0 \<le> n \<and> prefix (content d) data \<and> nat n \<le> length (content d)"

context logged_conn
begin

lemma send_xfer_confirmed:
  assumes "source_at r content" and "send_xfer api r nopts m st = Some (e, st')" and "ok (xf_conn st)" and "\<not> ec_fails e"
  shows "confirmed (recvd (xf_conn st'))"
proof -
  obtain t where t: "send_once api r nopts m \<lparr>tx_conn = xf_conn st, tx_src = xf_dev st, tx_chunk_size = 0,
      tx_progress = xf_progress st, tx_phase = SndAccept\<rparr> = Some t" and r: "e = tx_result t" "xf_conn st' = tx_conn t"
    using assms(2) by (auto simp: send_xfer_def)
  have "\<exists>ec. tx_phase t = SndRet ec" using send_drive_induct [OF t [unfolded send_once_def], of "\<lambda>_. True"] by simp
  with assms(4) r have "tx_success t" by (auto simp: tx_success_def)
  from send_once_confirmed [OF assms(1) t _ this] assms(3) r show ?thesis by simp
qed

lemma send_attempts_honest:
  assumes "source_at r content" and "dials_fresh ok sent recvd nopts" and "send_attempts api r nopts m attempts last_err st = Some (ec, st')"
    and "fresh_conn ok sent recvd (xf_conn st)" and "content (xf_dev st) = data" and "meta_size m = int (length data)" and "length data < 2 ^ 63"
    and "length (meta_id m) = 16" and "length (meta_hash m) = 32"
  shows "(\<forall>c \<in> set (send_conns api r nopts m attempts st). sends_honestly m data (sent c) (recvd c)) \<and>
    (\<not> ec_fails ec \<longrightarrow> (\<exists>c \<in> set (send_conns api r nopts m attempts st). confirmed (recvd c)))"
  using assms(3-5)
proof (induction "nat (max_attempts nopts - attempts)" arbitrary: attempts last_err st rule: less_induct)
  case less
  have fr: "ok (xf_conn st)" "sent (xf_conn st) = []" "recvd (xf_conn st) = []" using less.prems(2) by (simp_all add: fresh_conn_def)
  have hon: "sends_honestly m data (sent (xf_conn st1)) (recvd (xf_conn st1))" if "send_xfer api r nopts m st = Some (err, st1)" for err st1
    using send_xfer_honest [OF assms(1) that fr(1) less.prems(3) fr(2,3) assms(6-9)] by simp
  from less.prems(1) show ?case
  proof (cases rule: send_attempts_round)
    case (last err st1)
    with hon send_xfer_confirmed [OF assms(1) last(1) fr(1)] show ?thesis by simp
  next
    case (again err st1 dial dec c w)
    have "content (xf_dev st1) = data" using source_at.send_xfer_source [OF assms(1) again(2)] less.prems(3) by simp
    moreover have "fresh_conn ok sent recvd c" using assms(2) again by (auto simp: dials_fresh_def)
    ultimately show ?thesis using less.hyps [OF _ again(6)] again(1,7) hon [OF again(2)] by auto
  qed simp
qed

section \<open>All attempts of a receiver\<close>

lemma receive_xfer_from_honest:
  assumes "crypto_api lib" and "partial_sink w content" and "receive_xfer lib std api w nopts written em m st = Some (err, got, n, st')"
    and "fresh_conn ok sent recvd (xf_conn st)" and "holds_upto content data written (xf_dev st)" and "peer_sends sent recvd data (xf_conn st')" and "length data < 2 ^ 63"
  shows "holds_upto content data (max written n) (xf_dev st') \<and>
    (\<not> ec_fails err \<longrightarrow> content (xf_dev st') = data \<and> meta_size got = int (length data))"
proof -
  let ?st = "\<lparr>rx_conn = xf_conn st, rx_dst = xf_dev st, rx_progress = xf_progress st, rx_out_meta = default_meta,
    rx_written_out = written, rx_phase = RcvOffer\<rparr>"
  obtain t where t: "receive_once lib std api w nopts written em m ?st = Some t"
    and eq: "xf_conn st' = rx_conn t" "xf_dev st' = rx_dst t" "err = rx_result t" "got = rx_out_meta t" "n = rx_written_out t"
    using assms(3) by (auto simp: receive_xfer_def)
  have "\<exists>ec. rx_phase t = RcvRet ec" using receive_drive_induct [OF t [unfolded receive_once_def], of "\<lambda>_. True"] by simp
  then obtain e where ret: "rx_phase t = RcvRet e" ..
  from assms(6) obtain m' snt rcv where "sends_honestly m' data snt rcv" "prefix (recvd (rx_conn t)) snt" "prefix rcv (sent (rx_conn t))"
    by (auto simp: peer_sends_def eq)
  from receive_once_from_honest [OF assms(1,2) t _ _ _ _ _ _ this assms(7)] assms(4,5) eq ret
  show ?thesis by (auto simp: fresh_conn_def holds_upto_def)
qed

lemma receive_attempts_from_honest:
  assumes "crypto_api lib" and "partial_sink w content" and "dials_fresh ok sent recvd nopts" and "length data < 2 ^ 63"
    and "receive_attempts lib std api w nopts m em written attempts last_err st = Some (ec, om, st')"
    and "fresh_conn ok sent recvd (xf_conn st)" and "holds_upto content data written (xf_dev st)"
    and "\<forall>c \<in> set (receive_conns lib std api w nopts m em written attempts st). peer_sends sent recvd data c"
  shows "prefix (content (xf_dev st')) data \<and> (\<not> ec_fails ec \<longrightarrow> content (xf_dev st') = data \<and> meta_size om = int (length data))"
  using assms(5-8)
proof (induction "nat (max_attempts nopts - attempts)" arbitrary: m em written attempts last_err st rule: less_induct)
  case less
  from less.prems(1) show ?case
  proof (cases rule: receive_attempts_round)
    case none
    with less.prems(3) show ?thesis by (simp add: holds_upto_def)
  next
    case (last err got n st1)
    with receive_xfer_from_honest [OF assms(1,2) last(1) less.prems(2,3) _ assms(4)] less.prems(4) show ?thesis
      by (simp add: holds_upto_def)
  next
    case (again err got n st1 dial dec c wd m' em')
    have "holds_upto content data (max written n) (xf_dev st1)"
      using receive_xfer_from_honest [OF assms(1,2) again(3) less.prems(2,3) _ assms(4)] less.prems(4) again(8) by simp
    moreover have "fresh_conn ok sent recvd c" using assms(3) again by (auto simp: dials_fresh_def)
    ultimately show ?thesis using less.hyps [OF _ again(7)] again(1,8) less.prems(4) by simp
  qed
qed

text \<open>A final positive frame on any of the connections comes with the success of the routine.\<close>

lemma receive_attempts_confirms:
  assumes "dials_fresh ok sent recvd nopts" and "receive_attempts lib std api w nopts m em written attempts last_err st = Some (ec, om, st')"
    and "fresh_conn ok sent recvd (xf_conn st)" and "c \<in> set (receive_conns lib std api w nopts m em written attempts st)" and "confirmed (sent c)"
  shows "\<not> ec_fails ec"
  using assms(2-4)
proof (induction "nat (max_attempts nopts - attempts)" arbitrary: m em written attempts last_err st rule: less_induct)
  case less
  have x: "\<not> ec_fails err" if "receive_xfer lib std api w nopts written em m st = Some (err, got, n, st1)" "c = xf_conn st1" for err got n st1
    using that less.prems(2) assms(5) by (auto simp: receive_xfer_def fresh_conn_def dest!: receive_once_confirms)
  from less.prems(1) show ?case
  proof (cases rule: receive_attempts_round)
    case (again err got n st1 dial dec c' wd m' em')
    have "c \<noteq> xf_conn st1" using x [OF again(3)] again(2) by blast
    moreover have "fresh_conn ok sent recvd c'" using assms(1) again by (auto simp: dials_fresh_def)
    ultimately show ?thesis using less.hyps [OF _ again(7)] again(1,8) less.prems(3) by simp
  qed (use x less.prems(3) in auto)
qed

section \<open>Files\<close>

lemma transfer_send_all_honest:
  assumes "source_at r content" and "crypto_api lib" and "dials_fresh ok sent recvd (normalize opts)"
    and "transfer_send lib urandom api r opts m st = Some (ec, st')" and "fresh_conn ok sent recvd (xf_conn st)"
    and "content (xf_dev st) = data" and "meta_size m = int (length data)" and "length data < 2 ^ 63"
    and "length (meta_id m) = 16" and "length (meta_hash m) = 32"
  shows "\<exists>m'. (\<forall>c \<in> set (transfer_send_conns lib urandom api r opts m st). sends_honestly m' data (sent c) (recvd c)) \<and>
    (\<not> ec_fails ec \<longrightarrow> (\<exists>c \<in> set (transfer_send_conns lib urandom api r opts m st). confirmed (recvd c)))"
proof -
  obtain m1 st1 where m1: "(if meta_id m = zero_id then
        let (got, w) = urandom (xf_world st) in (m\<lparr>meta_id := new_id got\<rparr>, st\<lparr>xf_world := w\<rparr>) else (m, st)) = (m1, st1)"
    by fastforce
  then have eq: "meta_size m1 = meta_size m" "length (meta_id m1) = 16" "meta_hash m1 = meta_hash m"
      "xf_conn st1 = xf_conn st" "xf_dev st1 = xf_dev st"
    using assms(9) by (auto simp: new_id_def Let_def split: if_splits prod.splits)
  note all = send_attempts_honest [OF assms(1,3)]
  show ?thesis
  proof (cases "is_zero_hash (meta_hash m)")
    case True
    obtain rr d where h: "hash_reader lib r (meta_size m) (xf_dev st) = (rr, d)" by fastforce
    have d: "content d = data" using source_at.hash_reader_keeps [OF assms(1,2) h] assms(6,7) by simp
    show ?thesis
    proof (cases rr)
      case (Inl e)
      with h source_at.hash_reader_fails [OF assms(1)] have "ec_fails e" by blast
      with Inl True h m1 eq assms(4,7) show ?thesis
        by (auto simp: transfer_send_def transfer_send_conns_def Let_def)
    next
      case (Inr hs)
      then have "length hs = 32"
        using h crypto_api.sha_len [OF assms(2)] by (auto simp: hash_reader_def split: prod.splits sum.splits)
      moreover have "send_attempts api r (normalize opts) (m1\<lparr>meta_hash := hs\<rparr>) 0 NoError (st1\<lparr>xf_dev := d\<rparr>) = Some (ec, st')"
        using True h Inr m1 eq assms(4,7) by (auto simp: transfer_send_def Let_def)
      moreover have "transfer_send_conns lib urandom api r opts m st =
          send_conns api r (normalize opts) (m1\<lparr>meta_hash := hs\<rparr>) 0 (st1\<lparr>xf_dev := d\<rparr>)"
        using True h Inr m1 eq by (auto simp: transfer_send_conns_def Let_def)
      ultimately show ?thesis
        using all [of "m1\<lparr>meta_hash := hs\<rparr>" 0 NoError "st1\<lparr>xf_dev := d\<rparr>"] assms(5,7,8) eq d by auto
    qed
  next
    case False
    then have "send_attempts api r (normalize opts) m1 0 NoError st1 = Some (ec, st')"
      using m1 eq assms(4,7) by (auto simp: transfer_send_def Let_def)
    moreover have "transfer_send_conns lib urandom api r opts m st = send_conns api r (normalize opts) m1 0 st1"
      using False m1 eq by (auto simp: transfer_send_conns_def Let_def)
    ultimately show ?thesis using all [of m1 0 NoError st1] assms(5-8,10) eq by auto
  qed
qed

lemma send_file_all_honest:
  assumes "crypto_api lib" and "dials_fresh ok sent recvd (normalize opts)" and "open_in fsy path = Some data"
    and "send_file lib urandom api opts fsy path st = Some (ec, r)" and "fresh_conn ok sent recvd (xf_conn st)" and "length data < 2 ^ 63"
  shows "\<exists>m. (\<forall>c \<in> set (send_file_conns lib urandom api opts fsy path st). sends_honestly m data (sent c) (recvd c)) \<and>
    (\<not> ec_fails ec \<longrightarrow> (\<exists>c \<in> set (send_file_conns lib urandom api opts fsy path st). confirmed (recvd c)))"
proof -
  let ?m = "default_meta\<lparr>meta_name := path_base path, meta_size := int (length data)\<rparr>"
  let ?st = "\<lparr>xf_conn = xf_conn st, xf_dev = fstream_open (fsys_room fsy) data, xf_progress = xf_progress st, xf_world = xf_world st\<rparr>"
  obtain st' where "transfer_send lib urandom api FileReaderAt opts ?m ?st = Some (ec, st')"
    using assms(3,4) by (auto simp: send_file_def Let_def)
  from transfer_send_all_honest [OF file_src.source_at_axioms assms(1,2) this] assms(3,5,6) show ?thesis
    by (simp add: send_file_conns_def fstream_open_def default_meta_def zero_id_def zero_hash_def)
qed

lemma receive_file_all_honest:
  assumes "crypto_api lib" and "dials_fresh ok sent recvd (normalize opts)"
    and "receive_file lib std api opts path om st = Some (ec, om', st')" and "fresh_conn ok sent recvd (xf_conn st)"
    and "holds_part data path (xf_dev st)" and "length data < 2 ^ 63"
    and "\<forall>c \<in> set (receive_file_conns lib std api opts path st). peer_sends sent recvd data c"
  shows "holds_part data path (xf_dev st') \<and> (\<not> ec_fails ec \<longrightarrow> fsys_files (xf_dev st') path = Some data)"
proof -
  obtain resume f fsy where op: "receive_file_open path (xf_dev st) = (resume, f, fsy)" by (metis prod_cases3)
  note o = receive_file_open_part [OF op assms(5)]
  show ?thesis
  proof (cases f)
    case None
    with op o assms(3) show ?thesis by (auto simp: receive_file_eq ec_simps simp del: ec_fails.simps)
  next
    case (Some b)
    then have b: "fsys_writable fsy path" "resume = int (length b)" "prefix b data" using o by auto
    let ?st = "\<lparr>xf_conn = xf_conn st, xf_dev = fstream_open (fsys_room fsy) b, xf_progress = xf_progress st, xf_world = xf_world st\<rparr>"
    from assms(3) op Some b(2) obtain e t where
      t: "receive_attempts lib std api FileWriterAt (normalize opts) default_meta False resume 0 NoError ?st = Some (e, om', t)"
      and eq: "ec_fails ec = ec_fails e" "xf_dev st' = receive_file_close fs_content path e om' (xf_dev t) fsy"
      by (auto simp: receive_file_eq transfer_receive_def Let_def split: if_splits)
    have "\<forall>c \<in> set (receive_conns lib std api FileWriterAt (normalize opts) default_meta False resume 0 ?st). peer_sends sent recvd data c"
      using assms(7) op Some by (simp add: receive_file_conns_def)
    from receive_attempts_from_honest [OF assms(1) file_snk.partial_sink_axioms assms(2,6) t _ _ this] assms(4) b
    have "prefix (fs_content (xf_dev t)) data" and
      "\<not> ec_fails ec \<longrightarrow> fs_content (xf_dev t) = data \<and> meta_size om' = int (length data)"
      by (auto simp: fstream_open_def holds_upto_def eq(1))
    with eq b(1) show ?thesis
      by (auto simp: receive_file_close_def posix_truncate_def holds_part_def Let_def take_is_prefix split: if_splits)
  qed
qed

lemma receive_file_any_confirms:
  assumes "dials_fresh ok sent recvd (normalize opts)" and "receive_file lib std api opts path om st = Some (ec, om', st')"
    and "fresh_conn ok sent recvd (xf_conn st)" and "c \<in> set (receive_file_conns lib std api opts path st)" and "confirmed (sent c)"
  shows "\<not> ec_fails ec"
proof -
  obtain resume f fsy where op: "receive_file_open path (xf_dev st) = (resume, f, fsy)" by (metis prod_cases3)
  with assms(4) obtain b where b: "f = Some b" by (cases f) (auto simp: receive_file_conns_def)
  let ?st = "\<lparr>xf_conn = xf_conn st, xf_dev = fstream_open (fsys_room fsy) b, xf_progress = xf_progress st, xf_world = xf_world st\<rparr>"
  have "0 \<le> resume" using op by (auto simp: receive_file_open_def Let_def split: option.splits)
  with assms(2) op b obtain e t where
    t: "receive_attempts lib std api FileWriterAt (normalize opts) default_meta False resume 0 NoError ?st = Some (e, om', t)"
    and eq: "ec_fails ec = ec_fails e"
    by (auto simp: receive_file_eq transfer_receive_def Let_def split: if_splits)
  from receive_attempts_confirms [OF assms(1) t, of c] assms(3-5) op b eq show ?thesis
    by (simp add: receive_file_conns_def)
qed

end

text \<open>
  The connections of both sides: what a receiver's connection delivered, one of the sender's carried,
  and the other way round. Connections on which nothing arrived need no counterpart.
\<close>

definition conns_match ::
  "('a \<Rightarrow> bytes list) \<Rightarrow> ('a \<Rightarrow> bytes list) \<Rightarrow> ('b \<Rightarrow> bytes list) \<Rightarrow> ('b \<Rightarrow> bytes list) \<Rightarrow> 'a list \<Rightarrow> 'b list \<Rightarrow> bool" where
  "conns_match sentA recvdA sentB recvdB as bs \<longleftrightarrow>
     (\<forall>b \<in> set bs. recvdB b = [] \<or> (\<exists>a \<in> set as. prefix (recvdB b) (sentA a) \<and> prefix (recvdA a) (sentB b))) \<and>
     (\<forall>a \<in> set as. recvdA a = [] \<or> (\<exists>b \<in> set bs. prefix (recvdA a) (sentB b)))"

section \<open>Connections with histories\<close>

text \<open>The connection machines, whatever state each of them started from.\<close>

interpretation links: logged_conn "link_api p lib" "\<lambda>l. \<exists>c0. link_ok p lib c0 l" link_sent link_recvd for p lib
proof (unfold_locales, goal_cases)
  case (1 b c ec c')
  then obtain c0 where "link_ok p lib c0 c" by blast
  from link.send_log [OF 1(1) this] show ?case by blast
next
  case (2 c res c')
  then obtain c0 where "link_ok p lib c0 c" by blast
  from link.receive_log [OF 2(1) this] show ?case by blast
qed

lemma link_start_fresh: "fresh_conn (\<lambda>l. \<exists>c0. link_ok p lib c0 l) link_sent link_recvd (link_start (Conn_init sock sess cfg k g) sched)"
  using link_start_ok [of p lib sock sess cfg k g sched] unfolding fresh_conn_def by auto

text \<open>Any connection, with a log of what it took and handed out.\<close>

definition log_api :: "'c msg_conn \<Rightarrow> ('c \<times> bytes list \<times> bytes list) msg_conn" where
  "log_api api =
    \<lparr>mc_send = (\<lambda>b (c, s, r). case mc_send api b c of (ec, c) \<Rightarrow> (ec, c, if ec_fails ec then s else s @ [b], r)),
     mc_receive = (\<lambda>(c, s, r). case mc_receive api c of (res, c) \<Rightarrow> (res, c, s, r @ (case res of Inl ec \<Rightarrow> [] | Inr b \<Rightarrow> [b]))),
     mc_max_message_bytes = (\<lambda>(c, s, r). mc_max_message_bytes api c)\<rparr>"

interpretation log_view: logged_conn "log_api view_api" "\<lambda>_. True" "\<lambda>(c, s, r). s" "\<lambda>(c, s, r). r"
  by unfold_locales (auto simp: log_api_def split: prod.splits dest: view.receive_fails)

section \<open>Properties\<close>

text \<open>
  C3. A file transferred over as many connections as it takes. \<open>send_file\<close> runs on one side and
  \<open>receive_file\<close> on the other, both with \<open>redial\<close>; each connection that a redial returns is fresh, and
  the histories of the connections of the two sides match. If the destination is absent or holds a
  prefix of the source, then it holds a prefix of the source afterwards, wherever each of the
  connections broke and whatever was sent twice; when \<open>receive_file\<close> reports success it holds all of
  the source; and when \<open>send_file\<close> reports success, so does \<open>receive_file\<close>.
\<close>

theorem file_over_redials:
  assumes "logged_conn apiA okA sentA recvdA" and "logged_conn apiB okB sentB recvdB" and "crypto_api lib"
    and "open_in fsA pathA = Some data" and "length data < 2 ^ 63" and "holds_part data pathB (xf_dev stB)"
    and "send_file lib urandom apiA optsA fsA pathA stA = Some (ecA, rA)"
    and "receive_file lib std apiB optsB pathB om stB = Some (ecB, m, tB)"
    and "fresh_conn okA sentA recvdA (xf_conn stA)" and "fresh_conn okB sentB recvdB (xf_conn stB)"
    and "dials_fresh okA sentA recvdA (normalize optsA)" and "dials_fresh okB sentB recvdB (normalize optsB)"
    and "conns_match sentA recvdA sentB recvdB (send_file_conns lib urandom apiA optsA fsA pathA stA)
      (receive_file_conns lib std apiB optsB pathB stB)"
  shows "holds_part data pathB (xf_dev tB) \<and> (\<not> ec_fails ecB \<longrightarrow> fsys_files (xf_dev tB) pathB = Some data) \<and>
    (\<not> ec_fails ecA \<longrightarrow> \<not> ec_fails ecB)"
proof -
  let ?as = "send_file_conns lib urandom apiA optsA fsA pathA stA" and ?bs = "receive_file_conns lib std apiB optsB pathB stB"
  from logged_conn.send_file_all_honest [OF assms(1,3,11,4,7,9,5)] obtain mA where
    hon: "\<And>a. a \<in> set ?as \<Longrightarrow> sends_honestly mA data (sentA a) (recvdA a)" and
    conf: "\<not> ec_fails ecA \<longrightarrow> (\<exists>a \<in> set ?as. confirmed (recvdA a))" by blast
  have "peer_sends sentB recvdB data b" if b: "b \<in> set ?bs" for b
  proof (cases "recvdB b = []")
    case True
    moreover have "sends_honestly (default_meta\<lparr>meta_size := int (length data)\<rparr>) data [] []" by (simp add: sends_nothing)
    ultimately show ?thesis unfolding peer_sends_def by fastforce
  next
    case False
    with assms(13) b obtain a where "a \<in> set ?as" "prefix (recvdB b) (sentA a)" "prefix (recvdA a) (sentB b)"
      by (auto simp: conns_match_def)
    with hon show ?thesis unfolding peer_sends_def by blast
  qed
  with logged_conn.receive_file_all_honest [OF assms(2,3,12,8,10,6,5)]
  have "holds_part data pathB (xf_dev tB) \<and> (\<not> ec_fails ecB \<longrightarrow> fsys_files (xf_dev tB) pathB = Some data)" by blast
  moreover have "\<not> ec_fails ecB" if "\<not> ec_fails ecA"
  proof -
    from conf that obtain a where a: "a \<in> set ?as" "confirmed (recvdA a)" by blast
    then have "recvdA a \<noteq> []" by (auto simp: confirmed_def)
    with a assms(13) obtain b where b: "b \<in> set ?bs" "prefix (recvdA a) (sentB b)" by (auto simp: conns_match_def)
    with a show ?thesis
      using logged_conn.receive_file_any_confirms [OF assms(2,12,8,10) b(1)] confirmed_prefix by blast
  qed
  ultimately show ?thesis by blast
qed

text \<open>
  Two bytes in chunks of one: the first connection breaks after the first chunk has arrived, the
  second goes on from there.
\<close>

definition rd_view :: "bytes list \<Rightarrow> conn_view \<times> bytes list \<times> bytes list" where
  "rd_view inbox = (\<lparr>cv_in = inbox, cv_err = NoError, cv_closed = False, cv_out = [], cv_max = 200\<rparr>, [], [])"

definition rd_opts :: "bytes list \<Rightarrow> (conn_view \<times> bytes list \<times> bytes list, unit) Options" where
  "rd_opts inbox = default_options\<lparr>chunk_size := 1, redial := Some (\<lambda>w. ((NoError, Some (rd_view inbox)), w))\<rparr>"

definition rd_send :: "(conn_view \<times> bytes list \<times> bytes list, unit, unit) xfer" where
  "rd_send = \<lparr>xf_conn = rd_view [encode_accept (replicate 16 1) 0], xf_dev = (), xf_progress = [], xf_world = ()\<rparr>"

definition rd_sopts :: "(conn_view \<times> bytes list \<times> bytes list, unit) Options option" where
  "rd_sopts = Some (rd_opts [encode_accept (replicate 16 1) 1, encode_ack (replicate 16 1) 2,
     encode_done (replicate 16 1) True (pad32 [7, 8])])"

definition rd_receive :: "(conn_view \<times> bytes list \<times> bytes list, file_system, unit) xfer" where
  "rd_receive = \<lparr>xf_conn = rd_view [offer_bytes demo_meta, encode_chunk (replicate 16 1) 0 [7]], xf_dev = demo_fs,
     xf_progress = [], xf_world = ()\<rparr>"

definition rd_ropts :: "(conn_view \<times> bytes list \<times> bytes list, unit) Options option" where
  "rd_ropts = Some (rd_opts [offer_bytes demo_meta, encode_chunk (replicate 16 1) 1 [8],
     encode_done (replicate 16 1) True (pad32 [7, 8])])"

definition rd_conns_send :: "(conn_view \<times> bytes list \<times> bytes list) list" where
  "rd_conns_send = send_file_conns demo_lib (\<lambda>w :: unit. (replicate 16 1, w)) (log_api view_api) rd_sopts le_fs ''f'' rd_send"

definition rd_conns_receive :: "(conn_view \<times> bytes list \<times> bytes list) list" where
  "rd_conns_receive = receive_file_conns demo_lib (\<lambda>_. []) (log_api view_api) rd_ropts ''d'' rd_receive"

lemma rd_run:
  "map_option fst (send_file demo_lib (\<lambda>w :: unit. (replicate 16 1, w)) (log_api view_api) rd_sopts le_fs ''f'' rd_send) = Some NoError"
  "map_option fst (receive_file demo_lib (\<lambda>_. []) (log_api view_api) rd_ropts ''d'' default_meta rd_receive) = Some NoError"
  "length rd_conns_receive = 2"
  "conns_match (\<lambda>(c, s, r). s) (\<lambda>(c, s, r). r) (\<lambda>(c, s, r). s) (\<lambda>(c, s, r). r) rd_conns_send rd_conns_receive"
  by code_simp+

theorem file_over_redials_witness:
  "\<exists>m tB. receive_file demo_lib (\<lambda>_. []) (log_api view_api) rd_ropts ''d'' default_meta rd_receive = Some (NoError, m, tB) \<and>
     length rd_conns_receive = 2 \<and> fsys_files (xf_dev tB) ''d'' = Some [7, 8]"
proof -
  from rd_run(1) obtain rA where A: "send_file demo_lib (\<lambda>w :: unit. (replicate 16 1, w)) (log_api view_api) rd_sopts le_fs ''f'' rd_send =
      Some (NoError, rA)" by auto
  from rd_run(2) obtain m tB where B: "receive_file demo_lib (\<lambda>_. []) (log_api view_api) rd_ropts ''d'' default_meta rd_receive =
      Some (NoError, m, tB)" by auto
  have src: "open_in le_fs ''f'' = Some [7, 8]" "holds_part [7, 8] ''d'' (xf_dev rd_receive)"
    by (simp_all add: le_fs_def open_in_def demo_fs_def holds_part_def rd_receive_def)
  have fr: "fresh_conn (\<lambda>_. True) (\<lambda>(c, s, r). s) (\<lambda>(c, s, r). r) (rd_view inbox)" for inbox
    by (simp add: fresh_conn_def rd_view_def)
  then have di: "dials_fresh (\<lambda>_. True) (\<lambda>(c, s, r). s) (\<lambda>(c, s, r). r) (normalize (Some (rd_opts inbox)))" for inbox
    unfolding dials_fresh_def by (simp add: normalize_def rd_opts_def default_options_def) metis
  have "fsys_files (xf_dev tB) ''d'' = Some [7, 8]"
    using file_over_redials [OF log_view.logged_conn_axioms log_view.logged_conn_axioms demo.crypto_api_axioms src(1) _ src(2) A B
        _ _ _ _ rd_run(4) [unfolded rd_conns_send_def rd_conns_receive_def]] fr di
    by (simp add: rd_send_def rd_receive_def rd_sopts_def rd_ropts_def)
  with B rd_run(3) show ?thesis by blast
qed

end
