(* ===== verification/Tdx_Chat.thy ===== *)
theory Tdx_Chat
  imports Tdx_Transfer_Logged
begin

text \<open>
  The chat programs built on the library, \<^verbatim>\<open>examples/server/main.cpp\<close> and \<^verbatim>\<open>examples/client/main.cpp\<close>.
  The server runs one handler per connection; the handlers share the vector \<open>conns\<close> under the mutex
  \<open>mu\<close>, which a handler holds while it sends a message to every joined peer and while it shuts its
  own connection down. A handler inside a call of the connection stays there until that call
  returns; what it returns is chosen by the run. Peers are numbered, \<open>conns\<close> holds numbers.
\<close>

section \<open>The server\<close>

datatype handler_pc =
    H_none
  | H_join
  | H_receive
  | H_lock bytes
  | H_send bytes "nat list"
  | H_leave
  | H_shutdown
  | H_done

record chat =
  ch_mu :: "nat option"
  ch_conns :: "nat list"
  ch_pc :: "nat \<Rightarrow> handler_pc"

definition chat_init :: chat where
  "chat_init = \<lparr>ch_mu = None, ch_conns = [], ch_pc = (\<lambda>_. H_none)\<rparr>"

datatype chat_act =
    Ch_accept nat
  | Ch_step nat
  | Ch_received nat "error_code + bytes"
  | Ch_sent nat error_code
  | Ch_closed nat error_code

datatype chat_event =
    Joined nat
  | Left nat
  | Heard nat bytes
  | Broadcast nat bytes
  | SentTo nat bytes error_code

definition set_pc :: "nat \<Rightarrow> handler_pc \<Rightarrow> chat \<Rightarrow> chat" where
  "set_pc i pc c = c\<lparr>ch_pc := (ch_pc c)(i := pc)\<rparr>"

text \<open>The head of the loop over \<open>conns\<close>; at its end the lock guard goes out of scope.\<close>

definition chat_loop :: "nat \<Rightarrow> bytes \<Rightarrow> nat list \<Rightarrow> chat \<Rightarrow> chat" where
  "chat_loop i msg rest c =
    (if rest = [] then set_pc i H_receive (c\<lparr>ch_mu := None\<rparr>) else set_pc i (H_send msg rest) c)"

text \<open>What a handler does when it gets the mutex it waits for.\<close>

fun chat_locked :: "nat \<Rightarrow> handler_pc \<Rightarrow> chat \<Rightarrow> (chat_event list \<times> chat) option" where
  "chat_locked i H_join c = Some ([Joined i], set_pc i H_receive (c\<lparr>ch_conns := ch_conns c @ [i]\<rparr>))"
| "chat_locked i (H_lock msg) c = Some ([Broadcast i msg], chat_loop i msg (ch_conns c) (c\<lparr>ch_mu := Some i\<rparr>))"
| "chat_locked i H_leave c =
    Some ([Left i], set_pc i H_shutdown (c\<lparr>ch_mu := Some i, ch_conns := removeAll i (ch_conns c)\<rparr>))"
| "chat_locked i _ c = None"

fun chat_exec :: "chat_act \<Rightarrow> chat \<Rightarrow> (chat_event list \<times> chat) option" where
  "chat_exec (Ch_accept i) c = (if ch_pc c i = H_none then Some ([], set_pc i H_join c) else None)"
| "chat_exec (Ch_step i) c = (if ch_mu c = None then chat_locked i (ch_pc c i) c else None)"
| "chat_exec (Ch_received i r) c =
    (if ch_pc c i = H_receive then
       (case r of
          Inl ec \<Rightarrow> Some ([], set_pc i H_leave c)
        | Inr msg \<Rightarrow> Some ([Heard i msg], set_pc i (H_lock msg) c))
     else None)"
| "chat_exec (Ch_sent i ec) c =
    (case ch_pc c i of
       H_send msg (j # rest) \<Rightarrow> Some ([SentTo j msg ec], chat_loop i msg rest c)
     | _ \<Rightarrow> None)"
| "chat_exec (Ch_closed i ec) c =
    (if ch_pc c i = H_shutdown then Some ([], set_pc i H_done (c\<lparr>ch_mu := None\<rparr>)) else None)"

inductive chat_run :: "chat \<Rightarrow> chat_act list \<Rightarrow> chat_event list \<Rightarrow> chat \<Rightarrow> bool" where
  chat_nil: "chat_run c [] [] c"
| chat_step: "chat_run c as es c1 \<Longrightarrow> chat_exec a c1 = Some (es', c2) \<Longrightarrow> chat_run c (as @ [a]) (es @ es') c2"

fun chat_schedule :: "chat_act list \<Rightarrow> chat \<Rightarrow> (chat_event list \<times> chat) option" where
  "chat_schedule [] c = Some ([], c)"
| "chat_schedule (a # as) c =
    (case chat_exec a c of
       None \<Rightarrow> None
     | Some (es, c) \<Rightarrow> map_option (apfst ((@) es)) (chat_schedule as c))"

section \<open>What an observer sees\<close>

text \<open>The broadcasts in the order of the mutex, all of them and those of one peer.\<close>

fun broadcasts :: "chat_event list \<Rightarrow> bytes list" where
  "broadcasts [] = []"
| "broadcasts (Broadcast i msg # es) = msg # broadcasts es"
| "broadcasts (_ # es) = broadcasts es"

fun broadcasts_of :: "nat \<Rightarrow> chat_event list \<Rightarrow> bytes list" where
  "broadcasts_of i [] = []"
| "broadcasts_of i (Broadcast k msg # es) = (if k = i then msg # broadcasts_of i es else broadcasts_of i es)"
| "broadcasts_of i (_ # es) = broadcasts_of i es"

fun heard_from :: "nat \<Rightarrow> chat_event list \<Rightarrow> bytes list" where
  "heard_from i [] = []"
| "heard_from i (Heard k msg # es) = (if k = i then msg # heard_from i es else heard_from i es)"
| "heard_from i (_ # es) = heard_from i es"

text \<open>The calls of \<open>send\<close> on the connection of a peer.\<close>

fun sent_to :: "nat \<Rightarrow> chat_event list \<Rightarrow> bytes list" where
  "sent_to j [] = []"
| "sent_to j (SentTo k msg ec # es) = (if k = j then msg # sent_to j es else sent_to j es)"
| "sent_to j (_ # es) = sent_to j es"

text \<open>Whether a peer is joined at the end, and the broadcasts made while it was.\<close>

fun joined_after :: "nat \<Rightarrow> bool \<Rightarrow> chat_event list \<Rightarrow> bool" where
  "joined_after j b [] = b"
| "joined_after j b (Joined i # es) = joined_after j (b \<or> i = j) es"
| "joined_after j b (Left i # es) = joined_after j (b \<and> i \<noteq> j) es"
| "joined_after j b (_ # es) = joined_after j b es"

fun while_joined :: "nat \<Rightarrow> bool \<Rightarrow> chat_event list \<Rightarrow> bytes list" where
  "while_joined j b [] = []"
| "while_joined j b (Joined i # es) = while_joined j (b \<or> i = j) es"
| "while_joined j b (Left i # es) = while_joined j (b \<and> i \<noteq> j) es"
| "while_joined j b (Broadcast i msg # es) = (if b then msg # while_joined j b es else while_joined j b es)"
| "while_joined j b (_ # es) = while_joined j b es"

text \<open>Whether every call of \<open>send\<close> on the connection of a peer is made while the peer is joined.\<close>

fun sends_joined :: "nat \<Rightarrow> bool \<Rightarrow> chat_event list \<Rightarrow> bool" where
  "sends_joined j b [] = True"
| "sends_joined j b (Joined i # es) = sends_joined j (b \<or> i = j) es"
| "sends_joined j b (Left i # es) = sends_joined j (b \<and> i \<noteq> j) es"
| "sends_joined j b (SentTo i msg ec # es) = ((i = j \<longrightarrow> b) \<and> sends_joined j b es)"
| "sends_joined j b (_ # es) = sends_joined j b es"

lemma chat_append [simp]:
  "broadcasts (es @ es') = broadcasts es @ broadcasts es'"
  "broadcasts_of i (es @ es') = broadcasts_of i es @ broadcasts_of i es'"
  "heard_from i (es @ es') = heard_from i es @ heard_from i es'"
  "sent_to j (es @ es') = sent_to j es @ sent_to j es'"
  "joined_after j b (es @ es') = joined_after j (joined_after j b es) es'"
  "while_joined j b (es @ es') = while_joined j b es @ while_joined j (joined_after j b es) es'"
  "sends_joined j b (es @ es') = (sends_joined j b es \<and> sends_joined j (joined_after j b es) es')"
  subgoal by (induction es rule: broadcasts.induct) simp_all
  subgoal by (induction i es rule: broadcasts_of.induct) simp_all
  subgoal by (induction i es rule: heard_from.induct) simp_all
  subgoal by (induction j es rule: sent_to.induct) simp_all
  subgoal by (induction j b es rule: joined_after.induct) simp_all
  subgoal by (induction j b es rule: while_joined.induct) simp_all
  subgoal by (induction j b es rule: sends_joined.induct) simp_all
  done

lemma sends_joined_at: "sends_joined j b (xs @ SentTo j msg ec # ys) \<Longrightarrow> joined_after j b xs"
  by simp

lemma while_joined_subseq: "subseq (while_joined j b es) (broadcasts es)"
  by (induction j b es rule: while_joined.induct) auto

section \<open>Invariant\<close>

fun holds_mu :: "handler_pc \<Rightarrow> bool" where
  "holds_mu (H_send _ _) = True"
| "holds_mu H_shutdown = True"
| "holds_mu _ = False"

fun is_member :: "handler_pc \<Rightarrow> bool" where
  "is_member H_receive = True"
| "is_member (H_lock _) = True"
| "is_member (H_send _ _) = True"
| "is_member H_leave = True"
| "is_member _ = False"

text \<open>What the handler still has to broadcast, and to send to peer \<open>j\<close>.\<close>

fun to_broadcast :: "handler_pc \<Rightarrow> bytes list" where
  "to_broadcast (H_lock msg) = [msg]"
| "to_broadcast _ = []"

fun to_send :: "nat \<Rightarrow> handler_pc \<Rightarrow> bytes list" where
  "to_send j (H_send msg rest) = (if j \<in> set rest then [msg] else [])"
| "to_send j _ = []"

definition owed :: "nat \<Rightarrow> chat \<Rightarrow> bytes list" where
  "owed j c = (case ch_mu c of None \<Rightarrow> [] | Some i \<Rightarrow> to_send j (ch_pc c i))"

definition chat_inv :: "chat_event list \<Rightarrow> chat \<Rightarrow> bool" where
  "chat_inv es c \<longleftrightarrow>
    (\<forall>i. holds_mu (ch_pc c i) \<longleftrightarrow> ch_mu c = Some i) \<and>
    (\<forall>i msg rest. ch_pc c i = H_send msg rest \<longrightarrow> rest \<noteq> [] \<and> suffix rest (ch_conns c)) \<and>
    distinct (ch_conns c) \<and> (\<forall>i. i \<in> set (ch_conns c) \<longleftrightarrow> is_member (ch_pc c i)) \<and>
    (\<forall>i. joined_after i False es \<longleftrightarrow> i \<in> set (ch_conns c)) \<and>
    (\<forall>i. heard_from i es = broadcasts_of i es @ to_broadcast (ch_pc c i)) \<and>
    (\<forall>j. while_joined j False es = sent_to j es @ owed j c)"


text \<open>Steps outside the mutex.\<close>

lemma outside_inv:
  assumes "chat_inv es c" and "\<not> holds_mu (ch_pc c i)" and "\<not> holds_mu pc" and "is_member pc = is_member (ch_pc c i)"
    and "to_broadcast (ch_pc c i) @ heard_from i es' = to_broadcast pc"
    and "\<And>k. k \<noteq> i \<Longrightarrow> heard_from k es' = []" and "\<And>k b. joined_after k b es' = b" and "\<And>k b. while_joined k b es' = []"
    and "\<And>k. sent_to k es' = []" and "\<And>k. broadcasts_of k es' = []"
  shows "chat_inv (es @ es') (set_pc i pc c)"
proof -
  have "to_send j pc = []" for j using assms(3) by (cases pc) simp_all
  moreover have "pc \<noteq> H_send msg rest" for msg rest using assms(3) by auto
  ultimately show ?thesis
    using assms unfolding chat_inv_def set_pc_def owed_def
    by (intro conjI allI impI) (auto split: option.splits if_splits)
qed

lemma accept_inv: "chat_inv es c \<Longrightarrow> ch_pc c i = H_none \<Longrightarrow> chat_inv es (set_pc i H_join c)"
  using outside_inv [of es c i H_join "[]"] by simp

lemma received_inv:
  "chat_inv es c \<Longrightarrow> ch_pc c i = H_receive \<Longrightarrow> chat_inv es (set_pc i H_leave c)"
  "chat_inv es c \<Longrightarrow> ch_pc c i = H_receive \<Longrightarrow> chat_inv (es @ [Heard i msg]) (set_pc i (H_lock msg) c)"
  using outside_inv [of es c i H_leave "[]"] outside_inv [of es c i "H_lock msg" "[Heard i msg]"] by auto

text \<open>With the mutex free nobody sends, so every peer has been sent all it was to get.\<close>

lemma free_mu:
  assumes "chat_inv es c" and "ch_mu c = None"
  shows "\<not> holds_mu (ch_pc c i)" and "ch_pc c i \<noteq> H_send msg rest" and "while_joined j False es = sent_to j es"
proof -
  show h: "\<not> holds_mu (ch_pc c i)" for i using assms by (simp add: chat_inv_def)
  then show "ch_pc c i \<noteq> H_send msg rest" by (metis holds_mu.simps(1))
  show "while_joined j False es = sent_to j es" using assms by (simp add: chat_inv_def owed_def)
qed

lemma join_inv:
  assumes "chat_inv es c" and "ch_mu c = None" and "ch_pc c i = H_join"
  shows "chat_inv (es @ [Joined i]) (set_pc i H_receive (c\<lparr>ch_conns := ch_conns c @ [i]\<rparr>))"
  using assms free_mu [OF assms(1,2)] unfolding chat_inv_def set_pc_def owed_def
  by (intro conjI allI impI) (auto split: if_splits)

lemma leave_inv:
  assumes "chat_inv es c" and "ch_mu c = None" and "ch_pc c i = H_leave"
  shows "chat_inv (es @ [Left i]) (set_pc i H_shutdown (c\<lparr>ch_mu := Some i, ch_conns := removeAll i (ch_conns c)\<rparr>))"
  using assms free_mu [OF assms(1,2)] unfolding chat_inv_def set_pc_def owed_def
  by (intro conjI allI impI) (auto simp: distinct_removeAll split: if_splits)

lemma shut_inv:
  assumes "chat_inv es c" and "ch_pc c i = H_shutdown"
  shows "chat_inv es (set_pc i H_done (c\<lparr>ch_mu := None\<rparr>))"
proof -
  have mu: "ch_mu c = Some i" using assms by (metis chat_inv_def holds_mu.simps(2))
  with assms show ?thesis unfolding chat_inv_def set_pc_def owed_def
    by (intro conjI allI impI) (auto split: if_splits)
qed

lemma broadcast_inv:
  assumes "chat_inv es c" and "ch_mu c = None" and "ch_pc c i = H_lock msg"
  shows "chat_inv (es @ [Broadcast i msg]) (chat_loop i msg (ch_conns c) (c\<lparr>ch_mu := Some i\<rparr>))"
proof -
  have "i \<in> set (ch_conns c)" using assms(1,3) by (simp add: chat_inv_def)
  then have "ch_conns c \<noteq> []" by auto
  with assms free_mu [OF assms(1,2)] show ?thesis
    unfolding chat_inv_def set_pc_def owed_def chat_loop_def
    by (intro conjI allI impI) (auto split: if_splits)
qed

lemma sent_inv:
  assumes "chat_inv es c" and "ch_pc c i = H_send msg (j # rest)"
  shows "chat_inv (es @ [SentTo j msg ec]) (chat_loop i msg rest c)"
proof -
  have mu: "ch_mu c = Some i" using assms by (metis chat_inv_def holds_mu.simps(1))
  have suf: "suffix (j # rest) (ch_conns c)" "distinct (ch_conns c)" using assms by (auto simp: chat_inv_def)
  then have d: "j \<notin> set rest" "suffix rest (ch_conns c)" by (auto simp: suffix_def)
  have other: "ch_pc c k \<noteq> H_send m r" if "k \<noteq> i" for k m r
    using assms(1) mu that by (metis chat_inv_def holds_mu.simps(1) option.inject)
  show ?thesis
    using assms mu d other unfolding chat_inv_def set_pc_def owed_def chat_loop_def
    by (intro conjI allI impI) (auto split: if_splits)
qed

lemma chat_exec_inv:
  assumes "chat_inv es c" and "chat_exec a c = Some (es', c')"
  shows "chat_inv (es @ es') c'"
proof (cases a)
  case (Ch_step i)
  with assms join_inv leave_inv broadcast_inv show ?thesis by (cases "ch_pc c i") (auto split: if_splits)
next
  case (Ch_sent i ec)
  with assms sent_inv show ?thesis by (auto split: handler_pc.splits list.splits)
qed (use assms accept_inv received_inv shut_inv in \<open>auto split: if_splits sum.splits\<close>)

lemma chat_run_inv:
  assumes "chat_run chat_init as es c"
  shows "chat_inv es c"
  using assms
proof (induction chat_init as es c rule: chat_run.induct)
  case chat_nil
  show ?case by (auto simp: chat_inv_def chat_init_def owed_def)
qed (auto intro: chat_exec_inv)

text \<open>
  The peers a handler still has to send to are all joined: the mutex it holds keeps them from leaving.
\<close>

lemma exec_sends_joined:
  assumes "chat_inv es c" and "chat_exec a c = Some (es', c')"
  shows "sends_joined j (joined_after j False es) es'"
proof (cases a)
  case (Ch_sent i ec)
  with assms(2) obtain msg k rest where s: "ch_pc c i = H_send msg (k # rest)" "es' = [SentTo k msg ec]"
    by (auto split: handler_pc.splits list.splits)
  with assms(1) have "suffix (k # rest) (ch_conns c)" by (simp add: chat_inv_def)
  then have "k \<in> set (ch_conns c)" by (auto simp: suffix_def)
  with assms(1) s(2) show ?thesis by (auto simp: chat_inv_def)
next
  case (Ch_step i)
  with assms(2) show ?thesis by (cases "ch_pc c i") (auto split: if_splits)
qed (use assms(2) in \<open>auto split: if_splits sum.splits\<close>)

lemma chat_run_sends_joined:
  assumes "chat_run chat_init as es c"
  shows "sends_joined j False es"
  using assms
proof (induction chat_init as es c rule: chat_run.induct)
  case (chat_step as es c1 a es' c2)
  with exec_sends_joined [OF chat_run_inv [OF chat_step.hyps(1)]] show ?case by simp
qed simp

text \<open>
  While a handler waits in \<open>send\<close> to one peer, it holds the mutex: until that call returns, nobody
  joins, leaves or is heard by the others.
\<close>

definition shared_event :: "chat_event \<Rightarrow> bool" where
  "shared_event e \<longleftrightarrow> (\<forall>i msg. e \<noteq> Heard i msg)"

lemma blocked_exec:
  assumes "chat_exec a c = Some (es, c')" and "ch_mu c = Some i" and "ch_pc c i = H_send msg rest"
    and "\<And>k. k \<noteq> i \<Longrightarrow> \<not> holds_mu (ch_pc c k)" and "\<And>ec. a \<noteq> Ch_sent i ec"
  shows "ch_mu c' = Some i \<and> ch_pc c' i = H_send msg rest \<and> (\<forall>k. k \<noteq> i \<longrightarrow> \<not> holds_mu (ch_pc c' k)) \<and>
    ch_conns c' = ch_conns c \<and> filter shared_event es = []"
proof -
  have only: "k = i" if "ch_pc c k = H_send m r \<or> ch_pc c k = H_shutdown" for k m r
    using assms(4) [of k] that by (metis holds_mu.simps(1,2))
  show ?thesis
  proof (cases a)
    case (Ch_sent k ec)
    with assms(1,5) only show ?thesis by (auto split: handler_pc.splits list.splits)
  next
    case (Ch_closed k ec)
    with assms(1,3) only [of k] show ?thesis by (auto split: if_splits)
  qed (use assms in \<open>auto simp: set_pc_def shared_event_def split: if_splits sum.splits\<close>)
qed

lemma chat_blocked:
  assumes "chat_run c as es c'" and "ch_mu c = Some i" and "ch_pc c i = H_send msg rest"
    and "\<And>k. k \<noteq> i \<Longrightarrow> \<not> holds_mu (ch_pc c k)" and "\<And>ec. Ch_sent i ec \<notin> set as"
  shows "ch_mu c' = Some i \<and> ch_pc c' i = H_send msg rest \<and> (\<forall>k. k \<noteq> i \<longrightarrow> \<not> holds_mu (ch_pc c' k)) \<and>
    ch_conns c' = ch_conns c \<and> filter shared_event es = []"
  using assms
proof (induction rule: chat_run.induct)
  case (chat_step c as es c1 a es' c2)
  then have "ch_mu c1 = Some i \<and> ch_pc c1 i = H_send msg rest \<and> (\<forall>k. k \<noteq> i \<longrightarrow> \<not> holds_mu (ch_pc c1 k)) \<and>
      ch_conns c1 = ch_conns c \<and> filter shared_event es = []" by auto
  moreover have "\<And>ec. a \<noteq> Ch_sent i ec" using chat_step.prems(4) by auto
  ultimately show ?case using blocked_exec [OF chat_step.hyps(2)] by auto
qed auto

section \<open>The client\<close>

text \<open>
  The main thread sends the lines it reads until \<open>/quit\<close> or the end of the input (the errors it
  prints are the first component); the reader thread prints what arrives until \<open>receive\<close> fails.
\<close>

fun client_loop :: "'c msg_conn \<Rightarrow> string list \<Rightarrow> 'c \<Rightarrow> error_code list \<times> 'c" where
  "client_loop api [] c = ([], c)"
| "client_loop api (line # rest) c =
    (if line = ''/quit'' then ([], c)
     else
       let (ec, c) = mc_send api (bytes_of_string line) c;
           (errs, c) = client_loop api rest c
       in (if ec_fails ec then ec # errs else errs, c))"

partial_function (option) client_reader :: "'c msg_conn \<Rightarrow> string list \<Rightarrow> 'c \<Rightarrow> (string list \<times> 'c) option" where
  "client_reader api printed c =
    (case mc_receive api c of
       (Inl ec, c) \<Rightarrow> Some (printed, c)
     | (Inr msg, c) \<Rightarrow> client_reader api (printed @ [string_of_bytes msg]) c)"

declare client_reader.simps [code]

context logged_conn
begin

text \<open>The lines before \<open>/quit\<close>, in order, less those for which an error was printed.\<close>

lemma client_loop_log:
  assumes "client_loop api lines c = (errs, c')" and "ok c"
  shows "\<exists>ls. ok c' \<and> recvd c' = recvd c \<and> sent c' = sent c @ map bytes_of_string ls \<and>
    subseq ls (takeWhile (\<lambda>l. l \<noteq> ''/quit'') lines) \<and>
    length ls + length errs = length (takeWhile (\<lambda>l. l \<noteq> ''/quit'') lines)"
  using assms
proof (induction lines arbitrary: c errs)
  case (Cons line rest)
  show ?case
  proof (cases "line = ''/quit''")
    case False
    obtain ec c1 errs1 where s: "mc_send api (bytes_of_string line) c = (ec, c1)" and
      r: "client_loop api rest c1 = (errs1, c')" and errs: "errs = (if ec_fails ec then ec # errs1 else errs1)"
      using Cons.prems(1) False by (auto split: prod.splits)
    note lg = send_log [OF s Cons.prems(2)]
    from Cons.IH [OF r] lg obtain ls where ls: "ok c'" "recvd c' = recvd c" "sent c' = sent c1 @ map bytes_of_string ls"
      "subseq ls (takeWhile (\<lambda>l. l \<noteq> ''/quit'') rest)"
      "length ls + length errs1 = length (takeWhile (\<lambda>l. l \<noteq> ''/quit'') rest)" by auto
    show ?thesis
      by (rule exI [of _ "if ec_fails ec then ls else line # ls"]) (use False ls lg errs in auto)
  qed (use Cons.prems in auto)
qed auto

lemma client_reader_log:
  assumes "client_reader api printed c = Some r" and "ok c"
  shows "\<exists>ms. ok (snd r) \<and> sent (snd r) = sent c \<and> recvd (snd r) = recvd c @ ms \<and> fst r = printed @ map string_of_bytes ms"
proof -
  let ?Q = "\<lambda>printed c r. \<exists>ms. ok (snd r) \<and> sent (snd r) = sent c \<and> recvd (snd r) = recvd c @ ms \<and>
    fst r = printed @ map string_of_bytes ms"
  have "api = api \<longrightarrow> ok c \<longrightarrow> ?Q printed c r"
  proof (rule client_reader.raw_induct [of "\<lambda>a printed c r. a = api \<longrightarrow> ok c \<longrightarrow> ?Q printed c r" api printed c r], goal_cases)
    case (1 f a printed c r)
    obtain res c1 where rc: "mc_receive a c = (res, c1)" by fastforce
    show ?case
    proof (cases res)
      case (Inl ec)
      with 1(2) rc receive_log [of c res c1] show ?thesis by auto
    next
      case (Inr msg)
      with 1(2) rc have "f a (printed @ [string_of_bytes msg]) c1 = Some r" by simp
      from 1(1) [OF this] rc Inr receive_log [of c res c1] show ?thesis by fastforce
    qed
  qed (rule assms(1))
  with assms(2) show ?thesis by blast
qed

end

section \<open>Properties\<close>

text \<open>
  C17. The chat server delivers in one order. In every run, with any number of peers joining and
  leaving and any results of the connections' calls: each peer is sent exactly the messages
  broadcast while it was joined, in the order of the broadcasts and without gaps or repetitions (at
  most the one being sent right now, by the holder of the mutex, is outstanding); every call of
  \<open>send\<close> on its connection is made after its handler has joined and before it has left, so none is
  made on a connection that is being shut down or is gone; a peer's own messages are broadcast in the
  order they were received from it; and the vector of connections holds, once each, exactly the peers
  whose handlers have joined and not yet left.
\<close>

theorem chat_broadcast_order:
  assumes "chat_run chat_init as es c"
  shows "(\<exists>outstanding. while_joined j False es = sent_to j es @ outstanding \<and> length outstanding \<le> 1 \<and>
       (outstanding \<noteq> [] \<longrightarrow> (\<exists>i msg rest. ch_mu c = Some i \<and> ch_pc c i = H_send msg rest \<and> outstanding = [msg]))) \<and>
    (\<forall>xs msg ec ys. es = xs @ SentTo j msg ec # ys \<longrightarrow> joined_after j False xs) \<and>
    subseq (sent_to j es) (broadcasts es) \<and> prefix (broadcasts_of j es) (heard_from j es) \<and>
    distinct (ch_conns c) \<and> (j \<in> set (ch_conns c) \<longleftrightarrow> is_member (ch_pc c j))"
proof -
  have inv: "chat_inv es c" by (rule chat_run_inv [OF assms])
  then have w: "while_joined j False es = sent_to j es @ owed j c" by (simp add: chat_inv_def)
  have o: "length (owed j c) \<le> 1 \<and> (owed j c \<noteq> [] \<longrightarrow> (\<exists>i msg rest. ch_mu c = Some i \<and> ch_pc c i = H_send msg rest \<and> owed j c = [msg]))"
    by (cases "ch_mu c"; cases "ch_pc c (the (ch_mu c))") (auto simp: owed_def)
  have "subseq (sent_to j es) (while_joined j False es)"
    by (simp add: w prefix_imp_subseq)
  then have "subseq (sent_to j es) (broadcasts es)" using while_joined_subseq subseq_order.trans by blast
  moreover have "joined_after j False xs" if "es = xs @ SentTo j msg ec # ys" for xs msg ec ys
    using chat_run_sends_joined [OF assms, of j] that by (auto dest: sends_joined_at)
  ultimately show ?thesis using inv w o by (auto simp: chat_inv_def)
qed

definition wt_acts :: "chat_act list" where
  "wt_acts = [Ch_accept 0, Ch_accept 1, Ch_step 0, Ch_step 1, Ch_received 1 (Inr [5]), Ch_received 0 (Inr [6]),
     Ch_step 1, Ch_sent 1 NoError, Ch_sent 1 NoError, Ch_step 0, Ch_sent 0 NoError]"

lemma wt_run:
  "map_option (\<lambda>(es, c). (sent_to 0 es, sent_to 1 es, broadcasts es)) (chat_schedule wt_acts chat_init) =
     Some ([[5], [6]], [[5]], [[5], [6]])"
  by code_simp

lemma chat_run_schedule: "chat_run c as es c1 \<Longrightarrow> chat_schedule as' c1 = Some (es', c') \<Longrightarrow> chat_run c (as @ as') (es @ es') c'"
proof (induction as' arbitrary: as es c1 es')
  case (Cons a as')
  then obtain es1 c2 es2 where x: "chat_exec a c1 = Some (es1, c2)" "chat_schedule as' c2 = Some (es2, c')" "es' = es1 @ es2"
    by (auto split: option.splits)
  from Cons.IH [OF chat_step [OF Cons.prems(1) x(1)] x(2)] x(3) show ?case by simp
qed simp

theorem chat_broadcast_order_witness:
  "\<exists>es c outstanding. chat_run chat_init wt_acts es c \<and> broadcasts es = [[5], [6]] \<and> sent_to 1 es = [[5]] \<and>
     while_joined 1 False es = sent_to 1 es @ outstanding \<and> length outstanding \<le> 1 \<and> subseq (sent_to 1 es) (broadcasts es)"
proof -
  from wt_run obtain es c where s: "chat_schedule wt_acts chat_init = Some (es, c)" and
    e: "broadcasts es = [[5], [6]]" "sent_to 1 es = [[5]]" by auto
  have r: "chat_run chat_init wt_acts es c" using chat_run_schedule [OF chat_nil s] by simp
  with chat_broadcast_order [OF r, of 1] e show ?thesis by blast
qed

end
