(* ===== verification/Tdx_Examples.thy ===== *)
theory Tdx_Examples
  imports Tdx_Transfer_End Tdx_Dial
begin

text \<open>
  The two demonstration programs \<^verbatim>\<open>examples/simple/main.cpp\<close> and \<^verbatim>\<open>examples/transfer/main.cpp\<close>: a
  process that dials itself. The server thread accepts one socket and serves it, the main thread
  dials; each then talks over its own connection machine, under a schedule of its own. Each thread
  is a function of its view of the kernel, and the two are joined only by the bytes on the wire. An
  exception that leaves a thread is kept in its result; it ends the process.
\<close>

section \<open>Closing a link\<close>

text \<open>\<open>close\<close>, \<open>shutdown\<close> and the destructor, called by the thread that owns the connection.\<close>

definition link_close :: "('k, 'a) posix \<Rightarrow> ('h, 'r) crypto_lib \<Rightarrow> ('k, 'r, 'cb) link \<Rightarrow> error_code \<times> ('k, 'r, 'cb) link" where
  "link_close p lib l =
    (case link_call p lib (Call_shutdown None) l of
       (Some (Ret_shutdown ec), l) \<Rightarrow> (ec, l)
     | (_, l) \<Rightarrow> (DuplexEc errc_canceled, l))"

definition link_destroy :: "('k, 'a) posix \<Rightarrow> ('h, 'r) crypto_lib \<Rightarrow> ('k, 'r, 'cb) link \<Rightarrow> ('k, 'r, 'cb) link" where
  "link_destroy p lib l = snd (link_call p lib Call_destroy l)"

text \<open>While no caller is inside \<open>send\<close> or \<open>receive\<close>, the histories stand still.\<close>

definition all_quiet :: "('k, 'r, 'cb) conn \<Rightarrow> bool" where
  "all_quiet c \<longleftrightarrow> (\<forall>u. quiet (c_users c u))"

definition closing_step :: "event list \<Rightarrow> ('k, 'r, 'cb) conn \<Rightarrow> bool" where
  "closing_step es c' \<longleftrightarrow> all_quiet c' \<and> text_payloads (accepted es) = [] \<and> delivered es = [] \<and>
     (returned es \<noteq> None \<longrightarrow> c_users c' 0 = U_idle)"

lemma all_quiet_others: "all_quiet c \<Longrightarrow> others_quiet c"
  by (simp add: all_quiet_def others_quiet_def)

lemma others_all_quiet: "others_quiet c \<Longrightarrow> quiet (c_users c 0) \<Longrightarrow> all_quiet c"
  by (metis all_quiet_def others_quiet_def)

lemma calling_none: "calling pc = None \<longleftrightarrow> quiet pc"
  by (cases pc) simp_all

lemma closing_user:
  assumes "all_quiet c" and "quiet pc"
  shows "exec_user p 0 pc c = Some (es, c') \<Longrightarrow> closing_step es c'"
    and "exec_timeout 0 pc c = Some (es, c') \<Longrightarrow> closing_step es c'"
proof -
  show "exec_user p 0 pc c = Some (es, c') \<Longrightarrow> closing_step es c'"
    using assms
    by (cases pc) (auto simp: closing_step_def all_quiet_def shutdown_return_def shutdown_stop_def
        shutdown_deliver_def shutdown_sock_def text_payloads_def Let_def split: if_splits prod.splits)
  show "exec_timeout 0 pc c = Some (es, c') \<Longrightarrow> closing_step es c'"
    using assms
    by (cases "(0 :: nat, pc, c)" rule: exec_timeout.cases)
      (auto simp: closing_step_def all_quiet_def shutdown_return_def text_payloads_def split: if_splits)
qed

lemma exec_closing:
  assumes "exec p lib a c = Some (es, c')" and "link_action a" and "all_quiet c"
  shows "closing_step es c'"
proof (cases "a = A_user 0 \<or> a = A_timeout 0")
  case True
  moreover have "quiet (c_users c 0)" using assms(3) by (simp add: all_quiet_def)
  ultimately show ?thesis using assms(1,3) closing_user by auto
next
  case False
  then have a: "aside c es c'" using exec_aside [OF assms(1,2) all_quiet_others [OF assms(3)]] by simp
  moreover have "quiet (c_users c' 0)"
    using a assms(3) by (simp add: aside_def all_quiet_def flip: calling_none)
  ultimately show ?thesis by (simp add: aside_def closing_step_def others_all_quiet)
qed

lemma link_run_closing:
  assumes "link_run p lib sched log c = (r, l')" and "conn_run p lib c0 as log c" and "all_quiet c"
  shows "link_ok p lib c0 l' \<and> link_sent l' = text_payloads (accepted log) \<and> link_recvd l' = delivered log"
  using assms
proof (induction sched arbitrary: as log c)
  case Nil
  then show ?case by (auto simp: link_ok_def link_sent_def link_recvd_def all_quiet_others)
next
  case (Cons a sched)
  show ?case
  proof (cases "link_action a \<and> exec p lib a c \<noteq> None")
    case False
    with Cons show ?thesis by (auto split: if_splits option.splits)
  next
    case True
    then obtain es c1 where x: "exec p lib a c = Some (es, c1)" "link_action a" by auto
    have s: "closing_step es c1" by (rule exec_closing [OF x Cons.prems(3)])
    have run: "conn_run p lib c0 (as @ [a]) (log @ es) c1" by (rule run_step [OF Cons.prems(2) x(1)])
    show ?thesis
    proof (cases "returned es")
      case None
      with x Cons.prems(1) have "link_run p lib sched (log @ es) c1 = (r, l')" by simp
      from Cons.IH [OF this run] s show ?thesis by (simp add: closing_step_def)
    next
      case (Some ret)
      with x Cons.prems(1) have "l' = \<lparr>lk_conn = c1, lk_sched = sched, lk_events = log @ es\<rparr>" by auto
      with s run Some show ?thesis
        by (auto simp: closing_step_def link_ok_def link_sent_def link_recvd_def all_quiet_others)
    qed
  qed
qed

lemma link_call_closing:
  assumes "link_call p lib op l = (r, l')" and "link_ok p lib c0 l" and "op = Call_shutdown t \<or> op = Call_destroy"
  shows "link_ok p lib c0 l' \<and> link_sent l' = link_sent l \<and> link_recvd l' = link_recvd l"
proof (cases "exec p lib (A_call 0 op) (lk_conn l)")
  case None
  with assms show ?thesis by (auto simp: link_call_def)
next
  case (Some res)
  obtain es c1 where res: "res = (es, c1)" by fastforce
  note x = Some [unfolded res]
  from assms(2) obtain as where l: "conn_run p lib c0 as (lk_events l) (lk_conn l)" "others_quiet (lk_conn l)"
    by (auto simp: link_ok_def)
  have idle: "c_users (lk_conn l) 0 = U_idle" using x by (auto split: if_splits)
  then have "all_quiet (lk_conn l)" using others_all_quiet [OF l(2)] by simp
  then have s: "closing_step es c1"
    using x assms(3) idle by (auto simp: closing_step_def all_quiet_def Conn_shutdown_def text_payloads_def split: if_splits)
  have run: "conn_run p lib c0 (as @ [A_call 0 op]) (lk_events l @ es) c1" by (rule run_step [OF l(1) x])
  show ?thesis
  proof (cases "returned es")
    case None
    with x assms(1) have "link_run p lib (lk_sched l) (lk_events l @ es) c1 = (r, l')" by (simp add: link_call_def)
    from link_run_closing [OF this run] s show ?thesis by (simp add: closing_step_def link_sent_def link_recvd_def)
  next
    case (Some ret)
    with x assms(1) have "l' = l\<lparr>lk_conn := c1, lk_events := lk_events l @ es\<rparr>" by (auto simp: link_call_def)
    with s run Some show ?thesis
      by (auto simp: closing_step_def link_ok_def link_sent_def link_recvd_def all_quiet_others)
  qed
qed

lemma link_close_log:
  assumes "link_ok p lib c0 l"
  shows "link_ok p lib c0 (snd (link_close p lib l)) \<and> link_sent (snd (link_close p lib l)) = link_sent l \<and>
    link_recvd (snd (link_close p lib l)) = link_recvd l"
    and "link_ok p lib c0 (link_destroy p lib l) \<and> link_sent (link_destroy p lib l) = link_sent l \<and>
    link_recvd (link_destroy p lib l) = link_recvd l"
  using link_call_closing [OF prod.collapse [symmetric] assms, of "Call_shutdown None" None]
    link_call_closing [OF prod.collapse [symmetric] assms, of Call_destroy]
  by (auto simp: link_close_def link_destroy_def split: prod.splits option.splits ret.splits)


text \<open>How the programs leave a link: closed, destroyed, or both.\<close>

definition closings :: "('k, 'a) posix \<Rightarrow> ('h, 'r) crypto_lib \<Rightarrow> ('k, 'r, 'cb) link \<Rightarrow> ('k, 'r, 'cb) link set" where
  "closings p lib l = {link_destroy p lib l, snd (link_close p lib l), link_destroy p lib (snd (link_close p lib l))}"

lemma closings_log:
  assumes "l' \<in> closings p lib l" and "link_ok p lib c0 l"
  shows "link_ok p lib c0 l' \<and> link_sent l' = link_sent l \<and> link_recvd l' = link_recvd l"
  using assms link_close_log [OF assms(2)] link_close_log(2) [of p lib c0 "snd (link_close p lib l)"] by (auto simp: closings_def)

section \<open>The programs\<close>

text \<open>What a thread printed, the exception that left it, and its connection, if it got one.\<close>

record 'l thread_end =
  th_out :: "string list"
  th_err :: "string list"
  th_throw :: "Error option"
  th_link :: "'l option"

datatype exit_status = Exit int | Terminated | Undefined

subsection \<open>examples/simple\<close>

text \<open>
  What a thread of the program does that the other or the user can see, in its own order: a message
  received, a line printed, a call of \<open>send\<close> (at the call: the peer may have the message before the call
  returns).
\<close>

datatype thread_op = Received bytes | Print string | Send bytes

record 'l talk_end =
  tk_ops :: "thread_op list"
  tk_throw :: "Error option"
  tk_link :: "'l option"

definition simple_server_talk ::
  "('k, 'a) posix \<Rightarrow> ('h, 'r) crypto_lib \<Rightarrow> (error_code \<Rightarrow> string) \<Rightarrow> ('k, 'r, 'cb) link \<Rightarrow>
   ('k, 'r, 'cb) link talk_end" where
  "simple_server_talk p lib std l =
    (let (r, l) = link_receive p lib l in
     case Conn_receive_throwing std r of
       Inl e \<Rightarrow> \<lparr>tk_ops = [], tk_throw = Some e, tk_link = Some l\<rparr>
     | Inr msg \<Rightarrow>
         let ops = [Received msg];
             ops = ops @ [Print (''server received: '' @ string_of_bytes msg)];
             ops = ops @ [Send (bytes_of_string ''world'')];
             (ec, l) = link_send p lib (bytes_of_string ''world'') l
         in (case Conn_send_throwing std ec of
               Inl e \<Rightarrow> \<lparr>tk_ops = ops, tk_throw = Some e, tk_link = Some l\<rparr>
             | Inr _ \<Rightarrow>
                 let (ec, l) = link_close p lib l
                 in (case Conn_close_throwing std ec of
                       Inl e \<Rightarrow> \<lparr>tk_ops = ops, tk_throw = Some e, tk_link = Some l\<rparr>
                     | Inr _ \<Rightarrow> \<lparr>tk_ops = ops, tk_throw = None, tk_link = Some (link_destroy p lib l)\<rparr>)))"

definition simple_server ::
  "('k, 'a) posix \<Rightarrow> ('h, 'r) crypto_lib \<Rightarrow> (error_code \<Rightarrow> string) \<Rightarrow> 'r \<Rightarrow> 'r seal_rng \<Rightarrow> action list \<Rightarrow>
   tcp_listener \<Rightarrow> 'k \<Rightarrow> ('k, 'r, unit) link talk_end" where
  "simple_server p lib std ent g sched ln k =
    (case TcpListener_accept p ln k of
       (Inl ec, k) \<Rightarrow> \<lparr>tk_ops = [], tk_throw = None, tk_link = None\<rparr>
     | (Inr raw, k) \<Rightarrow>
         (case serve_conn_throwing std (fst (serve_conn_for p lib (Some raw) None ent g k)) of
            Inl e \<Rightarrow> \<lparr>tk_ops = [], tk_throw = Some e, tk_link = None\<rparr>
          | Inr c \<Rightarrow> simple_server_talk p lib std (link_start c sched)))"

definition simple_client_talk ::
  "('k, 'a) posix \<Rightarrow> ('h, 'r) crypto_lib \<Rightarrow> (error_code \<Rightarrow> string) \<Rightarrow> ('k, 'r, 'cb) link \<Rightarrow>
   ('k, 'r, 'cb) link talk_end" where
  "simple_client_talk p lib std l =
    (let ops = [Send (bytes_of_string ''hello'')];
         (ec, l) = link_send p lib (bytes_of_string ''hello'') l
     in case Conn_send_throwing std ec of
       Inl e \<Rightarrow> \<lparr>tk_ops = ops, tk_throw = Some e, tk_link = Some l\<rparr>
     | Inr _ \<Rightarrow>
         let (r, l) = link_receive p lib l in
         (case Conn_receive_throwing std r of
            Inl e \<Rightarrow> \<lparr>tk_ops = ops, tk_throw = Some e, tk_link = Some l\<rparr>
          | Inr msg \<Rightarrow>
              let ops = ops @ [Received msg];
                  ops = ops @ [Print (''client received: '' @ string_of_bytes msg)];
                  (ec, l) = link_close p lib l
              in (case Conn_close_throwing std ec of
                    Inl e \<Rightarrow> \<lparr>tk_ops = ops, tk_throw = Some e, tk_link = Some l\<rparr>
                  | Inr _ \<Rightarrow> \<lparr>tk_ops = ops, tk_throw = None, tk_link = Some (link_destroy p lib l)\<rparr>)))"

definition simple_client ::
  "('k, 'a) posix \<Rightarrow> ('h, 'r) crypto_lib \<Rightarrow> (error_code \<Rightarrow> string) \<Rightarrow> 'r \<Rightarrow> 'r seal_rng \<Rightarrow> action list \<Rightarrow>
   string \<Rightarrow> 'k \<Rightarrow> ('k, 'r, unit) link talk_end" where
  "simple_client p lib std ent g sched addr k =
    (case dial_throwing std (fst (dial_for p lib addr None ent g k)) of
       Inl e \<Rightarrow> \<lparr>tk_ops = [], tk_throw = Some e, tk_link = None\<rparr>
     | Inr c \<Rightarrow> simple_client_talk p lib std (link_start c sched))"

text \<open>
  \<open>main\<close>, by the result of \<open>listen\<close> and the two threads: the main thread joins the server thread, and an
  exception in either ends the process.
\<close>

definition simple_main ::
  "(error_code \<Rightarrow> string) \<Rightarrow> error_code + tcp_listener \<Rightarrow> (tcp_listener \<Rightarrow> 'l talk_end) \<Rightarrow> (string \<Rightarrow> 'm talk_end) \<Rightarrow>
   exit_status \<times> string list" where
  "simple_main std listened server client =
    (case listened of
       Inl ec \<Rightarrow> (Exit 1, [''listen: '' @ ec_message std ec])
     | Inr ln \<Rightarrow>
         let s = server ln; c = client (TcpListener_addr ln)
         in (if tk_throw s = None \<and> tk_throw c = None then Exit 0 else Terminated, []))"

text \<open>
  The orders in which the operations of the two threads (\<open>True\<close>: of the client) can have happened: each
  thread's own order, and a message is received only after the other thread has called \<open>send\<close> with it.
\<close>

fun causal :: "(bool \<times> bytes) list \<Rightarrow> (bool \<times> thread_op) list \<Rightarrow> bool" where
  "causal sent [] = True"
| "causal sent ((w, Received m) # xs) = ((\<not> w, m) \<in> set sent \<and> causal sent xs)"
| "causal sent ((w, Print l) # xs) = causal sent xs"
| "causal sent ((w, Send m) # xs) = causal ((w, m) # sent) xs"

definition happens :: "thread_op list \<Rightarrow> thread_op list \<Rightarrow> (bool \<times> thread_op) list \<Rightarrow> bool" where
  "happens client server xs \<longleftrightarrow>
     map snd (filter fst xs) = client \<and> map snd (filter (\<lambda>x. \<not> fst x) xs) = server \<and> causal [] xs"

fun printed :: "thread_op list \<Rightarrow> string list" where
  "printed [] = []"
| "printed (Print l # ops) = l # printed ops"
| "printed (_ # ops) = printed ops"

subsection \<open>examples/transfer\<close>

text \<open>\<open>operator<<\<close> on integers.\<close>

fun decimal :: "nat \<Rightarrow> string" where
  "decimal n = (if n < 10 then [char_of (48 + n)] else decimal (n div 10) @ [char_of (48 + n mod 10)])"

declare decimal.simps [simp del]

definition print_int :: "int \<Rightarrow> string" where
  "print_int i = (if i < 0 then ''-'' @ decimal (nat (- i)) else decimal (nat i))"

definition example_text :: string where
  "example_text = ''encrypted resumable transfer over cpptcpduplex'' @ [CHR 0x0A]"

definition example_src :: "string \<Rightarrow> string" where
  "example_src dir = dir @ ''/hello.txt''"

definition example_dst :: "string \<Rightarrow> string" where
  "example_dst dir = dir @ ''/hello-copy.txt''"

text \<open>\<open>std::ofstream out(src, std::ios::binary); out << text\<close>: a stream that did not open writes nothing.\<close>

definition write_source :: "string \<Rightarrow> file_system \<Rightarrow> file_system" where
  "write_source dir fsy =
    (if fsys_writable fsy (example_src dir) then
       let out = fstream_write (bytes_of_string example_text) (fstream_open (fsys_room fsy) [])
       in fsy\<lparr>fsys_files := (fsys_files fsy)(example_src dir \<mapsto> fs_content out)\<rparr>
     else fsy)"

definition received_line :: "meta \<Rightarrow> string" where
  "received_line m = ''received '' @ meta_name m @ '' ('' @ print_int (meta_size m) @ '' bytes, id='' @
     id_to_string (meta_id m) @ '')''"

definition progress_line :: "int \<times> int \<Rightarrow> string" where
  "progress_line r = ''progress '' @ print_int (fst r) @ ''/'' @ print_int (snd r)"

text \<open>The server thread; \<open>None\<close> when \<open>receive_file\<close> never returns.\<close>

definition transfer_server_talk ::
  "('k, 'a) posix \<Rightarrow> ('h, 'r) crypto_lib \<Rightarrow> (error_code \<Rightarrow> string) \<Rightarrow> string \<Rightarrow> file_system \<Rightarrow>
   ('k, 'r, 'cb) link \<Rightarrow> (('k, 'r, 'cb) link thread_end \<times> file_system) option" where
  "transfer_server_talk p lib std dst fsy l =
    map_option
      (\<lambda>(e, m, t).
         if ec_fails e then
           (\<lparr>th_out = [], th_err = [''receive: '' @ ec_message std e], th_throw = None,
             th_link = Some (link_destroy p lib (xf_conn t))\<rparr>, xf_dev t)
         else
           let printed = [received_line m];
               (ec, l) = link_close p lib (xf_conn t)
           in (case Conn_close_throwing std ec of
                 Inl e \<Rightarrow> (\<lparr>th_out = printed, th_err = [], th_throw = Some e, th_link = Some l\<rparr>, xf_dev t)
               | Inr _ \<Rightarrow> (\<lparr>th_out = printed, th_err = [], th_throw = None, th_link = Some (link_destroy p lib l)\<rparr>, xf_dev t)))
      (receive_file lib std (link_api p lib) None dst default_meta
         \<lparr>xf_conn = l, xf_dev = fsy, xf_progress = [], xf_world = ()\<rparr>)"

definition transfer_server ::
  "('k, 'a) posix \<Rightarrow> ('h, 'r) crypto_lib \<Rightarrow> (error_code \<Rightarrow> string) \<Rightarrow> 'r \<Rightarrow> 'r seal_rng \<Rightarrow> action list \<Rightarrow> 'k \<Rightarrow>
   string \<Rightarrow> tcp_listener \<Rightarrow> file_system \<Rightarrow> (('k, 'r, unit) link thread_end \<times> file_system) option" where
  "transfer_server p lib std ent g sched k dst ln fsy =
    (let (r, k) = TcpListener_accept p ln k;
         raw = (case r of Inl _ \<Rightarrow> None | Inr sock \<Rightarrow> Some sock)
     in case serve_conn_throwing std (fst (serve_conn_for p lib raw None ent g k)) of
          Inl e \<Rightarrow> Some (\<lparr>th_out = [], th_err = [], th_throw = Some e, th_link = None\<rparr>, fsy)
        | Inr c \<Rightarrow> transfer_server_talk p lib std dst fsy (link_start c sched))"

text \<open>The main thread up to the \<open>join\<close>, or its early return.\<close>

definition transfer_client_talk ::
  "('k, 'a) posix \<Rightarrow> ('h, 'r) crypto_lib \<Rightarrow> (error_code \<Rightarrow> string) \<Rightarrow> ('w \<Rightarrow> bytes \<times> 'w) \<Rightarrow> 'w \<Rightarrow> string \<Rightarrow>
   file_system \<Rightarrow> ('k, 'r, 'cb) link \<Rightarrow> ('k, 'r, 'cb) link thread_end option" where
  "transfer_client_talk p lib std urandom w src fsy l =
    map_option
      (\<lambda>(e, r).
         let (l, printed) = (case r of None \<Rightarrow> (l, []) | Some t \<Rightarrow> (xf_conn t, map progress_line (xf_progress t)))
         in if ec_fails e then
              \<lparr>th_out = printed, th_err = [''send: '' @ ec_message std e], th_throw = None, th_link = Some (link_destroy p lib l)\<rparr>
            else
              let (ec, l) = link_close p lib l
              in (case Conn_close_throwing std ec of
                    Inl e \<Rightarrow> \<lparr>th_out = printed, th_err = [], th_throw = Some e, th_link = Some l\<rparr>
                  | Inr _ \<Rightarrow> \<lparr>th_out = printed, th_err = [], th_throw = None, th_link = Some (link_destroy p lib l)\<rparr>))
      (send_file lib urandom (link_api p lib) (Some (default_options\<lparr>on_progress := True\<rparr>)) fsy src
         \<lparr>xf_conn = l, xf_dev = (), xf_progress = [], xf_world = w\<rparr>)"

definition transfer_client ::
  "('k, 'a) posix \<Rightarrow> ('h, 'r) crypto_lib \<Rightarrow> (error_code \<Rightarrow> string) \<Rightarrow> 'r \<Rightarrow> 'r seal_rng \<Rightarrow> action list \<Rightarrow> 'k \<Rightarrow>
   ('w \<Rightarrow> bytes \<times> 'w) \<Rightarrow> 'w \<Rightarrow> string \<Rightarrow> string \<Rightarrow> file_system \<Rightarrow> ('k, 'r, unit) link thread_end option" where
  "transfer_client p lib std ent g sched k urandom w src addr fsy =
    (case dial_throwing std (fst (dial_for p lib addr None ent g k)) of
       Inl e \<Rightarrow> Some \<lparr>th_out = [], th_err = [], th_throw = Some e, th_link = None\<rparr>
     | Inr c \<Rightarrow> transfer_client_talk p lib std urandom w src fsy (link_start c sched))"

text \<open>
  \<open>main\<close>, by the result of \<open>listen\<close> and the two threads: its output and status. A failed \<open>listen\<close> is not
  noticed, and the null pointer is dereferenced. When sending fails, \<open>main\<close> returns while the server
  thread is still joinable, which terminates the process.
\<close>

definition transfer_main ::
  "string \<Rightarrow> error_code + tcp_listener \<Rightarrow> (tcp_listener \<Rightarrow> file_system \<Rightarrow> ('l thread_end \<times> file_system) option) \<Rightarrow>
   (string \<Rightarrow> file_system \<Rightarrow> 'm thread_end option) \<Rightarrow> file_system \<Rightarrow> (exit_status \<times> string list) option" where
  "transfer_main dir listened server client fsy =
    (let fsy = write_source dir fsy in
     case listened of
       Inl ec \<Rightarrow> Some (Undefined, [])
     | Inr ln \<Rightarrow>
         (case client (TcpListener_addr ln) fsy of
            None \<Rightarrow> None
          | Some c \<Rightarrow>
              if th_throw c \<noteq> None \<or> th_err c \<noteq> [] then Some (Terminated, th_out c)
              else (case server ln fsy of
                  None \<Rightarrow> None
                | Some (s, fsy) \<Rightarrow>
                    if th_throw s \<noteq> None then Some (Terminated, th_out c)
                    else
                      let got = (case open_in fsy (example_dst dir) of None \<Rightarrow> [] | Some b \<Rightarrow> b)
                      in Some (Exit 0, th_out c @ [''verified: '' @ string_of_bytes got]))))"

section \<open>What is said and heard\<close>

text \<open>Both talks, in terms of the histories of their links.\<close>

abbreviation server_ops :: "bytes \<Rightarrow> thread_op list" where
  "server_ops m \<equiv> [Received m, Print (''server received: '' @ string_of_bytes m), Send (bytes_of_string ''world'')]"

abbreviation client_ops :: "bytes \<Rightarrow> thread_op list" where
  "client_ops m \<equiv> [Received m, Print (''client received: '' @ string_of_bytes m)]"

lemma simple_server_talk_log:
  assumes "simple_server_talk p lib std l = t" and "link_ok p lib c0 l" and "link_sent l = []" and "link_recvd l = []"
  obtains l' where "tk_link t = Some l'" and "link_ok p lib c0 l'" and "length (link_recvd l') \<le> 1"
    and "tk_ops t = concat (map server_ops (link_recvd l'))"
    and "link_sent l' = [] \<or> link_sent l' = [bytes_of_string ''world''] \<and> link_recvd l' \<noteq> []"
    and "tk_throw t = None \<Longrightarrow> link_recvd l' \<noteq> []"
proof -
  obtain r l1 where r: "link_receive p lib l = (r, l1)" by fastforce
  have m: "mc_receive (link_api p lib) l = (r, l1)" using r by (simp add: link_api_def)
  note rl = link.receive_log [OF m assms(2)]
  show thesis
  proof (cases r)
    case (Inl e)
    with link_receive_fails [OF r [unfolded Inl]] r rl assms that show thesis
      by (auto simp: simple_server_talk_def Conn_receive_throwing_def)
  next
    case (Inr msg)
    obtain ec l2 where s: "link_send p lib (bytes_of_string ''world'') l1 = (ec, l2)" by fastforce
    have m2: "mc_send (link_api p lib) (bytes_of_string ''world'') l1 = (ec, l2)" using s by (simp add: link_api_def)
    note sl = link.send_log [OF m2 conjunct1 [OF rl]]
    note cl = link_close_log(1) [OF conjunct1 [OF sl]]
    note dl = link_close_log(2) [OF conjunct1 [OF cl]]
    show thesis
      using assms r s Inr rl sl cl dl that
      by (auto simp: simple_server_talk_def Conn_receive_throwing_def Conn_send_throwing_def Let_def split: if_splits sum.splits prod.splits)
  qed
qed

lemma simple_client_talk_log:
  assumes "simple_client_talk p lib std l = t" and "link_ok p lib c0 l" and "link_sent l = []" and "link_recvd l = []"
  obtains l' where "tk_link t = Some l'" and "link_ok p lib c0 l'" and "length (link_recvd l') \<le> 1"
    and "tk_ops t = Send (bytes_of_string ''hello'') # concat (map client_ops (link_recvd l'))"
    and "link_sent l' \<in> {[], [bytes_of_string ''hello'']}" and "tk_throw t = None \<Longrightarrow> link_recvd l' \<noteq> []"
proof -
  obtain ec l1 where s: "link_send p lib (bytes_of_string ''hello'') l = (ec, l1)" by fastforce
  have m: "mc_send (link_api p lib) (bytes_of_string ''hello'') l = (ec, l1)" using s by (simp add: link_api_def)
  note sl = link.send_log [OF m assms(2)]
  obtain r l2 where r: "link_receive p lib l1 = (r, l2)" by fastforce
  have m2: "mc_receive (link_api p lib) l1 = (r, l2)" using r by (simp add: link_api_def)
  note rl = link.receive_log [OF m2 conjunct1 [OF sl]]
  note cl = link_close_log(1) [OF conjunct1 [OF rl]]
  note dl = link_close_log(2) [OF conjunct1 [OF cl]]
  have e: "ec_fails e" if "r = Inl e" for e using link_receive_fails [OF r [unfolded that]] .
  show thesis
    using assms s r sl rl cl dl e that
    by (cases r) (auto simp: simple_client_talk_def Conn_receive_throwing_def Conn_send_throwing_def Let_def
        split: if_splits sum.splits prod.splits)
qed

text \<open>In every such order a message that is received was sent before, and what precedes it in its thread precedes it.\<close>

lemma causal_received:
  "causal sent (us @ (w, Received m) # vs) \<Longrightarrow> (\<not> w, m) \<in> set sent \<or> (\<not> w, Send m) \<in> set us"
  by (induction sent us rule: causal.induct) auto

lemma thread_before:
  assumes "map snd (filter P xs) = as @ a # bs" and "xs = us @ (w, a) # vs" and "P (w, a)" and "a \<notin> set as" and "a \<notin> set bs"
  shows "map snd (filter P us) = as"
proof -
  have "map snd (filter P us) @ a # map snd (filter P vs) = as @ a # bs" using assms(1-3) by simp
  with assms(4,5) show ?thesis by (auto simp: append_eq_append_conv2 append_eq_Cons_conv Cons_eq_append_conv)
qed

lemma thread_mem:
  "a \<in> set (map snd (filter fst us)) \<Longrightarrow> (True, a) \<in> set us"
  "a \<in> set (map snd (filter (\<lambda>x. \<not> fst x) us)) \<Longrightarrow> (False, a) \<in> set us"
  by auto

lemma client_prints_after_server:
  assumes h: "happens (Send h # client_ops m) (server_ops m') xs" and xs: "xs = us @ (True, Print l) # vs"
    and m: "m = bytes_of_string ''world''"
  shows "(False, Print (''server received: '' @ string_of_bytes m')) \<in> set us"
proof -
  have c: "map snd (filter fst xs) = [Send h, Received m] @ Print (''client received: '' @ string_of_bytes m) # []"
    and s: "map snd (filter (\<lambda>x. \<not> fst x) xs) = [Received m', Print (''server received: '' @ string_of_bytes m')] @ Send m # []"
    using h m by (simp_all add: happens_def)
  have "Print l \<in> set (map snd (filter fst xs))" using xs by simp
  with c have l: "l = ''client received: '' @ string_of_bytes m" by auto
  from thread_before [OF c, of us True vs] xs l have cb: "map snd (filter fst us) = [Send h, Received m]" by simp
  have "(True, Received m) \<in> set us" by (rule thread_mem(1)) (simp only: cb list.set insert_iff simp_thms)
  then obtain u1 u2 where us: "us = u1 @ (True, Received m) # u2" by (meson split_list)
  have "causal [] (u1 @ (True, Received m) # u2 @ (True, Print l) # vs)" using h xs us by (simp add: happens_def)
  from causal_received [OF this] have "(False, Send m) \<in> set u1" by simp
  then obtain w1 w2 where u1: "u1 = w1 @ (False, Send m) # w2" by (meson split_list)
  have "xs = w1 @ (False, Send m) # w2 @ (True, Received m) # u2 @ (True, Print l) # vs" using xs us u1 by simp
  from thread_before [OF s this] have
    sb: "map snd (filter (\<lambda>x. \<not> fst x) w1) = [Received m', Print (''server received: '' @ string_of_bytes m')]" by simp
  have "(False, Print (''server received: '' @ string_of_bytes m')) \<in> set w1"
    by (rule thread_mem(2)) (simp only: sb list.set insert_iff simp_thms)
  then show ?thesis by (simp only: us u1 set_append Un_iff simp_thms)
qed

text \<open>The histories of a dialled and a served link match.\<close>

lemma dialled_links:
  assumes "conn_env pA fdA inpA outA lib" and "conn_env pB fdB inpB outB lib"
    and "TcpSocket_connect pA addr (dial_timeout (freeze_config cfgA)) k0 = (Inr \<lparr>sock_fd = fdA\<rparr>, kA)"
    and "dial_for pA lib addr cfgA entA gA k0 = (Inr cA0, kA1)"
    and "serve_conn_for pB lib (Some \<lparr>sock_fd = fdB\<rparr>) cfgB entB gB kB = (Inr cB0, kB1)"
    and "auth_pre_shared_key (Config.handshake (freeze_config cfgA)) = auth_pre_shared_key (Config.handshake (freeze_config cfgB))"
    and "on_message (freeze_config cfgA) = None" and "on_message (freeze_config cfgB) = None"
    and "link_ok pA lib cA0 lA" and "link_ok pB lib cB0 lB"
    and "outA (c_kernel (lk_conn (link_finish pA lib lA))) = outA kA @ wA" and "prefix (inpB kB) wA"
    and "outB (c_kernel (lk_conn (link_finish pB lib lB))) = outB kB @ wB" and "prefix (inpA kA) wB"
  shows "prefix (link_recvd lB) (link_sent lA) \<and> prefix (link_recvd lA) (link_sent lB)"
proof -
  from link_finish_log [OF assms(9)] link_finish_log [OF assms(10)] obtain asA asB esA esB where
    rA: "conn_run pA lib cA0 asA esA (lk_conn (link_finish pA lib lA))" and
    rB: "conn_run pB lib cB0 asB esB (lk_conn (link_finish pB lib lB))"
    unfolding link_ok_def by blast
  from dialled_pair [OF assms(1-6) rA rB assms(11-14)] obtain sess dA dB where
    c: "cA0 = Conn_init \<lparr>sock_fd = fdA\<rparr> sess (freeze_config cfgA) kA1 gA"
      "cB0 = Conn_init \<lparr>sock_fd = fdB\<rparr> sess (freeze_config cfgB) kB1 gB"
    and d: "outA (c_kernel (lk_conn (link_finish pA lib lA))) = outA kA1 @ dA" "prefix (inpB kB1) dA"
      "outB (c_kernel (lk_conn (link_finish pB lib lB))) = outB kB1 @ dB" "prefix (inpA kA1) dB" by blast
  show ?thesis
    by (rule links_exchange [OF assms(1,2,7,8) assms(9) [unfolded c(1)] assms(10) [unfolded c(2)] d])
qed

text \<open>A thread with a connection has made it out of the address or the accepted socket.\<close>

lemma dialled:
  assumes "dial_throwing std (fst (dial_for p lib addr cfg ent g k)) = Inr c"
  obtains k' sock sess where "dial_for p lib addr cfg ent g k = (Inr c, k')"
    and "c = Conn_init sock sess (freeze_config cfg) k' g"
  using assms
  by (cases "dial_for p lib addr cfg ent g k")
    (auto simp: dial_throwing_def dial_for_def Let_def split: if_splits sum.splits prod.splits)

lemma served:
  assumes "serve_conn_throwing std (fst (serve_conn_for p lib raw cfg ent g k)) = Inr c"
  obtains k' sock sess where "serve_conn_for p lib raw cfg ent g k = (Inr c, k')"
    and "c = Conn_init sock sess (freeze_config cfg) k' g"
  using assms
  by (cases "serve_conn_for p lib raw cfg ent g k")
    (auto simp: serve_conn_throwing_def serve_conn_for_def Let_def split: option.splits sum.splits prod.splits)

lemma default_config_silent: "on_message (freeze_config None) = None"
  by (simp add: freeze_config_def default_config_def)

lemma example_options:
  "redial (normalize (Some (default_options\<lparr>on_progress := True\<rparr>))) = None" "redial (normalize None) = None"
  by (simp_all add: normalize_def default_options_def)

text \<open>The \<^verbatim>\<open>transfer\<close> threads: the routine between the first and the last operation on the connection.\<close>

lemma transfer_server_talk_cases:
  assumes "transfer_server_talk p lib std dst fsy l = Some (t, fsy')"
  obtains e m x where "receive_file lib std (link_api p lib) None dst default_meta
      \<lparr>xf_conn = l, xf_dev = fsy, xf_progress = [], xf_world = ()\<rparr> = Some (e, m, x)"
    and "fsy' = xf_dev x" and "th_out t = (if ec_fails e then [] else [received_line m])"
    and "th_link t \<in> Some ` closings p lib (xf_conn x)"
  using assms
  by (auto simp: transfer_server_talk_def closings_def Let_def split: if_splits prod.splits sum.splits)

lemma transfer_client_talk_cases:
  assumes "transfer_client_talk p lib std urandom w src fsy l = Some t" and "open_in fsy src = Some data"
  obtains e x where "send_file lib urandom (link_api p lib) (Some (default_options\<lparr>on_progress := True\<rparr>)) fsy src
      \<lparr>xf_conn = l, xf_dev = (), xf_progress = [], xf_world = w\<rparr> = Some (e, Some x)"
    and "th_err t = [] \<longleftrightarrow> \<not> ec_fails e"
    and "th_link t \<in> Some ` closings p lib (xf_conn x)"
proof -
  from assms(1) obtain e r where s: "send_file lib urandom (link_api p lib) (Some (default_options\<lparr>on_progress := True\<rparr>)) fsy src
      \<lparr>xf_conn = l, xf_dev = (), xf_progress = [], xf_world = w\<rparr> = Some (e, r)"
    by (auto simp: transfer_client_talk_def)
  with assms(2) obtain x where r: "r = Some x" by (auto simp: send_file_def Let_def)
  obtain ec l' where "link_close p lib (xf_conn x) = (ec, l')" by fastforce
  with assms(1) s r that [of e x] show thesis by (auto simp: transfer_client_talk_def closings_def split: if_splits sum.splits)
qed

lemma transfer_client_run:
  assumes "transfer_client p lib std ent g sched k urandom w src addr fsy = Some t" and "th_link t = Some l" and "open_in fsy src = Some data"
  obtains c k' sock sess e x where "dial_for p lib addr None ent g k = (Inr c, k')" and "c = Conn_init sock sess (freeze_config None) k' g"
    and "send_file lib urandom (link_api p lib) (Some (default_options\<lparr>on_progress := True\<rparr>)) fsy src
      \<lparr>xf_conn = link_start c sched, xf_dev = (), xf_progress = [], xf_world = w\<rparr> = Some (e, Some x)"
    and "th_err t = [] \<longleftrightarrow> \<not> ec_fails e" and "l \<in> closings p lib (xf_conn x)"
proof -
  obtain c where c: "dial_throwing std (fst (dial_for p lib addr None ent g k)) = Inr c"
    "transfer_client_talk p lib std urandom w src fsy (link_start c sched) = Some t"
    using assms(1,2) by (auto simp: transfer_client_def split: sum.splits)
  show thesis
    by (rule dialled [OF c(1)], rule transfer_client_talk_cases [OF c(2) assms(3)])
      (rule that, assumption+, use assms(2) in auto)
qed

lemma transfer_server_run:
  assumes "transfer_server p lib std ent g sched k dst ln fsy = Some (t, fsy')" and "th_link t = Some l"
    and "TcpListener_accept p ln k = (Inr raw, k1)"
  obtains c k' sock sess e m x where "serve_conn_for p lib (Some raw) None ent g k1 = (Inr c, k')"
    and "c = Conn_init sock sess (freeze_config None) k' g"
    and "receive_file lib std (link_api p lib) None dst default_meta
      \<lparr>xf_conn = link_start c sched, xf_dev = fsy, xf_progress = [], xf_world = ()\<rparr> = Some (e, m, x)"
    and "fsy' = xf_dev x" and "th_out t = (if ec_fails e then [] else [received_line m])"
    and "l \<in> closings p lib (xf_conn x)"
proof -
  obtain c where c: "serve_conn_throwing std (fst (serve_conn_for p lib (Some raw) None ent g k1)) = Inr c"
    "transfer_server_talk p lib std dst fsy (link_start c sched) = Some (t, fsy')"
    using assms by (auto simp: transfer_server_def split: sum.splits)
  show thesis
    by (rule served [OF c(1)], rule transfer_server_talk_cases [OF c(2)])
      (rule that, assumption+, use assms(2) in auto)
qed

lemma write_source_readable:
  assumes "fsys_writable fsy (example_src dir)" and "fsys_readable fsy (example_src dir)" and "length example_text \<le> fsys_room fsy"
  shows "open_in (write_source dir fsy) (example_src dir) = Some (bytes_of_string example_text)"
  using assms by (simp add: write_source_def open_in_def fstream_write_def fstream_open_def overwrite_def Let_def)

lemma write_source_dst [simp]:
  "fsys_files (write_source dir fsy) (example_dst dir) = fsys_files fsy (example_dst dir)"
  by (simp add: write_source_def Let_def example_src_def example_dst_def)

lemma receive_file_readable:
  assumes "receive_file lib std api opts path om st = Some (ec, om', st')" and "\<not> ec_fails ec"
  shows "fsys_readable (xf_dev st') path"
proof -
  obtain resume f fsy where op: "receive_file_open path (xf_dev st) = (resume, f, fsy)" by (metis prod_cases3)
  with assms obtain b where b: "f = Some b" by (cases f) (auto simp: receive_file_eq ec_simps simp del: ec_fails.simps)
  with op have r: "fsys_readable fsy path"
    by (auto simp: receive_file_open_def open_in_out_def open_in_def Let_def split: if_splits option.splits)
  with assms(1) op b show ?thesis
    by (auto simp: receive_file_eq receive_file_close_def posix_truncate_def Let_def split: option.splits)
qed

section \<open>Properties\<close>

text \<open>
  C19. The \<^verbatim>\<open>simple\<close> example says hello. Whatever the schedules of the threads of both connections, and
  however far each thread gets: the server thread prints nothing or that it received \<open>hello\<close>, the main
  thread prints nothing or that it received \<open>world\<close>; in every order in which the operations of the two
  threads can have happened, the main thread prints only after the server thread has printed; and if the
  program exits with status 0 (no thread has thrown) both lines were printed.
\<close>

theorem simple_example_greets:
  assumes "conn_env pA fdA inpA outA lib" and "conn_env pB fdB inpB outB lib"
    and "TcpSocket_connect pA (TcpListener_addr ln) (dial_timeout (freeze_config (None :: unit Config option))) k0 =
      (Inr \<lparr>sock_fd = fdA\<rparr>, kA)"
    and "TcpListener_accept pB ln k1 = (Inr \<lparr>sock_fd = fdB\<rparr>, kB)"
    and "tk_link (simple_client pA lib std entA gA schedA (TcpListener_addr ln) k0) = Some lA"
    and "tk_link (simple_server pB lib std entB gB schedB ln k1) = Some lB"
    and "outA (c_kernel (lk_conn (link_finish pA lib lA))) = outA kA @ wA" and "prefix (inpB kB) wA"
    and "outB (c_kernel (lk_conn (link_finish pB lib lB))) = outB kB @ wB" and "prefix (inpA kA) wB"
  shows "printed (tk_ops (simple_server pB lib std entB gB schedB ln k1)) \<in> {[], [''server received: hello'']} \<and>
    printed (tk_ops (simple_client pA lib std entA gA schedA (TcpListener_addr ln) k0)) \<in> {[], [''client received: world'']} \<and>
    (\<forall>xs us l vs. happens (tk_ops (simple_client pA lib std entA gA schedA (TcpListener_addr ln) k0))
         (tk_ops (simple_server pB lib std entB gB schedB ln k1)) xs \<longrightarrow> xs = us @ (True, Print l) # vs \<longrightarrow>
       (False, Print ''server received: hello'') \<in> set us) \<and>
    (simple_main std (Inr ln) (\<lambda>ln. simple_server pB lib std entB gB schedB ln k1)
         (\<lambda>addr. simple_client pA lib std entA gA schedA addr k0) = (Exit 0, []) \<longrightarrow>
       printed (tk_ops (simple_server pB lib std entB gB schedB ln k1)) = [''server received: hello''] \<and>
       printed (tk_ops (simple_client pA lib std entA gA schedA (TcpListener_addr ln) k0)) = [''client received: world''])"
proof -
  let ?A = "simple_client pA lib std entA gA schedA (TcpListener_addr ln) k0" and ?B = "simple_server pB lib std entB gB schedB ln k1"
  let ?h = "bytes_of_string ''hello''" and ?w = "bytes_of_string ''world''"
  obtain cA where cA: "dial_throwing std (fst (dial_for pA lib (TcpListener_addr ln) None entA gA k0)) = Inr cA"
    "?A = simple_client_talk pA lib std (link_start cA schedA)"
    using assms(5) by (auto simp: simple_client_def split: sum.splits)
  obtain cB where cB: "serve_conn_throwing std (fst (serve_conn_for pB lib (Some \<lparr>sock_fd = fdB\<rparr>) None entB gB kB)) = Inr cB"
    "?B = simple_server_talk pB lib std (link_start cB schedB)"
    using assms(4,6) by (auto simp: simple_server_def split: sum.splits)
  obtain kA1 sockA sessA where dA: "dial_for pA lib (TcpListener_addr ln) None entA gA k0 = (Inr cA, kA1)"
    "cA = Conn_init sockA sessA (freeze_config None) kA1 gA" by (rule dialled [OF cA(1)])
  obtain kB1 sockB sessB where dB: "serve_conn_for pB lib (Some \<lparr>sock_fd = fdB\<rparr>) None entB gB kB = (Inr cB, kB1)"
    "cB = Conn_init sockB sessB (freeze_config None) kB1 gB" by (rule served [OF cB(1)])
  have okA: "link_ok pA lib cA (link_start cA schedA)" and okB: "link_ok pB lib cB (link_start cB schedB)"
    unfolding dA(2) dB(2) by (rule link_start_ok)+
  from simple_client_talk_log [OF cA(2) [symmetric] okA] assms(5) have A: "link_ok pA lib cA lA" "length (link_recvd lA) \<le> 1"
    "tk_ops ?A = Send ?h # concat (map client_ops (link_recvd lA))"
    "link_sent lA \<in> {[], [?h]}" "tk_throw ?A = None \<longrightarrow> link_recvd lA \<noteq> []" by fastforce+
  from simple_server_talk_log [OF cB(2) [symmetric] okB] assms(6) have B: "link_ok pB lib cB lB" "length (link_recvd lB) \<le> 1"
    "tk_ops ?B = concat (map server_ops (link_recvd lB))"
    "link_sent lB = [] \<or> link_sent lB = [?w] \<and> link_recvd lB \<noteq> []"
    "tk_throw ?B = None \<longrightarrow> link_recvd lB \<noteq> []" by fastforce+
  have "prefix (link_recvd lB) (link_sent lA) \<and> prefix (link_recvd lA) (link_sent lB)"
    by (rule dialled_links [OF assms(1-3) dA(1) dB(1) refl default_config_silent default_config_silent A(1) B(1) assms(7-10)])
  then have r: "link_recvd lB \<in> {[], [?h]}" "link_recvd lA \<in> {[], [?w]}" "link_recvd lA \<noteq> [] \<longrightarrow> link_recvd lB \<noteq> []"
    using A(4) B(4) by (auto simp: prefix_Cons)
  have "(False, Print ''server received: hello'') \<in> set us"
    if h: "happens (tk_ops ?A) (tk_ops ?B) xs" and xs: "xs = us @ (True, Print l) # vs" for xs us l vs
  proof -
    have "map snd (filter fst xs) = tk_ops ?A" using h by (simp only: happens_def)
    moreover have "Print l \<in> set (map snd (filter fst xs))" using xs by simp
    ultimately have "Print l \<in> set (tk_ops ?A)" by (simp only:)
    with A(3) r have "tk_ops ?A = Send ?h # client_ops ?w" "tk_ops ?B = server_ops ?h" using B(3) by auto
    with h have "happens (Send ?h # client_ops ?w) (server_ops ?h) xs" by (simp only:)
    from client_prints_after_server [OF this xs refl] show ?thesis by simp
  qed
  moreover have "printed (tk_ops ?B) = (if link_recvd lB = [] then [] else [''server received: hello''])"
    "printed (tk_ops ?A) = (if link_recvd lA = [] then [] else [''client received: world''])"
    using r A(3) B(3) by auto
  ultimately show ?thesis using A(5) B(5) by (auto simp: simple_main_def Let_def split: if_splits)
qed

text \<open>Both threads over the scripted kernel, run to their end.\<close>

fun sealed_wire :: "bytes list \<Rightarrow> nat seal_rng \<Rightarrow> bytes" where
  "sealed_wire [] g = []"
| "sealed_wire (b # bs) g =
    (case Session_seal demo_lib \<lparr>session_key = replicate 32 10\<rparr> b g of
       (Inl ec, g) \<Rightarrow> []
     | (Inr sealed, g) \<Rightarrow> record_bytes kMsgText sealed @ sealed_wire bs g)"

definition ex_kernel :: "8 word \<Rightarrow> bytes list \<Rightarrow> script_kernel" where
  "ex_kernel b inbox = \<lparr>rx_segments = [[84, 68, 88, 49, 0, 1] @ replicate 32 b, sealed_wire inbox demo_rng],
     tx_log = [], tx_limits = [], fd_table = {}, next_fd = 7\<rparr>"

definition ex_sched :: "nat \<Rightarrow> action list" where
  "ex_sched n = concat (replicate n [A_reader, A_user 0, A_writer, A_spurious])"

definition ex_ln :: tcp_listener where
  "ex_ln = \<lparr>ln_fd = 5, ln_addr = ''127.0.0.1:4000''\<rparr>"

definition ex_simple_client :: "(script_kernel, nat, unit) link talk_end" where
  "ex_simple_client = simple_client script_posix demo_lib (\<lambda>_. []) 3 demo_rng (ex_sched 12) (TcpListener_addr ex_ln)
     (ex_kernel 9 [bytes_of_string ''world''])"

definition ex_simple_server :: "(script_kernel, nat, unit) link talk_end" where
  "ex_simple_server = simple_server script_posix demo_lib (\<lambda>_. []) 9 demo_rng (ex_sched 14) ex_ln
     (ex_kernel 3 [bytes_of_string ''hello''])"

text \<open>The thread ended without an exception and wrote what its peer reads.\<close>

definition ex_ended :: "Error option \<Rightarrow> (script_kernel, nat, unit) link option \<Rightarrow> script_kernel \<Rightarrow> bool" where
  "ex_ended throw link k \<longleftrightarrow> throw = None \<and>
     (case link of
        None \<Rightarrow> False
      | Some l \<Rightarrow> prefix (concat (rx_segments k)) (tx_log (c_kernel (lk_conn (link_finish script_posix demo_lib l)))))"

lemma ex_simple_client_ends: "ex_ended (tk_throw ex_simple_client) (tk_link ex_simple_client) (ex_kernel 3 [bytes_of_string ''hello''])"
  by code_simp

lemma ex_simple_server_ends: "ex_ended (tk_throw ex_simple_server) (tk_link ex_simple_server) (ex_kernel 9 [bytes_of_string ''world''])"
  by code_simp

lemma ex_accept: "TcpListener_accept script_posix ex_ln (ex_kernel b inbox) =
    (Inr \<lparr>sock_fd = 7\<rparr>, (ex_kernel b inbox)\<lparr>fd_table := {7}, next_fd := 8\<rparr>)"
  by (simp add: TcpListener_accept_def ex_ln_def ex_kernel_def script_posix_def script_open_def kInvalidSocket_def)

lemma ex_connect_run:
  "map_prod id (\<lambda>k. (rx_segments k, tx_log k)) (TcpSocket_connect script_posix (TcpListener_addr ex_ln)
     (dial_timeout (freeze_config (None :: unit Config option))) (ex_kernel b inbox)) =
   (Inr \<lparr>sock_fd = 7\<rparr>, rx_segments (ex_kernel b inbox), [])"
  by code_simp

lemma ex_connect:
  obtains k where "TcpSocket_connect script_posix (TcpListener_addr ex_ln)
     (dial_timeout (freeze_config (None :: unit Config option))) (ex_kernel b inbox) = (Inr \<lparr>sock_fd = 7\<rparr>, k)"
    and "rx_segments k = rx_segments (ex_kernel b inbox)" and "tx_log k = []"
  using ex_connect_run [of b inbox]
  by (cases "TcpSocket_connect script_posix (TcpListener_addr ex_ln)
     (dial_timeout (freeze_config (None :: unit Config option))) (ex_kernel b inbox)") auto

text \<open>One of the orders in which the operations can have happened.\<close>

definition ex_order :: "(bool \<times> thread_op) list" where
  "ex_order = [(True, Send (bytes_of_string ''hello'')), (False, Received (bytes_of_string ''hello'')),
     (False, Print ''server received: hello''), (False, Send (bytes_of_string ''world'')),
     (True, Received (bytes_of_string ''world'')), (True, Print ''client received: world'')]"

lemma ex_order_happens: "happens (tk_ops ex_simple_client) (tk_ops ex_simple_server) ex_order"
  by code_simp

theorem simple_example_greets_witness:
  "printed (tk_ops ex_simple_server) = [''server received: hello''] \<and>
   printed (tk_ops ex_simple_client) = [''client received: world''] \<and>
   happens (tk_ops ex_simple_client) (tk_ops ex_simple_server) ex_order \<and>
   (False, Print ''server received: hello'') \<in> set (butlast ex_order)"
proof -
  let ?k0 = "ex_kernel 9 [bytes_of_string ''world'']" and ?k1 = "ex_kernel 3 [bytes_of_string ''hello'']"
  obtain kA where con: "TcpSocket_connect script_posix (TcpListener_addr ex_ln)
      (dial_timeout (freeze_config (None :: unit Config option))) ?k0 = (Inr \<lparr>sock_fd = 7\<rparr>, kA)"
    and kA: "rx_segments kA = rx_segments ?k0" "tx_log kA = []" by (rule ex_connect)
  from ex_simple_client_ends ex_simple_server_ends obtain lA lB where l: "tk_link ex_simple_client = Some lA" "tk_link ex_simple_server = Some lB"
    and out: "prefix (concat (rx_segments ?k1)) (tx_log (c_kernel (lk_conn (link_finish script_posix demo_lib lA))))"
      "prefix (concat (rx_segments ?k0)) (tx_log (c_kernel (lk_conn (link_finish script_posix demo_lib lB))))"
    and ok: "tk_throw ex_simple_client = None" "tk_throw ex_simple_server = None"
    by (auto simp: ex_ended_def split: option.splits)
  have k: "tx_log (?k1\<lparr>fd_table := {7}, next_fd := 8\<rparr>) = []" by (simp add: ex_kernel_def)
  have x: "ex_order = butlast ex_order @ [(True, Print ''client received: world'')]" by (simp add: ex_order_def)
  have "printed (tk_ops ex_simple_server) = [''server received: hello'']" "printed (tk_ops ex_simple_client) = [''client received: world'']"
    "\<And>xs us l vs. happens (tk_ops ex_simple_client) (tk_ops ex_simple_server) xs \<Longrightarrow> xs = us @ (True, Print l) # vs \<Longrightarrow>
       (False, Print ''server received: hello'') \<in> set us"
    using simple_example_greets [OF demo.conn_env_axioms demo.conn_env_axioms con ex_accept
      l(1) [unfolded ex_simple_client_def] l(2) [unfolded ex_simple_server_def], folded ex_simple_client_def ex_simple_server_def] out ok kA k
    by (simp_all add: simple_main_def flip: ex_simple_client_def ex_simple_server_def)
  with ex_order_happens x show ?thesis by blast
qed

text \<open>
  C18. The \<^verbatim>\<open>transfer\<close> example verifies what it sent. The destination is absent, or holds a part of the
  text from an earlier run; the source can be written and read. Whatever the schedules, if the
  program exits with status 0, its last line is \<open>verified:\<close> with exactly the text it wrote to the
  source, and the server thread has printed that it received the file. However the server thread
  ends, the destination holds a prefix of the text, so that the next run can resume.
\<close>

theorem transfer_example_verifies:
  assumes "conn_env pA fdA inpA outA lib" and "conn_env pB fdB inpB outB lib"
    and "TcpSocket_connect pA (TcpListener_addr ln) (dial_timeout (freeze_config (None :: unit Config option))) k0 =
      (Inr \<lparr>sock_fd = fdA\<rparr>, kA)"
    and "TcpListener_accept pB ln k1 = (Inr \<lparr>sock_fd = fdB\<rparr>, kB)"
    and "fsys_writable fsy (example_src dir)" and "fsys_readable fsy (example_src dir)" and "length example_text \<le> fsys_room fsy"
    and "holds_part (bytes_of_string example_text) (example_dst dir) fsy"
    and "transfer_client pA lib std entA gA schedA k0 urandom w (example_src dir) (TcpListener_addr ln) (write_source dir fsy) =
      Some tA" and "th_link tA = Some lA"
    and "transfer_server pB lib std entB gB schedB k1 (example_dst dir) ln (write_source dir fsy) = Some (tB, fsy')"
    and "th_link tB = Some lB"
    and "outA (c_kernel (lk_conn (link_finish pA lib lA))) = outA kA @ wA" and "prefix (inpB kB) wA"
    and "outB (c_kernel (lk_conn (link_finish pB lib lB))) = outB kB @ wB" and "prefix (inpA kA) wB"
  shows "holds_part (bytes_of_string example_text) (example_dst dir) fsy' \<and>
    (transfer_main dir (Inr ln) (transfer_server pB lib std entB gB schedB k1 (example_dst dir))
         (transfer_client pA lib std entA gA schedA k0 urandom w (example_src dir)) fsy = Some (Exit 0, out) \<longrightarrow>
       out \<noteq> [] \<and> last out = ''verified: '' @ example_text \<and> th_out tB \<noteq> [])"
proof -
  let ?d = "bytes_of_string example_text" and ?f = "write_source dir fsy"
  have lib: "crypto_api lib" using assms(1) by (simp add: conn_env_def)
  have src: "open_in ?f (example_src dir) = Some ?d" by (rule write_source_readable [OF assms(5-7)])
  have dst: "holds_part ?d (example_dst dir) ?f" using assms(8) by (simp add: holds_part_def)
  obtain cA kA1 sockA sessA eA xA where
    dA: "dial_for pA lib (TcpListener_addr ln) None entA gA k0 = (Inr cA, kA1)" "cA = Conn_init sockA sessA (freeze_config None) kA1 gA"
    and A: "send_file lib urandom (link_api pA lib) (Some (default_options\<lparr>on_progress := True\<rparr>)) ?f (example_src dir)
      \<lparr>xf_conn = link_start cA schedA, xf_dev = (), xf_progress = [], xf_world = w\<rparr> = Some (eA, Some xA)"
    "th_err tA = [] \<longleftrightarrow> \<not> ec_fails eA" "lA \<in> closings pA lib (xf_conn xA)"
    by (rule transfer_client_run [OF assms(9,10) src])
  obtain cB kB1 sockB sessB eB m xB where
    dB: "serve_conn_for pB lib (Some \<lparr>sock_fd = fdB\<rparr>) None entB gB kB = (Inr cB, kB1)" "cB = Conn_init sockB sessB (freeze_config None) kB1 gB"
    and B: "receive_file lib std (link_api pB lib) None (example_dst dir) default_meta
      \<lparr>xf_conn = link_start cB schedB, xf_dev = ?f, xf_progress = [], xf_world = ()\<rparr> = Some (eB, m, xB)"
    "fsy' = xf_dev xB" "th_out tB = (if ec_fails eB then [] else [received_line m])"
    "lB \<in> closings pB lib (xf_conn xB)"
    by (rule transfer_server_run [OF assms(11,12,4)])
  have len: "length ?d < 2 ^ 63" by (simp add: example_text_def)
  note f = file_over_links [OF lib example_options src len dst A(1) [unfolded dA(2)] B(1) [unfolded dB(2)], folded dA(2) dB(2)]
  have lA: "link_ok pA lib cA lA \<and> link_sent lA = link_sent (xf_conn xA) \<and> link_recvd lA = link_recvd (xf_conn xA)"
    by (rule closings_log [OF A(3) f(1)])
  have lB: "link_ok pB lib cB lB \<and> link_sent lB = link_sent (xf_conn xB) \<and> link_recvd lB = link_recvd (xf_conn xB)"
    by (rule closings_log [OF B(4) f(2)])
  have "prefix (link_recvd lB) (link_sent lA) \<and> prefix (link_recvd lA) (link_sent lB)"
    by (rule dialled_links [OF assms(1-3) dA(1) dB(1) refl default_config_silent default_config_silent
        conjunct1 [OF lA] conjunct1 [OF lB] assms(13-16)])
  with f(3) lA lB have d: "holds_part ?d (example_dst dir) fsy'" "\<not> ec_fails eB \<longrightarrow> fsys_files fsy' (example_dst dir) = Some ?d"
    "\<not> ec_fails eA \<longrightarrow> \<not> ec_fails eB" using B(2) by auto
  have "open_in fsy' (example_dst dir) = Some ?d" if "\<not> ec_fails eB"
    using d(2) that receive_file_readable [OF B(1) that] B(2) by (simp add: open_in_def)
  with d A(2) B(3) assms(9,11) show ?thesis
    by (auto simp: transfer_main_def Let_def split: if_splits)
qed

text \<open>A run that resumes a destination with 45 of the 47 bytes.\<close>

definition ex_fs :: file_system where
  "ex_fs = \<lparr>fsys_files = [example_dst ''d'' \<mapsto> take 45 (bytes_of_string example_text)], fsys_readable = (\<lambda>_. True),
     fsys_writable = (\<lambda>_. True), fsys_room = 100\<rparr>"

definition ex_meta :: meta where
  "ex_meta = \<lparr>meta_id = replicate 16 1, meta_name = ''hello.txt'', meta_size = 47, meta_hash = pad32 (bytes_of_string example_text)\<rparr>"

definition ex_frames :: "bytes list" where
  "ex_frames = [offer_bytes ex_meta, encode_chunk (replicate 16 1) 45 (drop 45 (bytes_of_string example_text)),
     encode_done (replicate 16 1) True (meta_hash ex_meta)]"

definition ex_answers :: "bytes list" where
  "ex_answers = [encode_accept (replicate 16 1) 45, encode_ack (replicate 16 1) 47, encode_done (replicate 16 1) True (meta_hash ex_meta)]"

definition ex_close :: "action list" where
  "ex_close = [A_user 0, A_user 0, A_writer, A_writer, A_writer, A_writer, A_user 0, A_user 0, A_user 0,
     A_reader, A_reader, A_reader, A_user 0, A_reader, A_writer, A_user 0]"

definition ex_transfer_client :: "(script_kernel, nat, unit) link thread_end option" where
  "ex_transfer_client = transfer_client script_posix demo_lib (\<lambda>_. []) 3 demo_rng (le_sched @ ex_close) (ex_kernel 9 ex_answers)
     (\<lambda>w :: unit. (replicate 16 1, w)) () (example_src ''d'') (TcpListener_addr ex_ln) (write_source ''d'' ex_fs)"

definition ex_transfer_server :: "((script_kernel, nat, unit) link thread_end \<times> file_system) option" where
  "ex_transfer_server = transfer_server script_posix demo_lib (\<lambda>_. []) 9 demo_rng (take 18 le_sched_rcv @ ex_close)
     (ex_kernel 3 ex_frames) (example_dst ''d'') ex_ln (write_source ''d'' ex_fs)"

lemma ex_transfer_client_ends:
  "case ex_transfer_client of None \<Rightarrow> False | Some t \<Rightarrow> th_err t = [] \<and> ex_ended (th_throw t) (th_link t) (ex_kernel 3 ex_frames)"
  by code_simp

lemma ex_transfer_server_ends:
  "case ex_transfer_server of None \<Rightarrow> False | Some (t, f) \<Rightarrow> ex_ended (th_throw t) (th_link t) (ex_kernel 9 ex_answers)"
  by code_simp

theorem transfer_example_verifies_witness:
  "\<exists>tA tB fsy' out. ex_transfer_client = Some tA \<and> ex_transfer_server = Some (tB, fsy') \<and> th_out tB \<noteq> [] \<and>
     transfer_main ''d'' (Inr ex_ln) (\<lambda>_ _. ex_transfer_server) (\<lambda>_ _. ex_transfer_client) ex_fs = Some (Exit 0, out) \<and>
     last out = ''verified: '' @ example_text"
proof -
  obtain kA where con: "TcpSocket_connect script_posix (TcpListener_addr ex_ln)
      (dial_timeout (freeze_config (None :: unit Config option))) (ex_kernel 9 ex_answers) = (Inr \<lparr>sock_fd = 7\<rparr>, kA)"
    and kA: "rx_segments kA = rx_segments (ex_kernel 9 ex_answers)" "tx_log kA = []" by (rule ex_connect)
  from ex_transfer_client_ends ex_transfer_server_ends obtain tA lA tB fsy' lB where t: "ex_transfer_client = Some tA" "ex_transfer_server = Some (tB, fsy')"
    and l: "th_link tA = Some lA" "th_link tB = Some lB"
    and out: "prefix (concat (rx_segments (ex_kernel 3 ex_frames))) (tx_log (c_kernel (lk_conn (link_finish script_posix demo_lib lA))))"
      "prefix (concat (rx_segments (ex_kernel 9 ex_answers))) (tx_log (c_kernel (lk_conn (link_finish script_posix demo_lib lB))))"
    and ok: "th_err tA = []" "th_throw tA = None" "th_throw tB = None"
    by (auto simp: ex_ended_def split: option.splits)
  have fs: "fsys_writable ex_fs (example_src ''d'')" "fsys_readable ex_fs (example_src ''d'')" "length example_text \<le> fsys_room ex_fs"
    "holds_part (bytes_of_string example_text) (example_dst ''d'') ex_fs"
    by (simp_all add: ex_fs_def holds_part_def take_is_prefix) (simp add: example_text_def)
  have k: "tx_log ((ex_kernel 3 ex_frames)\<lparr>fd_table := {7}, next_fd := 8\<rparr>) = []" by (simp add: ex_kernel_def)
  have "\<exists>o1. transfer_main ''d'' (Inr ex_ln) (\<lambda>_ _. ex_transfer_server) (\<lambda>_ _. ex_transfer_client) ex_fs = Some (Exit 0, o1)"
    by (simp add: transfer_main_def Let_def t ok)
  then obtain o1 where m: "transfer_main ''d'' (Inr ex_ln) (\<lambda>_ _. ex_transfer_server) (\<lambda>_ _. ex_transfer_client) ex_fs = Some (Exit 0, o1)" ..
  have "transfer_main ''d'' (Inr ex_ln)
       (transfer_server script_posix demo_lib (\<lambda>_. []) 9 demo_rng (take 18 le_sched_rcv @ ex_close) (ex_kernel 3 ex_frames) (example_dst ''d''))
       (transfer_client script_posix demo_lib (\<lambda>_. []) 3 demo_rng (le_sched @ ex_close) (ex_kernel 9 ex_answers)
          (\<lambda>w :: unit. (replicate 16 1, w)) () (example_src ''d'')) ex_fs = Some (Exit 0, o1)"
    using m by (simp only: transfer_main_def ex_transfer_client_def ex_transfer_server_def Let_def sum.case)
  with transfer_example_verifies [OF demo.conn_env_axioms demo.conn_env_axioms con ex_accept fs
      t(1) [unfolded ex_transfer_client_def] l(1) t(2) [unfolded ex_transfer_server_def] l(2) _ _ _ _, of _ _ o1] out kA k
  have "last o1 = ''verified: '' @ example_text \<and> th_out tB \<noteq> []" by simp
  with t m show ?thesis by blast
qed

end
