(* ===== verification/Spec2Isabelle.thy ===== *)
theory Spec2Isabelle
  imports Tdx_Config Tdx_Frames Tdx_Conn_Props Tdx_Dial Tdx_Server Tdx_Transfer_Props Tdx_Transfer_Redial Tdx_Chat Tdx_Examples
begin

text \<open>
  Verification of \<^verbatim>\<open>cpptcpduplex\<close>, a C++20 library for encrypted full-duplex message connections over
  TCP, with file transfer on top. Paths below are those of the repository.

  \<^bold>\<open>The program.\<close> A client dials (\<^verbatim>\<open>src/dial.cpp\<close>): it connects a TCP socket (\<^verbatim>\<open>src/detail/socket.cpp\<close>),
  exchanges X25519 keys in a handshake (\<^verbatim>\<open>src/crypto/handshake.cpp\<close>, messages of
  \<^verbatim>\<open>src/protocol/protocol.cpp\<close>) and gets a session key (\<^verbatim>\<open>src/crypto/session.cpp\<close>). A server
  (\<^verbatim>\<open>src/server.cpp\<close>) accepts sockets and does the same in one worker thread per peer. Both then hold a
  \<open>Conn\<close> (\<^verbatim>\<open>src/conn.cpp\<close>): a reader, a writer and, with a callback, a delivery thread around bounded
  queues; messages travel as records sealed with AES-GCM. \<^verbatim>\<open>src/transfer/transfer.cpp\<close> sends a file over
  a connection in acknowledged chunks, resumes partial files, checks a SHA-256 and redials.

  \<^bold>\<open>The theories\<close>, with the definitions named after the functions they translate:

  \<^item> \<open>Tdx_Prelude\<close>: machine integers, byte buffers, shared facts on lists and words.
  \<^item> \<open>Tdx_Errors\<close>: the two error enumerations, error codes as a datatype, their messages, \<open>Error\<close>.
  \<^item> \<open>Tdx_Protocol\<close>: \<open>write_handshake\<close>, \<open>read_handshake\<close>, \<open>read_record\<close>, \<open>write_record\<close> over a byte
    stream; the locale \<open>duplex_stream\<close> is what they rely on.
  \<^item> \<open>Tdx_Socket\<close>: \<open>TcpSocket\<close> and \<open>TcpListener\<close> over the record \<open>posix\<close> of the system calls. The
    locales \<open>posix_stream\<close>, \<open>posix_conn\<close> (bytes) and \<open>posix_fds\<close> (descriptors) state what the code relies
    on; \<open>script_posix\<close> is a concrete kernel that satisfies them.
  \<^item> \<open>Tdx_Session\<close>, \<open>Tdx_Handshake\<close>: sealing and opening, key derivation, both sides of the key
    exchange, over the record \<open>crypto_lib\<close> of the vendored functions with the locale \<open>crypto_api\<close>.
  \<^item> \<open>Tdx_Config\<close>: defaults and \<open>freeze_config\<close>.
  \<^item> \<open>Tdx_Conn\<close>: the connection as a machine: one program counter per thread and caller, one step per
    critical section, explicit waiting, notification, time-outs and spurious wake-ups. A step that locks a
    mutex is enabled only while it is free (\<open>locking\<close>); between two steps a mutex is held only by a reader
    that calls \<open>abort_recv\<close> inside its locks (\<open>reader_holds\<close>). Reading or writing one record is one step. \<open>Tdx_Conn_Send\<close> and \<open>Tdx_Conn_Recv\<close> give sequential specifications of the two
    directions (\<open>sender\<close>, \<open>receiver\<close>) and the simulations; \<open>Tdx_Conn_Wire\<close> relates both to the bytes on
    the two TCP streams; \<open>Tdx_Conn_Props\<close> states the properties.
  \<^item> \<open>Tdx_Dial\<close>: \<open>dial_for\<close>, \<open>serve_conn_for\<close>. \<open>Tdx_Server\<close>: the accept loop, the workers and \<open>stop\<close> as an
    interleaving machine; a connected worker runs the connection machine, so that a callback is any sequence
    of calls on it, up to the destructor.
  \<^item> \<open>Tdx_Frames\<close>: transfer frames, identifiers. \<open>Tdx_Transfer\<close>: \<open>send_once\<close> and \<open>receive_once\<close>, cut at
    their calls of \<open>receive\<close> into one handler per pending call, with the locales \<open>source_at\<close>, \<open>sink_at\<close> and
    \<open>message_conn\<close> for what they rely on. \<open>Tdx_Transfer_File\<close>: the retry loops \<open>send\<close> and \<open>receive\<close>, the
    file classes, \<open>send_file\<close> and \<open>receive_file\<close>.
  \<^item> \<open>Tdx_Transfer_Recv\<close>: integrity of the receiver against an arbitrary peer. \<open>Tdx_Transfer_Pair\<close>: sender
    and receiver against each other in every interleaving. \<open>Tdx_Transfer_Term\<close>: termination.
    \<open>Tdx_Transfer_Props\<close>: the properties. \<open>Tdx_Transfer_Conn\<close>: the queue view of a connection that the
    transfer uses is refined by the connection machine.
  \<^item> \<open>Tdx_Transfer_Logged\<close>, \<open>Tdx_Transfer_Stored\<close>, \<open>Tdx_Transfer_Confirm\<close>: the two routines over any
    connection with histories (locale \<open>logged_conn\<close>): what an honest sender sends, what a receiver stores of
    it, and what the final frame means. \<open>Tdx_Transfer_Link\<close> interprets the locale on the connection
    machine, which runs under an arbitrary schedule while a call is pending; \<open>Tdx_Transfer_End\<close> puts a
    sender and a receiver on two such machines. \<open>Tdx_Transfer_Redial\<close>: the retry loops over several connections.
  \<^item> \<open>Tdx_Chat\<close>: the chat server and client of \<^verbatim>\<open>examples\<close>: the server's handlers with their shared mutex
    as an interleaving machine, the client's loops over \<open>logged_conn\<close>. \<open>Tdx_Examples\<close>: the programs \<^verbatim>\<open>simple\<close>
    and \<^verbatim>\<open>transfer\<close>, each with its two threads, from dialling and accepting to closing and the exit status.

  \<^bold>\<open>What is shown.\<close> Records, handshakes, frames, identifiers and addresses survive their round trips,
  whatever the segmentation of the stream. Both sides of a handshake get the same key; a pinned fingerprint
  is enforced; an opened blob is the sealed one. Under every schedule, messages arrive in order and without
  loss or duplication, the queues stay within their bounds, \<open>shutdown\<close> flushes, and the machine refines its
  sequential specifications; from dialling to delivery in both directions this is \<open>peers_deliver\<close> below.
  Sockets do not leak: not while dialling, listening or serving, nor over the life of a server and of the
  connections it serves; a server serves every accepted peer once, and after \<open>stop\<close> it ends unless its call
  of \<open>accept\<close> or a callback does not return. A transfer between honest peers ends with
  identical files; over two connection machines, or over a sequence of redialled connections, the
  destination is a prefix of the source at every outcome and the sender's success implies the receiver's. A reported success
  means that the bytes written to the file stream have the announced length and hash (and the file, when
  closing the stream writes them all out, which the code does not check). The routines return if every
  \<open>receive\<close> on their connections does and the peer sends finitely many messages. The chat server delivers all messages in one order and never to a connection that has left, and the two
  demonstration programs print what they claim, in the right order, whenever they exit with status 0. The ways in which the code can block for ever or fail an
  honest peer are theorems too (\<open>conn_reader_stalls\<close>, \<open>conn_shutdown_self_deadlock\<close>,
  \<open>transfer_window_deadlock\<close>, \<open>write_only_sink_mismatch\<close>, \<open>receive_file_destroys_unreadable\<close>).

  \<^bold>\<open>Bounds and fuel.\<close> No definition uses fuel: the socket, hash and window loops terminate by a measure;
  the loops that wait for a peer are \<open>partial_function\<close>s whose value is \<open>None\<close> when they never return, and
  \<open>transfer_returns\<close> shows when they do. Conversions to \<open>int\<close> and 64-bit fields are at their width; transfer
  offsets are unbounded, so files of nearly 2^63 bytes are outside the model.

  \<^bold>\<open>Not modelled.\<close> The Windows branches; the vendored mbedTLS and Monocypher and the operating system, which
  are parameters with named laws; the C++ memory model (the unsynchronised flags of \<open>Conn\<close> and the
  unsynchronised descriptor of \<open>TcpListener\<close> are read and written atomically here), and what locking a
  \<open>std::mutex\<close> twice does (undefined in C++, blocking here); when a call of \<open>accept\<close> returns, which is up to
  the kernel (\<open>sys_accept_blocks\<close>); the buffer of a \<open>std::fstream\<close>: a write the stream has taken is part of
  its contents, what of these reaches the file at \<open>close\<close> is the parameter \<open>flush\<close> of
  \<open>receive_file_flush\<close>, and \<open>receive_file\<close>, which the two-party properties use, is the case in which all
  of them do; the temporary directory of
  the \<^verbatim>\<open>transfer\<close> example, fuzzers, tests and build files.
\<close>

section \<open>Properties that span components\<close>

text \<open>
  C1. From dialling to delivery, in both directions: a client that has dialled and a server that has
  served the accepted socket, with the same pre-shared key (or none), where each reads (a prefix of)
  what the other put on the wire from its first byte on, hold the same session key; and under any
  schedules, the messages received by the callers of each side are a prefix of the messages
  successfully sent by the callers of the other.
\<close>

theorem peers_deliver:
  assumes "conn_env pA fdA inpA outA lib" and "conn_env pB fdB inpB outB lib"
    and "TcpSocket_connect pA addr (dial_timeout (freeze_config cfgA)) k0 = (Inr \<lparr>sock_fd = fdA\<rparr>, kA)"
    and "dial_for pA lib addr cfgA entA gA k0 = (Inr cA0, kA1)"
    and "serve_conn_for pB lib (Some \<lparr>sock_fd = fdB\<rparr>) cfgB entB gB kB = (Inr cB0, kB1)"
    and "auth_pre_shared_key (Config.handshake (freeze_config cfgA)) = auth_pre_shared_key (Config.handshake (freeze_config cfgB))"
    and "conn_run pA lib cA0 asA esA cA" and "conn_run pB lib cB0 asB esB cB"
    and "outA (c_kernel cA) = outA kA @ wA" and "prefix (inpB kB) wA"
    and "outB (c_kernel cB) = outB kB @ wB" and "prefix (inpA kA) wB"
    and "on_message (freeze_config cfgA) = None" and "on_message (freeze_config cfgB) = None"
  shows "c_sess cB0 = c_sess cA0 \<and> length (session_key (c_sess cA0)) = 32 \<and>
    prefix (delivered esB) (text_payloads (accepted esA)) \<and>
    prefix (delivered esA) (text_payloads (accepted esB))"
proof -
  from dialled_pair [OF assms(1-12)] obtain sess dA dB where
    c: "cA0 = Conn_init \<lparr>sock_fd = fdA\<rparr> sess (freeze_config cfgA) kA1 gA"
      "cB0 = Conn_init \<lparr>sock_fd = fdB\<rparr> sess (freeze_config cfgB) kB1 gB"
    and len: "length (session_key sess) = 32"
    and d: "outA (c_kernel cA) = outA kA1 @ dA" "prefix (inpB kB1) dA"
      "outB (c_kernel cB) = outB kB1 @ dB" "prefix (inpA kA1) dB" by blast
  from messages_exchange [OF assms(1,2) assms(7) [unfolded c] assms(8) [unfolded c] d(1,2) assms(14)]
    messages_exchange [OF assms(2,1) assms(8) [unfolded c] assms(7) [unfolded c] d(3,4) assms(13)]
  show ?thesis using c len by (simp add: Conn_init_def)
qed

definition wp_client :: script_kernel where
  "wp_client = \<lparr>rx_segments = [[84, 68, 88, 49, 0, 1], replicate 32 9], tx_log = [], tx_limits = [], fd_table = {}, next_fd = 7\<rparr>"

definition wp_server :: script_kernel where
  "wp_server = \<lparr>rx_segments = [[84, 68, 88, 49, 0, 1] @ replicate 32 3 @ [0, 0], [0, 31, 1] @ replicate 12 3 @ [11, 8] @
     replicate 12 3 @ replicate 4 0], tx_log = [], tx_limits = [], fd_table = {7}, next_fd = 8\<rparr>"

lemma wp_runs:
  "(case dial_for script_posix demo_lib ''10.0.0.1:80'' (None :: unit Config option) 3 demo_rng wp_client of
      (Inl _, _) \<Rightarrow> None
    | (Inr c, _) \<Rightarrow> map_option (\<lambda>(es, c). (accepted es, tx_log (c_kernel c))) (run_schedule script_posix demo_lib wc_send c)) =
   Some ([\<lparr>ob_typ = 1, ob_pt = [1, 2]\<rparr>], concat (rx_segments wp_server))"
  "(case serve_conn_for script_posix demo_lib (Some \<lparr>sock_fd = 7\<rparr>) (None :: unit Config option) 9 demo_rng wp_server of
      (Inl _, _) \<Rightarrow> None
    | (Inr c, _) \<Rightarrow> map_option (\<lambda>(es, c). (delivered es, tx_log (c_kernel c))) (run_schedule script_posix demo_lib wc_recv c)) =
   Some ([[1, 2]], concat (rx_segments wp_client))"
  "map_prod id rx_segments (TcpSocket_connect script_posix ''10.0.0.1:80'' (dial_timeout (freeze_config (None :: unit Config option))) wp_client) =
     (Inr \<lparr>sock_fd = 7\<rparr>, rx_segments wp_client)"
  "tx_log (snd (TcpSocket_connect script_posix ''10.0.0.1:80'' (dial_timeout (freeze_config (None :: unit Config option))) wp_client)) = []"
  by code_simp+

theorem peers_deliver_witness:
  "\<exists>cA0 kA1 cB0 kB1 esA cA esB cB.
     dial_for script_posix demo_lib ''10.0.0.1:80'' (None :: unit Config option) 3 demo_rng wp_client = (Inr cA0, kA1) \<and>
     serve_conn_for script_posix demo_lib (Some \<lparr>sock_fd = 7\<rparr>) (None :: unit Config option) 9 demo_rng wp_server = (Inr cB0, kB1) \<and>
     conn_run script_posix demo_lib cA0 wc_send esA cA \<and> conn_run script_posix demo_lib cB0 wc_recv esB cB \<and>
     delivered esB = [[1, 2]] \<and> prefix (delivered esB) (text_payloads (accepted esA))"
proof -
  obtain cA0 kA1 where A: "dial_for script_posix demo_lib ''10.0.0.1:80'' (None :: unit Config option) 3 demo_rng wp_client = (Inr cA0, kA1)"
    and a: "map_option (\<lambda>(es, c). (accepted es, tx_log (c_kernel c))) (run_schedule script_posix demo_lib wc_send cA0) =
      Some ([\<lparr>ob_typ = 1, ob_pt = [1, 2]\<rparr>], concat (rx_segments wp_server))"
    using wp_runs(1) by (auto split: prod.splits sum.splits)
  obtain cB0 kB1 where B: "serve_conn_for script_posix demo_lib (Some \<lparr>sock_fd = 7\<rparr>) (None :: unit Config option) 9 demo_rng wp_server = (Inr cB0, kB1)"
    and b: "map_option (\<lambda>(es, c). (delivered es, tx_log (c_kernel c))) (run_schedule script_posix demo_lib wc_recv cB0) =
      Some ([[1, 2]], concat (rx_segments wp_client))"
    using wp_runs(2) by (auto split: prod.splits sum.splits)
  obtain esA cA where rA: "conn_run script_posix demo_lib cA0 wc_send esA cA" and oA: "tx_log (c_kernel cA) = concat (rx_segments wp_server)"
    by (rule schedule_run [OF a]) auto
  obtain esB cB where rB: "conn_run script_posix demo_lib cB0 wc_recv esB cB" and oB: "tx_log (c_kernel cB) = concat (rx_segments wp_client)"
    and del: "delivered esB = [[1, 2]]"
    by (rule schedule_run [OF b]) auto
  obtain kA where con: "TcpSocket_connect script_posix ''10.0.0.1:80'' (dial_timeout (freeze_config (None :: unit Config option))) wp_client =
      (Inr \<lparr>sock_fd = 7\<rparr>, kA)" and kA: "rx_segments kA = rx_segments wp_client" "tx_log kA = []"
    using wp_runs(3,4) by (cases "TcpSocket_connect script_posix ''10.0.0.1:80'' (dial_timeout (freeze_config (None :: unit Config option))) wp_client") auto
  have cfg: "on_message (freeze_config (None :: unit Config option)) = None" by (simp add: freeze_config_def default_config_def)
  have "tx_log wp_server = []" by (simp add: wp_server_def)
  with peers_deliver [OF demo.conn_env_axioms demo.conn_env_axioms con A B refl rA rB _ _ _ _ cfg cfg,
      of "concat (rx_segments wp_server)" "concat (rx_segments wp_client)"] oA oB kA
  have "prefix (delivered esB) (text_payloads (accepted esA))" by simp
  with A B rA rB del show ?thesis by blast
qed

end
